(* ===== verification/Mitosis_Prelude.thy ===== *)
theory Mitosis_Prelude
  imports Main "HOL-Library.Word" "HOL-Library.Monad_Syntax"
begin

text \<open>
  Shared vocabulary of the development: the machine integer types of the Rust code, flat
  byte-addressed memory with block reads and writes, the little-endian representation of
  integers, and memory layouts of copyable (\<open>Sized\<close>) Rust types. The layout of a
  \<open>repr(Rust)\<close> struct is chosen by the compiler, so a layout is a value that the model takes
  as an argument; what the code relies on (fixed size, copying out what was copied in) is the
  locale \<open>pod_layout\<close>.
\<close>

section \<open>Types and collections of rules\<close>

type_synonym u8 = "8 word"
type_synonym u16 = "16 word"
type_synonym u32 = "32 word"
type_synonym u64 = "64 word"

named_theorems mem_simps \<open>reads after writes in flat memory\<close>
named_theorems layout_simps \<open>sizes and round trips of memory layouts\<close>
named_theorems fault_simps \<open>outcomes of operations that may panic\<close>

text \<open>
  The kernel module is compiled with overflow checks (\<open>overflow-checks = true\<close> in
  mitosis/Cargo.toml): an addition, subtraction or multiplication that does not fit panics.
  A panic, an abort of the allocator and a dereference of a dangling pointer are all the value
  \<^term>\<open>None\<close> of an outer option.
\<close>

definition checked_add :: "'a::len word \<Rightarrow> 'a word \<Rightarrow> 'a word option" where
  "checked_add a b = (if unat a + unat b < 2 ^ LENGTH('a) then Some (a + b) else None)"

definition checked_sub :: "'a::len word \<Rightarrow> 'a word \<Rightarrow> 'a word option" where
  "checked_sub a b = (if b \<le> a then Some (a - b) else None)"

definition require :: "bool \<Rightarrow> unit option" where
  "require c = (if c then Some () else None)"

lemma require_simps [simp]:
  "require True = Some ()" "require False = None"
  by (simp_all add: require_def)

lemma require_Some [simp]: "require c = Some u \<longleftrightarrow> c"
  by (simp add: require_def)

lemma checked_add_Some:
  "checked_add a b = Some c \<longleftrightarrow> unat a + unat b < 2 ^ LENGTH('a) \<and> c = a + b"
  for a b :: "'a::len word"
  by (auto simp: checked_add_def)

lemma checked_add_unat:
  fixes a b :: "'a::len word"
  assumes "checked_add a b = Some c"
  shows "unat c = unat a + unat b"
  using assms by (auto simp: checked_add_Some unat_word_ariths)

lemma checked_sub_unat:
  fixes a b :: "'a::len word"
  assumes "checked_sub a b = Some c"
  shows "unat c = unat a - unat b"
  using assms by (auto simp: checked_sub_def unat_sub split: if_splits)

section \<open>Flat memory\<close>

type_synonym mem = "nat \<Rightarrow> u8"

definition mem_read :: "mem \<Rightarrow> nat \<Rightarrow> nat \<Rightarrow> u8 list" where
  "mem_read m p n = map (\<lambda>i. m (p + i)) [0..<n]"

definition mem_write :: "mem \<Rightarrow> nat \<Rightarrow> u8 list \<Rightarrow> mem" where
  "mem_write m p bs = (\<lambda>a. if p \<le> a \<and> a < p + length bs then bs ! (a - p) else m a)"

lemma length_mem_read [simp]: "length (mem_read m p n) = n"
  by (simp add: mem_read_def)

lemma nth_mem_read [simp]: "i < n \<Longrightarrow> mem_read m p n ! i = m (p + i)"
  by (simp add: mem_read_def)

lemma mem_read_0 [simp]: "mem_read m p 0 = []"
  by (simp add: mem_read_def)

lemma mem_write_Nil [simp]: "mem_write m p [] = m"
  by (rule ext) (auto simp: mem_write_def)

lemma mem_read_write_same [mem_simps]:
  "n = length bs \<Longrightarrow> mem_read (mem_write m p bs) p n = bs"
  by (rule nth_equalityI) (simp_all add: mem_write_def)

lemma mem_read_write_disjoint [mem_simps]:
  "p + n \<le> q \<or> q + length bs \<le> p \<Longrightarrow> mem_read (mem_write m q bs) p n = mem_read m p n"
  by (rule nth_equalityI) (auto simp: mem_write_def)

lemma mem_write_outside [mem_simps]:
  "a < p \<or> p + length bs \<le> a \<Longrightarrow> mem_write m p bs a = m a"
  by (auto simp: mem_write_def)

lemma mem_write_append:
  "mem_write (mem_write m p bs) (p + length bs) cs = mem_write m p (bs @ cs)"
  by (rule ext) (auto simp: mem_write_def nth_append)

lemma mem_read_append: "mem_read m p (n + k) = mem_read m p n @ mem_read m (p + n) k"
  by (rule nth_equalityI) (auto simp: nth_append)

text \<open>\<open>mem_has m p bs\<close>: the block at \<open>p\<close> holds exactly the bytes \<open>bs\<close>.\<close>

definition mem_has :: "mem \<Rightarrow> nat \<Rightarrow> u8 list \<Rightarrow> bool" where
  "mem_has m p bs \<longleftrightarrow> mem_read m p (length bs) = bs"

lemma mem_has_append:
  "mem_has m p (bs @ cs) \<longleftrightarrow> mem_has m p bs \<and> mem_has m (p + length bs) cs"
  by (auto simp: mem_has_def mem_read_append)

lemma mem_read_take: "k \<le> n \<Longrightarrow> mem_read m p k = take k (mem_read m p n)"
  using mem_read_append [of m p k "n - k"] by simp

lemma mem_has_transfer:
  assumes "mem_read m p n = mem_read m' p' n" "length bs \<le> n" "mem_has m' p' bs"
  shows "mem_has m p bs"
  using assms mem_read_take [OF assms(2)] by (metis mem_has_def)

lemma mem_has_Nil [simp]: "mem_has m p []"
  by (simp add: mem_has_def)

lemma mem_has_write [simp]: "mem_has (mem_write m p bs) p bs"
  by (simp add: mem_has_def mem_read_write_same)

section \<open>Little-endian integers\<close>

fun nat_to_le :: "nat \<Rightarrow> nat \<Rightarrow> u8 list" where
  "nat_to_le 0 k = []"
| "nat_to_le (Suc n) k = word_of_nat (k mod 256) # nat_to_le n (k div 256)"

fun le_to_nat :: "u8 list \<Rightarrow> nat" where
  "le_to_nat [] = 0"
| "le_to_nat (b # bs) = unat b + 256 * le_to_nat bs"

lemma length_nat_to_le [simp]: "length (nat_to_le n k) = n"
  by (induction n k rule: nat_to_le.induct) simp_all

lemma le_to_nat_to_le: "le_to_nat (nat_to_le n k) = k mod 256 ^ n"
proof (induction n k rule: nat_to_le.induct)
  case (2 n k)
  have "k mod 256 ^ Suc n = k mod 256 + 256 * (k div 256 mod 256 ^ n)"
    by (simp add: mod_mult2_eq)
  with 2 show ?case
    by (simp add: unat_of_nat)
qed simp

definition word_to_le :: "'a::len word \<Rightarrow> u8 list" where
  "word_to_le w = nat_to_le (LENGTH('a) div 8) (unat w)"

definition le_to_word :: "u8 list \<Rightarrow> 'a::len word" where
  "le_to_word bs = word_of_nat (le_to_nat bs)"

lemma length_word_to_le [simp]: "length (word_to_le (w :: 'a::len word)) = LENGTH('a) div 8"
  by (simp add: word_to_le_def)

lemma le_to_word_to_le:
  fixes w :: "'a::len word"
  assumes "8 dvd LENGTH('a)"
  shows "le_to_word (word_to_le w) = w"
proof -
  from assms obtain k where k: "LENGTH('a) = 8 * k" ..
  have "(256 :: nat) ^ k = 2 ^ LENGTH('a)"
    by (simp add: k power_mult)
  then have "unat w mod 256 ^ k = unat w"
    by simp
  then show ?thesis
    by (simp add: word_to_le_def le_to_word_def le_to_nat_to_le k)
qed

section \<open>Memory layouts of copyable types\<close>

record 'a layout =
  size_of :: nat
  to_raw :: "'a \<Rightarrow> u8 list"
  from_raw_bytes :: "u8 list \<Rightarrow> 'a"

definition wf_layout :: "'a layout \<Rightarrow> bool" where
  "wf_layout L \<longleftrightarrow>
     (\<forall>v. length (to_raw L v) = size_of L) \<and> (\<forall>v. from_raw_bytes L (to_raw L v) = v)"

locale pod_layout =
  fixes L :: "'a layout"
  assumes raw_length: "length (to_raw L v) = size_of L"
    and raw_inverse: "from_raw_bytes L (to_raw L v) = v"
begin

lemma to_raw_inject: "to_raw L v = to_raw L w \<longleftrightarrow> v = w"
  by (metis raw_inverse)

lemma read_back: "from_raw_bytes L (mem_read (mem_write m p (to_raw L v)) p (size_of L)) = v"
  by (simp add: mem_read_write_same raw_length raw_inverse)

lemma read_has: "mem_has m p (to_raw L v) \<Longrightarrow> from_raw_bytes L (mem_read m p (size_of L)) = v"
  using raw_length raw_inverse by (metis mem_has_def)

end

lemma wf_layout_pod: "wf_layout L \<longleftrightarrow> pod_layout L"
  by (simp add: wf_layout_def pod_layout_def)

lemma wf_layout_length [layout_simps]: "wf_layout L \<Longrightarrow> length (to_raw L v) = size_of L"
  by (simp add: wf_layout_def)

lemma wf_layout_inverse [layout_simps]: "wf_layout L \<Longrightarrow> from_raw_bytes L (to_raw L v) = v"
  by (simp add: wf_layout_def)

text \<open>Integers have a fixed layout: little-endian on the x86-64 target.\<close>

definition u32_layout :: "u32 layout" where
  "u32_layout = \<lparr>size_of = 4, to_raw = word_to_le, from_raw_bytes = le_to_word\<rparr>"

definition u64_layout :: "u64 layout" where
  "u64_layout = \<lparr>size_of = 8, to_raw = word_to_le, from_raw_bytes = le_to_word\<rparr>"

interpretation u32l: pod_layout u32_layout
  by unfold_locales (simp_all add: u32_layout_def le_to_word_to_le)

interpretation u64l: pod_layout u64_layout
  by unfold_locales (simp_all add: u64_layout_def le_to_word_to_le)

lemma wf_u32_layout [simp]: "wf_layout u32_layout"
  by (simp add: wf_layout_pod u32l.pod_layout_axioms)

lemma wf_u64_layout [simp]: "wf_layout u64_layout"
  by (simp add: wf_layout_pod u64l.pod_layout_axioms)

lemma u32_size [simp]: "size_of u32_layout = 4"
  by (simp add: u32_layout_def)

lemma u64_size [simp]: "size_of u64_layout = 8"
  by (simp add: u64_layout_def)

text \<open>
  Two combinators for concrete layouts: fields one after the other, and a struct seen as the
  tuple of its fields.
\<close>

definition pair_layout :: "'a layout \<Rightarrow> 'b layout \<Rightarrow> ('a \<times> 'b) layout" where
  "pair_layout A B =
     \<lparr>size_of = size_of A + size_of B,
      to_raw = (\<lambda>(a, b). to_raw A a @ to_raw B b),
      from_raw_bytes = (\<lambda>bs. (from_raw_bytes A (take (size_of A) bs),
                              from_raw_bytes B (drop (size_of A) bs)))\<rparr>"

definition struct_layout :: "('s \<Rightarrow> 'a) \<Rightarrow> ('a \<Rightarrow> 's) \<Rightarrow> 'a layout \<Rightarrow> 's layout" where
  "struct_layout f g A =
     \<lparr>size_of = size_of A, to_raw = (\<lambda>s. to_raw A (f s)), from_raw_bytes = (\<lambda>bs. g (from_raw_bytes A bs))\<rparr>"

lemma wf_pair_layout: "wf_layout A \<Longrightarrow> wf_layout B \<Longrightarrow> wf_layout (pair_layout A B)"
  by (auto simp: wf_layout_def pair_layout_def)

lemma wf_struct_layout: "wf_layout A \<Longrightarrow> (\<And>s. g (f s) = s) \<Longrightarrow> wf_layout (struct_layout f g A)"
  by (auto simp: wf_layout_def struct_layout_def)

section \<open>Lists and maps\<close>

lemma map_of_append_None: "map_of (xs @ ys) k = (case map_of xs k of None \<Rightarrow> map_of ys k | Some v \<Rightarrow> Some v)"
  by (simp add: map_add_def split: option.splits)

lemma distinct_set_singleton: "distinct xs \<Longrightarrow> set xs = {x} \<Longrightarrow> xs = [x]"
  by (cases xs; cases "tl xs") auto

lemma bind_Some_iff [fault_simps]: "Option.bind x f = Some y \<longleftrightarrow> (\<exists>a. x = Some a \<and> f a = Some y)"
  by (rule bind_eq_Some_conv)

text \<open>A loop over a list whose body may fault.\<close>

fun foldo :: "('a \<Rightarrow> 's \<Rightarrow> 's option) \<Rightarrow> 'a list \<Rightarrow> 's \<Rightarrow> 's option" where
  "foldo f [] s = Some s"
| "foldo f (x # xs) s = do { s \<leftarrow> f x s; foldo f xs s }"

lemma foldo_append [simp]: "foldo f (xs @ ys) s = do { s \<leftarrow> foldo f xs s; foldo f ys s }"
  by (induction f xs s rule: foldo.induct) (auto intro: Option.bind_cong)

lemma foldo_invariant:
  assumes "foldo f xs s = Some s'" "I s" "\<And>x s s'. x \<in> set xs \<Longrightarrow> I s \<Longrightarrow> f x s = Some s' \<Longrightarrow> I s'"
  shows "I s'"
  using assms by (induction f xs s rule: foldo.induct) (auto split: bind_splits)

end
