(* ===== verification/Bytes_Mut.thy ===== *)
theory Bytes_Mut
  imports Mitosis_Prelude
begin

text \<open>
  The byte buffers of os-network/src/bytes.rs and the copying serialiser of
  os-network/src/serialize.rs. A \<open>BytesMut\<close> is a raw pointer and a length into flat memory; the
  operations take the memory and return it updated, so that overlapping views of one block and
  writes past the end of a buffer are visible in the model. The locale \<open>serializable\<close> is the
  contract of the trait \<open>Serialize\<close>; its default methods fulfil it for every type with a layout.
\<close>

section \<open>Buffers\<close>

record BytesMut =
  bm_ptr :: nat
  bm_len :: nat

definition from_raw :: "nat \<Rightarrow> nat \<Rightarrow> BytesMut" where
  "from_raw p n = \<lparr>bm_ptr = p, bm_len = n\<rparr>"

definition truncate_header :: "BytesMut \<Rightarrow> nat \<Rightarrow> BytesMut option" where
  "truncate_header b off =
     (if bm_len b \<ge> off then Some \<lparr>bm_ptr = bm_ptr b + off, bm_len = bm_len b - off\<rparr> else None)"

definition clone_and_resize :: "BytesMut \<Rightarrow> nat \<Rightarrow> BytesMut option" where
  "clone_and_resize b sz = (if bm_len b \<ge> sz then Some \<lparr>bm_ptr = bm_ptr b, bm_len = sz\<rparr> else None)"

definition bytes_clone :: "BytesMut \<Rightarrow> BytesMut" where
  "bytes_clone b = \<lparr>bm_ptr = bm_ptr b, bm_len = bm_len b\<rparr>"

definition bytes_copy :: "mem \<Rightarrow> BytesMut \<Rightarrow> BytesMut \<Rightarrow> nat \<Rightarrow> mem \<times> bool" where
  "bytes_copy m self payload offset =
     (if offset \<le> bm_len self
      then (mem_write m (bm_ptr self) (mem_read m (bm_ptr payload) (bm_len payload)), True)
      else (m, False))"

definition resize :: "BytesMut \<Rightarrow> nat \<Rightarrow> BytesMut" where
  "resize b sz = (if sz < bm_len b then b\<lparr>bm_len := sz\<rparr> else b)"

definition write_unaligned_at_head :: "'a layout \<Rightarrow> mem \<Rightarrow> BytesMut \<Rightarrow> 'a \<Rightarrow> mem \<times> nat" where
  "write_unaligned_at_head L m b v = (mem_write m (bm_ptr b) (to_raw L v), size_of L)"

definition read_unaligned_at_head :: "'a layout \<Rightarrow> mem \<Rightarrow> BytesMut \<Rightarrow> 'a" where
  "read_unaligned_at_head L m b = from_raw_bytes L (mem_read m (bm_ptr b) (size_of L))"

definition at_unchecked :: "mem \<Rightarrow> BytesMut \<Rightarrow> nat \<Rightarrow> u8" where
  "at_unchecked m b offset = m (bm_ptr b + offset)"

text \<open>The comparison loop \<open>for i in 0..self.len\<close>, here from the loop index \<open>i\<close> on.\<close>

function bytes_eq_from :: "mem \<Rightarrow> BytesMut \<Rightarrow> BytesMut \<Rightarrow> nat \<Rightarrow> bool" where
  "bytes_eq_from m a b i =
     (if i < bm_len a
      then (if at_unchecked m a i \<noteq> at_unchecked m b i then False else bytes_eq_from m a b (i + 1))
      else True)"
  by pat_completeness auto
termination by (relation "measure (\<lambda>(m, a, b, i). bm_len a - i)") auto

declare bytes_eq_from.simps [simp del]

definition bytes_eq :: "mem \<Rightarrow> BytesMut \<Rightarrow> BytesMut \<Rightarrow> bool" where
  "bytes_eq m a b = (if bm_len a \<noteq> bm_len b then False else bytes_eq_from m a b 0)"

definition write_str :: "mem \<Rightarrow> BytesMut \<Rightarrow> u8 list \<Rightarrow> mem \<times> bool" where
  "write_str m b s =
     (if length s \<le> bm_len b then (mem_write m (bm_ptr b) s, True) else (m, False))"

text \<open>\<open>core::fmt::write\<close> hands the pieces of a formatted text to \<open>write_str\<close> one by one and stops at the first error.\<close>

fun write_fmt :: "mem \<Rightarrow> BytesMut \<Rightarrow> u8 list list \<Rightarrow> mem \<times> bool" where
  "write_fmt m b [] = (m, True)"
| "write_fmt m b (s # ss) =
     (let (m', ok) = write_str m b s in if ok then write_fmt m' b ss else (m', False))"

definition hex_digit :: "nat \<Rightarrow> char" where
  "hex_digit d = char_of (if d < 10 then 48 + d else 87 + d)"

definition debug_byte :: "u8 \<Rightarrow> string" where
  "debug_byte b =
     (if b = 10 then [CHR 0x5C, CHR ''n'']
      else if b = 13 then [CHR 0x5C, CHR ''r'']
      else if b = 9 then [CHR 0x5C, CHR ''t'']
      else if b = 92 \<or> b = 34 then [CHR 0x5C, char_of (unat b)]
      else if b = 0 then [CHR 0x5C, CHR ''0'']
      else if 0x20 \<le> b \<and> b < 0x7f then [char_of (unat b)]
      else [CHR 0x5C, CHR ''x'', hex_digit (unat b div 16), hex_digit (unat b mod 16)])"

definition bytes_debug :: "mem \<Rightarrow> BytesMut \<Rightarrow> string" where
  "bytes_debug m b =
     [CHR ''b'', CHR 0x22] @ concat (map debug_byte (mem_read m (bm_ptr b) (bm_len b))) @ [CHR 0x22]"

section \<open>Copying serialisation\<close>

definition memcpy_serialize :: "'a layout \<Rightarrow> mem \<Rightarrow> BytesMut \<Rightarrow> 'a \<Rightarrow> mem \<times> nat option" where
  "memcpy_serialize L m b v =
     (if size_of L \<le> bm_len b then (mem_write m (bm_ptr b) (to_raw L v), Some (size_of L))
      else (m, None))"

definition memcpy_serialize_at :: "'a layout \<Rightarrow> mem \<Rightarrow> BytesMut \<Rightarrow> nat \<Rightarrow> 'a \<Rightarrow> mem \<times> nat option" where
  "memcpy_serialize_at L m b off v =
     (case truncate_header b off of
        Some bytes \<Rightarrow> memcpy_serialize L m bytes v
      | None \<Rightarrow> (m, None))"

text \<open>Deserialisation fills a caller's variable; \<open>target\<close> is its old value, which an error leaves in place.\<close>

definition memcpy_deserialize :: "'a layout \<Rightarrow> mem \<Rightarrow> BytesMut \<Rightarrow> 'a \<Rightarrow> 'a \<times> nat option" where
  "memcpy_deserialize L m b target =
     (if size_of L \<le> bm_len b
      then (from_raw_bytes L (mem_read m (bm_ptr b) (size_of L)), Some (size_of L))
      else (target, None))"

definition memcpy_deserialize_at :: "'a layout \<Rightarrow> mem \<Rightarrow> BytesMut \<Rightarrow> nat \<Rightarrow> 'a \<Rightarrow> 'a \<times> nat option" where
  "memcpy_deserialize_at L m b off target =
     (case truncate_header b off of
        Some bytes \<Rightarrow> memcpy_deserialize L m bytes target
      | None \<Rightarrow> (target, None))"

definition serialize_default :: "'a layout \<Rightarrow> mem \<Rightarrow> BytesMut \<Rightarrow> 'a \<Rightarrow> mem \<times> bool" where
  "serialize_default L m b v = (let (m', r) = memcpy_serialize L m b v in (m', r \<noteq> None))"

text \<open>The uninitialised \<open>result\<close> of the default \<open>deserialize\<close> has no value the code reads; any value stands for it.\<close>

definition deserialize_default :: "'a layout \<Rightarrow> mem \<Rightarrow> BytesMut \<Rightarrow> 'a option" where
  "deserialize_default L m b =
     (case memcpy_deserialize L m b (from_raw_bytes L []) of
        (result, Some _) \<Rightarrow> Some result
      | (_, None) \<Rightarrow> None)"

definition serialization_buf_len_default :: "'a layout \<Rightarrow> 'a \<Rightarrow> nat" where
  "serialization_buf_len_default L v = size_of L"

section \<open>The contract of the trait Serialize\<close>

text \<open>
  A panic of \<open>serialize\<close> is the outer \<^term>\<open>None\<close>. \<open>wire v\<close> is the byte string a value has in a buffer and \<open>valid v\<close> what the implementation asks of
  the value. With \<open>serialization_buf_len\<close> bytes of room, \<open>serialize\<close> succeeds, writes exactly
  the wire bytes and nothing else, and \<open>deserialize\<close> on a buffer that starts with them returns
  the value.
\<close>

locale serializable =
  fixes ser :: "mem \<Rightarrow> BytesMut \<Rightarrow> 'a \<Rightarrow> (mem \<times> bool) option"
    and deser :: "mem \<Rightarrow> BytesMut \<Rightarrow> 'a option"
    and buf_len :: "'a \<Rightarrow> nat"
    and wire :: "'a \<Rightarrow> u8 list"
    and valid :: "'a \<Rightarrow> bool"
  assumes ser_writes:
      "valid v \<Longrightarrow> buf_len v \<le> bm_len b \<Longrightarrow> ser m b v = Some (mem_write m (bm_ptr b) (wire v), True)"
    and wire_fits: "valid v \<Longrightarrow> length (wire v) \<le> buf_len v"
    and deser_reads:
      "valid v \<Longrightarrow> buf_len v \<le> bm_len b \<Longrightarrow> mem_has m (bm_ptr b) (wire v) \<Longrightarrow> deser m b = Some v"
begin

lemma round_trip:
  assumes "valid v" "buf_len v \<le> bm_len b" "ser m b v = Some (m', r)"
  shows "r \<and> deser m' b = Some v"
  using assms ser_writes [of v b m] deser_reads [of v b m'] by auto

lemma frame:
  assumes "valid v" "buf_len v \<le> bm_len b" "ser m b v = Some (m', r)"
    and "a < bm_ptr b \<or> bm_ptr b + bm_len b \<le> a"
  shows "m' a = m a"
  using assms ser_writes [of v b m] wire_fits [of v] by (auto simp: mem_simps)

lemma wire_inject:
  assumes "valid v" "valid w" "wire v = wire w"
  shows "v = w"
proof -
  define b where "b = \<lparr>bm_ptr = 0, bm_len = max (buf_len v) (buf_len w)\<rparr>"
  have "deser (mem_write (\<lambda>_. 0) 0 (wire v)) b = Some v"
    by (rule deser_reads) (use assms in \<open>simp_all add: b_def\<close>)
  moreover have "deser (mem_write (\<lambda>_. 0) 0 (wire w)) b = Some w"
    by (rule deser_reads) (use assms in \<open>simp_all add: b_def\<close>)
  ultimately have "Some v = Some w"
    unfolding assms(3) by (rule subst)
  then show ?thesis
    by simp
qed

end

sublocale pod_layout \<subseteq> default_ser: serializable
  "\<lambda>m b v. Some (serialize_default L m b v)" "deserialize_default L"
  "serialization_buf_len_default L" "to_raw L" "\<lambda>_. True"
  using raw_length read_has
  by unfold_locales
    (simp_all add: serialize_default_def memcpy_serialize_def deserialize_default_def
      memcpy_deserialize_def serialization_buf_len_default_def)

section \<open>Facts on buffers\<close>

lemma truncate_header_Some:
  "truncate_header b off = Some b' \<longleftrightarrow>
     off \<le> bm_len b \<and> b' = \<lparr>bm_ptr = bm_ptr b + off, bm_len = bm_len b - off\<rparr>"
  by (auto simp: truncate_header_def)

lemma bytes_eq_from_iff:
  "bytes_eq_from m a b i \<longleftrightarrow> (\<forall>j. i \<le> j \<and> j < bm_len a \<longrightarrow> m (bm_ptr a + j) = m (bm_ptr b + j))"
proof (induction m a b i rule: bytes_eq_from.induct)
  case (1 m a b i)
  show ?case
  proof (cases "i < bm_len a")
    case True
    have "(\<forall>j. i \<le> j \<and> j < bm_len a \<longrightarrow> P j) \<longleftrightarrow> P i \<and> (\<forall>j. i + 1 \<le> j \<and> j < bm_len a \<longrightarrow> P j)" for P
      using True by (metis Suc_eq_plus1 Suc_leI le_eq_less_or_eq order.refl less_eq_Suc_le)
    then show ?thesis
      using 1 True by (subst bytes_eq_from.simps) (auto simp: at_unchecked_def)
  next
    case False
    then show ?thesis
      by (subst bytes_eq_from.simps) auto
  qed
qed

lemma char_of_printable: "32 \<le> n \<Longrightarrow> n < 127 \<Longrightarrow> 32 \<le> (of_char (char_of n) :: nat) \<and> (of_char (char_of n) :: nat) < 127"
  for n :: nat
  by (simp add: of_char_of take_bit_eq_mod)

lemma hex_digit_printable:
  assumes "d < 16"
  shows "32 \<le> (of_char (hex_digit d) :: nat) \<and> (of_char (hex_digit d) :: nat) < 127"
  using assms char_of_printable by (auto simp: hex_digit_def)

lemma debug_byte_printable:
  assumes "c \<in> set (debug_byte b)"
  shows "32 \<le> (of_char c :: nat) \<and> (of_char c :: nat) < 127"
proof -
  have b: "unat b < 256"
    using unsigned_less [of b, where ?'a = nat] by simp
  have "32 \<le> unat b \<and> unat b < 127" if "0x20 \<le> b" "b < 0x7f"
    using that by (simp add: word_le_nat_alt word_less_nat_alt)
  then show ?thesis
    using assms b char_of_printable [of "unat b"] hex_digit_printable [of "unat b div 16"]
      hex_digit_printable [of "unat b mod 16"]
    by (auto simp: debug_byte_def split: if_splits)
qed

section \<open>Properties\<close>

text \<open>C34: The copying serialiser round-trips at every offset: when \<open>memcpy_serialize_at\<close> accepts a value it
  reports its size, \<open>memcpy_deserialize_at\<close> at the same offset returns the value with the
  same size, and no byte outside the written range of the buffer changes.\<close>

theorem memcpy_round_trip:
  assumes "wf_layout L" and "memcpy_serialize_at L m b off v = (m', Some n)"
  shows "n = size_of L \<and> off + n \<le> bm_len b \<and> memcpy_deserialize_at L m' b off old = (v, Some n)
    \<and> (\<forall>a. a < bm_ptr b + off \<or> bm_ptr b + off + n \<le> a \<longrightarrow> m' a = m a)"
  using assms
  by (auto simp: memcpy_serialize_at_def memcpy_deserialize_at_def memcpy_serialize_def
      memcpy_deserialize_def truncate_header_def layout_simps mem_simps split: if_splits)

theorem memcpy_round_trip_witness:
  "memcpy_deserialize_at u32_layout
     (fst (memcpy_serialize_at u32_layout (\<lambda>_. 0) (from_raw 16 12) 4 (0x01020304 :: u32)))
     (from_raw 16 12) 4 0 = (0x01020304, Some 4)"
  using memcpy_round_trip [of u32_layout "\<lambda>_. 0" "from_raw 16 12" 4 "0x01020304"
      "fst (memcpy_serialize_at u32_layout (\<lambda>_. 0) (from_raw 16 12) 4 0x01020304)" 4 0]
  by (simp add: memcpy_serialize_at_def memcpy_serialize_def truncate_header_def from_raw_def)

text \<open>A refused serialisation or deserialisation has no effect: memory and the caller's variable keep
  their old values, and it is refused exactly when the value does not fit behind the offset.\<close>

theorem memcpy_refused:
  "(snd (memcpy_serialize_at L m b off v) = None \<longleftrightarrow> bm_len b < off + size_of L)
   \<and> (bm_len b < off + size_of L \<longrightarrow>
        memcpy_serialize_at L m b off v = (m, None) \<and> memcpy_deserialize_at L m b off old = (old, None))"
  by (auto simp: memcpy_serialize_at_def memcpy_deserialize_at_def memcpy_serialize_def
      memcpy_deserialize_def truncate_header_def split: if_splits)

theorem memcpy_refused_witness:
  "memcpy_serialize_at u64_layout (\<lambda>_. 7) (from_raw 16 12) 5 1 = (\<lambda>_. 7, None)"
  using memcpy_refused [of u64_layout "\<lambda>_. 7" "from_raw 16 12" 5 1 0]
  by (simp add: from_raw_def)

text \<open>Equality of buffers, a loop with early exit over raw reads, is equality of the byte strings
  the two buffers hold, wherever they lie in memory.\<close>

theorem bytes_eq_content:
  "bytes_eq m a b \<longleftrightarrow> mem_read m (bm_ptr a) (bm_len a) = mem_read m (bm_ptr b) (bm_len b)"
proof -
  have "mem_read m (bm_ptr a) n = mem_read m (bm_ptr b) n \<longleftrightarrow>
      (\<forall>j < n. m (bm_ptr a + j) = m (bm_ptr b + j))" for n
    by (auto simp: list_eq_iff_nth_eq)
  then show ?thesis
    by (auto simp: bytes_eq_def bytes_eq_from_iff dest: arg_cong [of _ _ length])
qed

text \<open>Formatting into a buffer puts every piece of the text at the head of the buffer: the
  result of two pieces is the second laid over the first, not their concatenation.\<close>

theorem write_fmt_overwrites:
  assumes "length s \<le> bm_len b" "length t \<le> bm_len b"
  shows "write_fmt m b [s, t] = (mem_write m (bm_ptr b) (t @ drop (length t) s), True)"
  using assms by (auto simp: write_str_def mem_write_def fun_eq_iff nth_append)

theorem write_fmt_overwrites_witness:
  "mem_read (fst (write_fmt (\<lambda>_. 0) (from_raw 0 8) [[1, 2, 3], [9]])) 0 3 = [9, 2, 3]"
  using write_fmt_overwrites [of "[1, 2, 3]" "from_raw 0 8" "[9]" "\<lambda>_. 0"]
  by (simp add: from_raw_def mem_read_write_same)

text \<open>\<open>copy\<close> answers \<open>true\<close> for a payload longer than the room behind the offset, and then
  overwrites the bytes behind the destination buffer; the offset does not move the destination.\<close>

theorem bytes_copy_overruns:
  assumes "off \<le> bm_len dst" "bm_len dst < bm_len src"
  shows "snd (bytes_copy m dst src off)
    \<and> fst (bytes_copy m dst src off) (bm_ptr dst + bm_len dst) = m (bm_ptr src + bm_len dst)
    \<and> fst (bytes_copy m dst src off) = fst (bytes_copy m dst src 0)"
  using assms by (auto simp: bytes_copy_def mem_write_def)

theorem bytes_copy_overruns_witness:
  "fst (bytes_copy (\<lambda>a. word_of_nat a) (from_raw 0 3) (from_raw 16 4) 2) 3 = 19"
  using bytes_copy_overruns [of 2 "from_raw 0 3" "from_raw 16 4" "\<lambda>a. word_of_nat a"]
  by (auto simp: from_raw_def simp del: One_nat_def)

end
