(* ===== verification/Async_Future.thy ===== *)
theory Async_Future
  imports Mitosis_Prelude
begin

text \<open>
  Futures, blocking and timeouts: os-network/src/future.rs, os-network/src/timeout.rs and the
  two \<open>block_on\<close> loops of os-network/src/lib.rs. A future over a state type is its \<open>poll\<close>
  function, which returns the outcome and the new state. The kernel timer (\<open>KTimer\<close>, of the
  crate rust_kernel_linux_util) is a parameter: \<open>passed\<close> reads the microseconds since the last
  reset and lets time go on, \<open>timer_reset\<close> restarts it. The loops may run forever, so they are
  partial functions into \<^typ>\<open>'a option\<close> and not returning is the value \<^term>\<open>None\<close>.
\<close>

section \<open>Polling and blocking\<close>

datatype 'a Async = Ready 'a | NotReady

type_synonym ('a, 'e) Poll = "'e + 'a Async"
type_synonym ('s, 'a, 'e) future = "'s \<Rightarrow> ('a, 'e) Poll \<times> 's"

partial_function (option) block_on :: "('s, 'a, 'e) future \<Rightarrow> 's \<Rightarrow> (('e + 'a) \<times> 's) option" where
  "block_on poll s =
     (case poll s of
        (Inr (Ready v), s') \<Rightarrow> Some (Inr v, s')
      | (Inr NotReady, s') \<Rightarrow> block_on poll s'
      | (Inl e, s') \<Rightarrow> Some (Inl e, s'))"

partial_function (option) block_on_w_yield ::
  "('s \<Rightarrow> 's) \<Rightarrow> ('s, 'a, 'e) future \<Rightarrow> 's \<Rightarrow> (('e + 'a) \<times> 's) option" where
  "block_on_w_yield yield_now poll s =
     (case poll s of
        (Inr (Ready v), s') \<Rightarrow> Some (Inr v, s')
      | (Inr NotReady, s') \<Rightarrow> block_on_w_yield yield_now poll (yield_now s')
      | (Inl e, s') \<Rightarrow> Some (Inl e, s'))"

section \<open>Delays and timeouts\<close>

record 't Delay =
  timer :: 't
  wait_usec :: int

definition delay_new :: "'t \<Rightarrow> int \<Rightarrow> 't Delay" where
  "delay_new fresh_timer wait = \<lparr>timer = fresh_timer, wait_usec = wait\<rparr>"

definition delay_reset :: "('t \<Rightarrow> 't) \<Rightarrow> 't Delay \<Rightarrow> 't Delay" where
  "delay_reset timer_reset d = d\<lparr>timer := timer_reset (timer d)\<rparr>"

definition delay_reset_timer :: "('t \<Rightarrow> 't) \<Rightarrow> 't Delay \<Rightarrow> int \<Rightarrow> 't Delay" where
  "delay_reset_timer timer_reset d wait = delay_reset timer_reset (d\<lparr>wait_usec := wait\<rparr>)"

definition get_cur_delay_usec :: "('t \<Rightarrow> int \<times> 't) \<Rightarrow> 't Delay \<Rightarrow> int \<times> 't Delay" where
  "get_cur_delay_usec passed d = (let (us, t') = passed (timer d) in (us, d\<lparr>timer := t'\<rparr>))"

definition delay_poll :: "('t \<Rightarrow> int \<times> 't) \<Rightarrow> ('t Delay, int, unit) future" where
  "delay_poll passed d =
     (let (us, d') = get_cur_delay_usec passed d
      in if us \<ge> wait_usec d then (Inr (Ready us), d') else (Inr NotReady, d'))"

datatype 'e timeout_error = Inner 'e | Elapsed

record ('s, 't) Timeout =
  t_value :: 's
  t_delay :: "'t Delay"

definition timeout_new :: "'s \<Rightarrow> 't \<Rightarrow> int \<Rightarrow> ('s, 't) Timeout" where
  "timeout_new v fresh_timer usec = \<lparr>t_value = v, t_delay = delay_new fresh_timer usec\<rparr>"

definition timeout_reset_timer :: "('t \<Rightarrow> 't) \<Rightarrow> ('s, 't) Timeout \<Rightarrow> int \<Rightarrow> ('s, 't) Timeout" where
  "timeout_reset_timer timer_reset t usec = t\<lparr>t_delay := delay_reset_timer timer_reset (t_delay t) usec\<rparr>"

text \<open>An error of the delay panics in the code; the delay never returns one, so the case is the outcome \<^term>\<open>None\<close>.\<close>

definition timeout_poll_raw ::
  "('s, 'a, 'e) future \<Rightarrow> ('t \<Rightarrow> int \<times> 't) \<Rightarrow> ('s, 't) Timeout \<Rightarrow>
    (('a, 'e timeout_error) Poll \<times> ('s, 't) Timeout) option" where
  "timeout_poll_raw poll passed t =
     (case poll (t_value t) of
        (Inr (Ready v), s') \<Rightarrow> Some (Inr (Ready v), t\<lparr>t_value := s'\<rparr>)
      | (Inl e, s') \<Rightarrow> Some (Inl (Inner e), t\<lparr>t_value := s'\<rparr>)
      | (Inr NotReady, s') \<Rightarrow>
          (case delay_poll passed (t_delay t) of
             (Inr NotReady, d') \<Rightarrow> Some (Inr NotReady, \<lparr>t_value = s', t_delay = d'\<rparr>)
           | (Inr (Ready _), d') \<Rightarrow> Some (Inl Elapsed, \<lparr>t_value = s', t_delay = d'\<rparr>)
           | (Inl _, d') \<Rightarrow> None))"

definition timeout_poll ::
  "('s, 'a, 'e) future \<Rightarrow> ('t \<Rightarrow> int \<times> 't) \<Rightarrow> (('s, 't) Timeout, 'a, 'e timeout_error) future" where
  "timeout_poll poll passed t = the (timeout_poll_raw poll passed t)"

section \<open>What a blocking loop returns\<close>

text \<open>The state after \<open>n\<close> polls, whatever their outcomes.\<close>

fun after_polls :: "('s, 'a, 'e) future \<Rightarrow> nat \<Rightarrow> 's \<Rightarrow> 's" where
  "after_polls poll 0 s = s"
| "after_polls poll (Suc n) s = after_polls poll n (snd (poll s))"

definition settles :: "('s, 'a, 'e) future \<Rightarrow> 's \<Rightarrow> nat \<Rightarrow> bool" where
  "settles poll s n \<longleftrightarrow> fst (poll (after_polls poll n s)) \<noteq> Inr NotReady"

definition outcome :: "('a, 'e) Poll \<Rightarrow> 'e + 'a" where
  "outcome p = (case p of Inl e \<Rightarrow> Inl e | Inr (Ready v) \<Rightarrow> Inr v | Inr NotReady \<Rightarrow> undefined)"

lemma block_on_not_ready: "poll s = (Inr NotReady, s') \<Longrightarrow> block_on poll s = block_on poll s'"
  by (subst block_on.simps) simp

lemma block_on_settled:
  "fst (poll s) \<noteq> Inr NotReady \<Longrightarrow> block_on poll s = Some (outcome (fst (poll s)), snd (poll s))"
  by (subst block_on.simps) (auto simp: outcome_def split: prod.splits sum.splits Async.splits)

lemma block_on_first:
  assumes "settles poll s n" "\<And>i. i < n \<Longrightarrow> \<not> settles poll s i"
  shows "block_on poll s =
    Some (outcome (fst (poll (after_polls poll n s))), after_polls poll (Suc n) s)"
  using assms
proof (induction n arbitrary: s)
  case 0
  then show ?case
    by (simp add: settles_def block_on_settled)
next
  case (Suc n)
  from Suc.prems(2) [of 0] obtain s' where s': "poll s = (Inr NotReady, s')"
    by (cases "poll s") (auto simp: settles_def)
  have "settles poll s' n" "\<And>i. i < n \<Longrightarrow> \<not> settles poll s' i"
    using Suc.prems(1) Suc.prems(2) [of "Suc _"] s' by (auto simp: settles_def)
  from Suc.IH [OF this] show ?case
    by (simp add: block_on_not_ready [where poll = poll, OF s'] s')
qed

lemma block_on_settles:
  fixes poll :: "('s, 'a, 'e) future"
  assumes "block_on poll s = Some r"
  shows "\<exists>n. settles poll s n"
proof (rule block_on.raw_induct [where P = "\<lambda>poll s r. \<exists>n. settles poll s n", OF _ assms])
  fix rec and poll :: "('s, 'a, 'e) future" and s r
  assume IH: "\<And>poll s r. rec poll s = Some r \<Longrightarrow> \<exists>n. settles (poll :: ('s, 'a, 'e) future) s n"
    and eq: "(case poll s of (Inl e, s') \<Rightarrow> Some (Inl e, s')
      | (Inr (Ready v), s') \<Rightarrow> Some (Inr v, s') | (Inr NotReady, s') \<Rightarrow> rec poll s') = Some r"
  show "\<exists>n. settles poll s n"
  proof (cases "fst (poll s) = Inr NotReady")
    case True
    then obtain s' where s': "poll s = (Inr NotReady, s')"
      by (cases "poll s") auto
    with eq have "rec poll s' = Some r"
      by simp
    from IH [OF this] obtain n where "settles poll s' n" ..
    then have "settles poll s (Suc n)"
      by (simp add: settles_def s')
    then show ?thesis ..
  next
    case False
    then have "settles poll s 0"
      by (simp add: settles_def)
    then show ?thesis ..
  qed
qed

lemma block_on_eq_None: "block_on poll s = None \<longleftrightarrow> (\<forall>n. \<not> settles poll s n)"
proof
  assume none: "block_on poll s = None"
  show "\<forall>n. \<not> settles poll s n"
  proof (rule ccontr)
    assume "\<not> (\<forall>n. \<not> settles poll s n)"
    then have "settles poll s (LEAST n. settles poll s n)"
      by (auto intro: LeastI)
    from block_on_first [OF this] not_less_Least none show False
      by fastforce
  qed
next
  assume "\<forall>n. \<not> settles poll s n"
  then show "block_on poll s = None"
    using block_on_settles [of poll s] by (cases "block_on poll s") auto
qed

text \<open>Yielding is part of the poll: both loops are one.\<close>

definition yielding :: "('s \<Rightarrow> 's) \<Rightarrow> ('s, 'a, 'e) future \<Rightarrow> ('s, 'a, 'e) future" where
  "yielding yield_now poll s =
     (case poll s of (Inr NotReady, s') \<Rightarrow> (Inr NotReady, yield_now s') | r \<Rightarrow> r)"

lemma yield_to_block:
  assumes "block_on_w_yield y poll s = Some r"
  shows "block_on (yielding y poll) s = Some r"
  apply (rule block_on_w_yield.raw_induct
      [where P = "\<lambda>y poll s r. block_on (yielding y poll) s = Some r", OF _ assms])
  apply (subst block_on.simps)
  apply (auto simp: yielding_def split: prod.splits sum.splits Async.splits)
  done

lemma block_to_yield:
  assumes "block_on (yielding y poll) s = Some r"
  shows "block_on_w_yield y poll s = Some r"
  apply (rule block_on.raw_induct
      [where P = "\<lambda>f s r. f = yielding y poll \<longrightarrow> block_on_w_yield y poll s = Some r", OF _ assms,
        THEN mp, OF _ refl])
  apply (rule impI)
  apply (subst block_on_w_yield.simps)
  apply (auto simp: yielding_def split: prod.splits sum.splits Async.splits)
  done

lemma block_on_w_yield_eq: "block_on_w_yield y poll s = block_on (yielding y poll) s"
  using block_to_yield [of y poll s] yield_to_block [of y poll s]
  by (cases "block_on_w_yield y poll s"; cases "block_on (yielding y poll) s") auto

section \<open>Timeouts\<close>

text \<open>
  What the code relies on of the kernel timer: as it is read again and again, the microseconds
  passed reach every bound.
\<close>

fun timer_after :: "('t \<Rightarrow> int \<times> 't) \<Rightarrow> nat \<Rightarrow> 't \<Rightarrow> 't" where
  "timer_after passed 0 t = t"
| "timer_after passed (Suc n) t = timer_after passed n (snd (passed t))"

definition time_passes :: "('t \<Rightarrow> int \<times> 't) \<Rightarrow> bool" where
  "time_passes passed \<longleftrightarrow> (\<forall>t w. \<exists>n. w \<le> fst (passed (timer_after passed n t)))"

lemma timeout_poll_cases:
  "timeout_poll poll passed t =
     (case poll (t_value t) of
        (Inr (Ready v), s') \<Rightarrow> (Inr (Ready v), t\<lparr>t_value := s'\<rparr>)
      | (Inl e, s') \<Rightarrow> (Inl (Inner e), t\<lparr>t_value := s'\<rparr>)
      | (Inr NotReady, s') \<Rightarrow>
          (let (us, c) = passed (timer (t_delay t));
               t' = \<lparr>t_value = s', t_delay = (t_delay t)\<lparr>timer := c\<rparr>\<rparr>
           in if us \<ge> wait_usec (t_delay t) then (Inl Elapsed, t') else (Inr NotReady, t')))"
  by (auto simp: timeout_poll_def timeout_poll_raw_def delay_poll_def get_cur_delay_usec_def
      split: prod.splits sum.splits Async.splits)

lemma timeout_poll_raw_no_panic: "timeout_poll_raw poll passed t \<noteq> None"
  by (auto simp: timeout_poll_raw_def delay_poll_def get_cur_delay_usec_def
      split: prod.splits sum.splits Async.splits)

text \<open>While nothing settles, value and timer advance side by side.\<close>

lemma timeout_unsettled:
  assumes "\<And>i. i < n \<Longrightarrow> \<not> settles (timeout_poll poll passed) t i"
  shows "after_polls (timeout_poll poll passed) n t =
     \<lparr>t_value = after_polls poll n (t_value t),
      t_delay = (t_delay t)\<lparr>timer := timer_after passed n (timer (t_delay t))\<rparr>\<rparr>
   \<and> (\<forall>i<n. \<not> settles poll (t_value t) i
        \<and> fst (passed (timer_after passed i (timer (t_delay t)))) < wait_usec (t_delay t))"
  using assms
proof (induction n arbitrary: t)
  case 0
  then show ?case by simp
next
  case (Suc n)
  let ?p = "timeout_poll poll passed"
  obtain t' where t': "?p t = (Inr NotReady, t')"
    using Suc.prems [of 0] by (cases "?p t") (auto simp: settles_def)
  have "\<not> settles ?p t' i" if "i < n" for i
    using Suc.prems [of "Suc i"] that t' by (simp add: settles_def)
  note IH = Suc.IH [OF this]
  from t' obtain us c where
    v: "poll (t_value t) = (Inr NotReady, t_value t')"
    and c: "passed (timer (t_delay t)) = (us, c)" "us < wait_usec (t_delay t)"
    and d: "t_delay t' = (t_delay t)\<lparr>timer := c\<rparr>"
    by (auto simp: timeout_poll_cases Let_def split: prod.splits sum.splits Async.splits if_splits)
  show ?case
    using IH v c d
    by (auto simp: t' settles_def less_Suc_eq_0_disj)
qed

lemma timeout_settles:
  assumes "time_passes passed"
  shows "\<exists>n. settles (timeout_poll poll passed) t n"
proof (rule ccontr)
  assume never: "\<nexists>n. settles (timeout_poll poll passed) t n"
  obtain n where "wait_usec (t_delay t) \<le> fst (passed (timer_after passed n (timer (t_delay t))))"
    using assms by (auto simp: time_passes_def)
  moreover have "fst (passed (timer_after passed n (timer (t_delay t)))) < wait_usec (t_delay t)"
    using timeout_unsettled [of "Suc n" poll passed t] never by blast
  ultimately show False
    by simp
qed

text \<open>Both kinds of polls as long as the value is not ready and the bound is not reached.\<close>

lemma timeout_waits:
  assumes "\<And>i. i < n \<Longrightarrow> \<not> settles poll (t_value t) i"
    and "\<And>i. i < n \<Longrightarrow> fst (passed (timer_after passed i (timer (t_delay t)))) < wait_usec (t_delay t)"
  shows "\<forall>i<n. \<not> settles (timeout_poll poll passed) t i"
  using assms
proof (induction n arbitrary: t)
  case (Suc n)
  let ?p = "timeout_poll poll passed"
  obtain s' where s': "poll (t_value t) = (Inr NotReady, s')"
    using Suc.prems(1) [of 0] by (cases "poll (t_value t)") (auto simp: settles_def)
  obtain us c where c: "passed (timer (t_delay t)) = (us, c)" "us < wait_usec (t_delay t)"
    using Suc.prems(2) [of 0] by (cases "passed (timer (t_delay t))") auto
  define t' where "t' = \<lparr>t_value = s', t_delay = (t_delay t)\<lparr>timer := c\<rparr>\<rparr>"
  have step: "?p t = (Inr NotReady, t')"
    using s' c by (simp add: timeout_poll_cases t'_def)
  have "\<forall>i<n. \<not> settles ?p t' i"
    using Suc.prems [of "Suc _"] s' c by (intro Suc.IH) (auto simp: t'_def settles_def)
  then show ?case
    using step by (auto simp: settles_def less_Suc_eq_0_disj)
qed simp

section \<open>Properties\<close>

text \<open>C22: Blocking on a future under a timeout always returns, whatever the future does (it may never
  become ready), provided the kernel timer advances.\<close>

theorem block_on_timeout_returns:
  assumes "time_passes passed"
  shows "\<exists>r t'. block_on (timeout_poll poll passed) t = Some (r, t')"
  using timeout_settles [OF assms, of poll t]
  by (cases "block_on (timeout_poll poll passed) t") (auto simp: block_on_eq_None)

theorem block_on_timeout_returns_witness:
  "\<exists>r t'. block_on (timeout_poll (\<lambda>s :: unit. (Inr NotReady :: (unit, unit) Poll, s)) (\<lambda>c :: int. (c, c + 7)))
     (timeout_new () 0 1000) = Some (r, t')"
proof (rule block_on_timeout_returns)
  have "timer_after (\<lambda>c :: int. (c, c + 7)) n c = c + 7 * int n" for n c
    by (induction n arbitrary: c) auto
  moreover have "\<exists>n. w \<le> c + 7 * int n" for w c :: int
    by (rule exI [of _ "nat (w - c)"]) auto
  ultimately show "time_passes (\<lambda>c :: int. (c, c + 7))"
    by (simp add: time_passes_def)
qed

text \<open>A timeout is transparent or elapses. If the inner future first settles at its n-th poll and
  the timer is below the bound until then, blocking gives the inner outcome; if the timer
  reaches the bound at the n-th reading while the future is not ready, blocking gives the
  error \<open>Elapsed\<close>.\<close>

theorem timeout_result:
  assumes "\<forall>i<n. \<not> settles poll (t_value t) i"
    and "\<forall>i<n. fst (passed (timer_after passed i (timer (t_delay t)))) < wait_usec (t_delay t)"
  shows "(settles poll (t_value t) n \<longrightarrow>
      map_option fst (block_on (timeout_poll poll passed) t) =
      map_option (\<lambda>(r, s). case r of Inl e \<Rightarrow> Inl (Inner e) | Inr v \<Rightarrow> Inr v) (block_on poll (t_value t)))
    \<and> (\<not> settles poll (t_value t) n \<and>
        wait_usec (t_delay t) \<le> fst (passed (timer_after passed n (timer (t_delay t)))) \<longrightarrow>
      map_option fst (block_on (timeout_poll poll passed) t) = Some (Inl Elapsed))"
proof -
  let ?p = "timeout_poll poll passed"
  have waits: "\<not> settles ?p t i" if "i < n" for i
    using timeout_waits [of n poll t passed] assms that by blast
  define tn where "tn = after_polls ?p n t"
  have tn: "t_value tn = after_polls poll n (t_value t)" "wait_usec (t_delay tn) = wait_usec (t_delay t)"
    "timer (t_delay tn) = timer_after passed n (timer (t_delay t))"
    using timeout_unsettled [of n poll passed t] waits by (simp_all add: tn_def)
  have blocks: "fst (?p tn) \<noteq> Inr NotReady \<Longrightarrow> map_option fst (block_on ?p t) = Some (outcome (fst (?p tn)))"
    using block_on_first [of ?p t n] waits by (simp add: settles_def tn_def)
  have inner: "settles poll (t_value t) n \<Longrightarrow>
      block_on poll (t_value t) = Some (outcome (fst (poll (t_value tn))), after_polls poll (Suc n) (t_value t))"
    using block_on_first [of poll "t_value t" n] assms(1) by (simp add: tn)
  obtain q s' where q: "poll (t_value tn) = (q, s')"
    by fastforce
  obtain us c where us: "passed (timer (t_delay tn)) = (us, c)"
    by fastforce
  consider (err) e where "q = Inl e" | (ready) v where "q = Inr (Ready v)" | (wait) "q = Inr NotReady"
    by (metis Async.exhaust sum.exhaust_sel)
  then show ?thesis
  proof cases
    case wait
    then show ?thesis
      using blocks q us tn
      by (cases "wait_usec (t_delay t) \<le> us") (simp_all add: settles_def timeout_poll_cases outcome_def)
  qed (use blocks inner q tn in \<open>simp_all add: settles_def timeout_poll_cases outcome_def\<close>)
qed

theorem timeout_result_witness:
  "map_option fst (block_on (timeout_poll (\<lambda>s :: nat. (if s = 0 then Inr (Ready True) else Inr NotReady :: (bool, unit) Poll, s - 1))
      (\<lambda>c :: int. (c, c + 7))) (timeout_new 1 0 5)) = Some (Inr True)
   \<and> map_option fst (block_on (timeout_poll (\<lambda>s :: nat. (if s = 0 then Inr (Ready True) else Inr NotReady :: (bool, unit) Poll, s - 1))
      (\<lambda>c :: int. (c, c + 7))) (timeout_new 9 0 5)) = Some (Inl Elapsed)"
proof -
  let ?f = "\<lambda>s :: nat. (if s = 0 then Inr (Ready True) else Inr NotReady :: (bool, unit) Poll, s - 1)"
  have "block_on ?f 1 = Some (Inr True, 0)"
    by (subst block_on.simps, simp, subst block_on.simps, simp)
  then show ?thesis
    using timeout_result [of 1 ?f "timeout_new 1 0 5" "\<lambda>c :: int. (c, c + 7)"]
      timeout_result [of 1 ?f "timeout_new 9 0 5" "\<lambda>c :: int. (c, c + 7)"]
    by (simp add: settles_def timeout_new_def delay_new_def)
qed

end
