(* ===== verification/Phys_Addr.thy ===== *)
theory Phys_Addr
  imports Mitosis_Prelude
begin

text \<open>
  The value types of mitosis/src/remote_mapping/page_structures.rs: table levels, table indices and
  page offsets, and the physical addresses whose three low bits carry the flags \<open>Prefetch\<close>,
  \<open>Cache\<close> and \<open>ReadOnly\<close>. The alignment functions of the crate x86_64 are arguments.
\<close>

unbundle bit_operations_syntax

section \<open>Levels\<close>

datatype PageTableLevel = One | Two | Three | Four

fun level_num :: "PageTableLevel \<Rightarrow> nat" where
  "level_num One = 1"
| "level_num Two = 2"
| "level_num Three = 3"
| "level_num Four = 4"

instantiation PageTableLevel :: linorder
begin

definition less_eq_PageTableLevel :: "PageTableLevel \<Rightarrow> PageTableLevel \<Rightarrow> bool" where
  "less_eq_PageTableLevel a b \<longleftrightarrow> level_num a \<le> level_num b"

definition less_PageTableLevel :: "PageTableLevel \<Rightarrow> PageTableLevel \<Rightarrow> bool" where
  "less_PageTableLevel a b \<longleftrightarrow> level_num a < level_num b"

lemma level_num_inject: "level_num a = level_num b \<longleftrightarrow> a = b"
  by (cases a; cases b) simp_all

instance
  by standard (auto simp: less_eq_PageTableLevel_def less_PageTableLevel_def level_num_inject [symmetric])

end

fun next_lower_level :: "PageTableLevel \<Rightarrow> PageTableLevel option" where
  "next_lower_level Four = Some Three"
| "next_lower_level Three = Some Two"
| "next_lower_level Two = Some One"
| "next_lower_level One = None"

definition table_address_space_alignment :: "PageTableLevel \<Rightarrow> u64" where
  "table_address_space_alignment l = push_bit (level_num l * 9 + 12) 1"

definition entry_address_space_alignment :: "PageTableLevel \<Rightarrow> u64" where
  "entry_address_space_alignment l = push_bit ((level_num l - 1) * 9 + 12) 1"

section \<open>Indices and offsets\<close>

abbreviation ENTRY_COUNT :: nat where "ENTRY_COUNT \<equiv> 512"

definition table_index_new :: "u16 \<Rightarrow> u16 option" where
  "table_index_new index = (if unat index < ENTRY_COUNT then Some index else None)"

definition table_index_new_truncate :: "u16 \<Rightarrow> u16" where
  "table_index_new_truncate index = index mod 512"

definition page_offset_new :: "u16 \<Rightarrow> u16 option" where
  "page_offset_new offset = (if offset < push_bit 12 1 then Some offset else None)"

definition page_offset_new_truncate :: "u16 \<Rightarrow> u16" where
  "page_offset_new_truncate offset = offset mod push_bit 12 1"

section \<open>Physical addresses with flags\<close>

type_synonym PhysAddr = u64

datatype PhysAddrBitFlag = Empty | Prefetch | Cache | ReadOnly

fun flag_bits :: "PhysAddrBitFlag \<Rightarrow> u64" where
  "flag_bits Empty = 0"
| "flag_bits Prefetch = 1"
| "flag_bits Cache = 2"
| "flag_bits ReadOnly = 4"

definition flag_mask :: u64 where
  "flag_mask = flag_bits Prefetch OR flag_bits Cache OR flag_bits ReadOnly"

definition K_MAGIC_IN_PREFETCH :: u64 where
  "K_MAGIC_IN_PREFETCH = 1"

definition decode :: "u64 \<Rightarrow> u64" where
  "decode addr = addr AND NOT flag_mask"

definition encode :: "u64 \<Rightarrow> u64 \<Rightarrow> u64" where
  "encode page_addr flag = page_addr OR (flag AND flag_mask)"

definition is_prefetch :: "PhysAddr \<Rightarrow> bool" where
  "is_prefetch a \<longleftrightarrow> a AND flag_bits Prefetch = flag_bits Prefetch"

definition is_cache :: "PhysAddr \<Rightarrow> bool" where
  "is_cache a \<longleftrightarrow> a AND flag_bits Cache = flag_bits Cache"

definition is_ro :: "PhysAddr \<Rightarrow> bool" where
  "is_ro a \<longleftrightarrow> a AND flag_bits ReadOnly = flag_bits ReadOnly"

definition bottom_bit :: "PhysAddr \<Rightarrow> bool" where
  "bottom_bit a = is_prefetch a"

definition set_bottom_bit_as_one :: "PhysAddr \<Rightarrow> PhysAddr" where
  "set_bottom_bit_as_one a = a OR 1"

definition real_addr :: "PhysAddr \<Rightarrow> u64" where
  "real_addr a = decode a"

definition convert_to_page :: "PhysAddr \<Rightarrow> u64" where
  "convert_to_page a = real_addr a"

definition phys_align_down :: "(u64 \<Rightarrow> u64 \<Rightarrow> u64) \<Rightarrow> PhysAddr \<Rightarrow> u64 \<Rightarrow> PhysAddr" where
  "phys_align_down align_down a align = align_down a align"

definition phys_align_up :: "(u64 \<Rightarrow> u64 \<Rightarrow> u64) \<Rightarrow> PhysAddr \<Rightarrow> u64 \<Rightarrow> PhysAddr" where
  "phys_align_up align_up a align = align_up a align"

definition phys_is_aligned :: "(u64 \<Rightarrow> u64 \<Rightarrow> u64) \<Rightarrow> PhysAddr \<Rightarrow> u64 \<Rightarrow> bool" where
  "phys_is_aligned align_down a align \<longleftrightarrow> phys_align_down align_down a align = a"

section \<open>Facts\<close>

lemma flag_mask_eq: "flag_mask = 7"
  by (simp add: flag_mask_def)

lemma bit_flag_mask: "bit flag_mask n \<longleftrightarrow> n < 3"
proof -
  have "flag_mask = mask 3"
    by (simp add: flag_mask_eq mask_eq_exp_minus_1)
  then have "bit flag_mask n \<longleftrightarrow> bit (mask 3 :: u64) n"
    by (rule arg_cong)
  then show ?thesis
    by (auto simp only: bit_mask_iff possible_bit_word) simp
qed

lemma bit_decode: "bit (decode a) n \<longleftrightarrow> bit a n \<and> 3 \<le> n"
  by (auto simp: decode_def bit_and_iff bit_not_iff bit_flag_mask dest: bit_imp_le_length)

lemma bit_encode: "bit (encode a f) n \<longleftrightarrow> bit a n \<or> n < 3 \<and> bit f n"
  by (auto simp: encode_def bit_and_iff bit_or_iff bit_flag_mask)

lemma and_power_bit: "a AND 2 ^ n = (2 ^ n :: u64) \<longleftrightarrow> bit a n" if "n < 64"
proof
  assume "a AND 2 ^ n = 2 ^ n"
  then have "bit (a AND 2 ^ n) n"
    using that by (simp add: bit_exp_iff possible_bit_word)
  then show "bit a n"
    by (simp add: bit_and_iff)
next
  assume "bit a n"
  then show "a AND 2 ^ n = 2 ^ n"
    by (intro bit_word_eqI) (auto simp: bit_and_iff bit_exp_iff)
qed

lemma is_prefetch_bit: "is_prefetch a \<longleftrightarrow> bit a 0"
  using and_power_bit [of 0 a] by (simp add: is_prefetch_def)

lemma is_cache_bit: "is_cache a \<longleftrightarrow> bit a 1"
  using and_power_bit [of 1 a] by (simp add: is_cache_def)

lemma is_ro_bit: "is_ro a \<longleftrightarrow> bit a 2"
  using and_power_bit [of 2 a] by (simp add: is_ro_def)

lemmas flag_bit_simps = is_prefetch_bit is_cache_bit is_ro_bit bit_decode bit_encode

lemma decode_low_bits: "decode a = a \<longleftrightarrow> (\<forall>n<3. \<not> bit a n)"
proof
  assume "decode a = a"
  then show "\<forall>n<3. \<not> bit a n"
    by (metis bit_decode leD)
next
  assume "\<forall>n<3. \<not> bit a n"
  then show "decode a = a"
    by (intro bit_word_eqI) (auto simp: bit_decode not_less [symmetric])
qed

lemma decode_idem [simp]: "decode (decode a) = decode a"
  by (auto simp: bit_eq_iff bit_decode)

lemma decode_encode [simp]: "decode (encode a f) = decode a"
  by (auto simp: bit_eq_iff bit_decode bit_encode)

lemma encode_decode: "encode (decode a) a = a"
  by (auto simp: bit_eq_iff bit_decode bit_encode)

lemma encode_not_magic:
  assumes "decode a = a" "a \<noteq> 0"
  shows "encode a f \<noteq> K_MAGIC_IN_PREFETCH"
proof
  assume "encode a f = K_MAGIC_IN_PREFETCH"
  then have "decode (encode a f) = decode 1"
    by (simp add: K_MAGIC_IN_PREFETCH_def)
  then have "a = decode 1"
    using assms by simp
  then show False
    using assms by (simp add: decode_def flag_mask_eq)
qed

section \<open>Properties\<close>

text \<open>C35: Flags and address share a word without loss: for an 8-byte aligned address, decoding an
  encoded entry gives the address back, the three flag tests read exactly the flags that
  were put in, and the entry never equals 0 or the in-flight marker when the address is not 0.\<close>

theorem encode_round_trip:
  assumes "decode a = a"
  shows "decode (encode a f) = a
    \<and> (is_prefetch (encode a f) \<longleftrightarrow> is_prefetch f)
    \<and> (is_cache (encode a f) \<longleftrightarrow> is_cache f)
    \<and> (is_ro (encode a f) \<longleftrightarrow> is_ro f)
    \<and> (a \<noteq> 0 \<longrightarrow> encode a f \<noteq> 0 \<and> encode a f \<noteq> K_MAGIC_IN_PREFETCH)"
proof -
  have "encode a f \<noteq> 0" if "a \<noteq> 0"
    using assms that decode_encode [of a f] by (auto simp: decode_def)
  then show ?thesis
    using assms encode_not_magic [OF assms]
    by (auto simp: flag_bit_simps decode_low_bits)
qed

theorem encode_round_trip_witness:
  "decode (encode 0x1000 (flag_bits Cache OR flag_bits ReadOnly)) = 0x1000
   \<and> is_ro (encode 0x1000 (flag_bits Cache OR flag_bits ReadOnly))"
proof -
  have "decode 0x1000 = 0x1000"
    by (simp add: decode_def flag_mask_eq)
  from encode_round_trip [OF this, of "flag_bits Cache OR flag_bits ReadOnly"] show ?thesis
    by (simp add: is_ro_def)
qed

end
