(* ===== verification/Page_Table.thy ===== *)
theory Page_Table
  imports Phys_Addr
begin

text \<open>
  The four-level remote page table of mitosis/src/remote_mapping/page_table.rs with the table
  nodes of page_structures.rs. Nodes live in a heap and refer to each other by address, as in the
  code: an entry of an upper node is the address of the next node, and every node points back
  to its upper node. The allocator hands out the addresses of the list \<open>avail\<close> one after the
  other; when it is exhausted the code aborts. An abort, a panic and the dereference of an
  address that holds no node are the outer \<^term>\<open>None\<close>. The index computation of the crate x86_64
  (the four table indices of the page that contains an address) is the argument \<open>X\<close>.
\<close>

section \<open>Nodes and the heap\<close>

record PageTable =
  entries :: "nat \<Rightarrow> u64"
  level :: PageTableLevel
  upper_level :: u64
  upper_level_index :: nat

record Heap =
  nodes :: "u64 \<Rightarrow> PageTable option"
  avail :: "u64 list"

type_synonym page_indices = "u64 \<Rightarrow> nat \<times> nat \<times> nat \<times> nat"

definition table_new :: "PageTableLevel \<Rightarrow> u64 \<Rightarrow> nat \<Rightarrow> PageTable" where
  "table_new l upper idx = \<lparr>entries = (\<lambda>_. 0), level = l, upper_level = upper, upper_level_index = idx\<rparr>"

definition table_default :: PageTable where
  "table_default = table_new Four 0 0"

definition table_index :: "PageTable \<Rightarrow> nat \<Rightarrow> u64 option" where
  "table_index pt i = (if i < ENTRY_COUNT then Some (entries pt i) else None)"

definition table_index_mut :: "Heap \<Rightarrow> u64 \<Rightarrow> nat \<Rightarrow> u64 \<Rightarrow> Heap option" where
  "table_index_mut h p i v =
     (case nodes h p of
        None \<Rightarrow> None
      | Some n \<Rightarrow>
          if i < ENTRY_COUNT
          then Some (h\<lparr>nodes := (nodes h)(p \<mapsto> n\<lparr>entries := (entries n)(i := v)\<rparr>)\<rparr>)
          else None)"

definition box_new :: "Heap \<Rightarrow> PageTable \<Rightarrow> (u64 \<times> Heap) option" where
  "box_new h n =
     (case avail h of
        [] \<Rightarrow> None
      | p # ps \<Rightarrow> Some (p, h\<lparr>nodes := (nodes h)(p \<mapsto> n), avail := ps\<rparr>))"

definition new_from_upper :: "Heap \<Rightarrow> u64 \<Rightarrow> nat \<Rightarrow> (u64 \<times> Heap) option" where
  "new_from_upper h src idx =
     do { pt \<leftarrow> nodes h src;
          l \<leftarrow> next_lower_level (level pt);
          box_new h (table_new l src idx) }"

function find_valid_entry :: "PageTable \<Rightarrow> nat \<Rightarrow> nat option" where
  "find_valid_entry pt i =
     (if i < ENTRY_COUNT
      then (if entries pt i \<noteq> 0 then Some i else find_valid_entry pt (i + 1))
      else None)"
  by pat_completeness auto
termination by (relation "measure (\<lambda>(pt, i). ENTRY_COUNT - i)") auto

declare find_valid_entry.simps [simp del]

section \<open>The table\<close>

record RemotePageTable =
  l4_page_table :: u64
  cnt :: nat

definition rpt_new :: "Heap \<Rightarrow> (RemotePageTable \<times> Heap) option" where
  "rpt_new h =
     do { (p, h') \<leftarrow> box_new h table_default;
          Some (\<lparr>l4_page_table = p, cnt = 0\<rparr>, h') }"

definition rpt_len :: "RemotePageTable \<Rightarrow> nat" where
  "rpt_len t = cnt t"

definition rpt_is_empty :: "Heap \<Rightarrow> RemotePageTable \<Rightarrow> bool option" where
  "rpt_is_empty h t =
     do { n \<leftarrow> nodes h (l4_page_table t);
          Some (list_all (\<lambda>i. entries n i = 0) [0..<ENTRY_COUNT]) }"

definition create_table :: "Heap \<Rightarrow> nat \<Rightarrow> u64 \<Rightarrow> (u64 \<times> Heap) option" where
  "create_table h index src =
     do { pt \<leftarrow> nodes h src;
          next_level \<leftarrow> table_index pt index;
          if next_level = 0
          then do { (p, h') \<leftarrow> new_from_upper h src index;
                    h'' \<leftarrow> table_index_mut h' src index p;
                    Some (p, h'') }
          else Some (next_level, h) }"

definition lookup_table :: "Heap \<Rightarrow> nat \<Rightarrow> u64 \<Rightarrow> u64 option option" where
  "lookup_table h index src =
     do { pt \<leftarrow> nodes h src;
          res \<leftarrow> table_index pt index;
          Some (if res = 0 then None else Some res) }"

definition find_l1_page_idx :: "page_indices \<Rightarrow> Heap \<Rightarrow> RemotePageTable \<Rightarrow> u64 \<Rightarrow> (u64 \<times> nat) option option" where
  "find_l1_page_idx X h t addr =
     (case X addr of (i4, i3, i2, i1) \<Rightarrow>
       do { r3 \<leftarrow> lookup_table h i4 (l4_page_table t);
            (case r3 of None \<Rightarrow> Some None
             | Some l3_pt \<Rightarrow> do {
                 r2 \<leftarrow> lookup_table h i3 l3_pt;
                 (case r2 of None \<Rightarrow> Some None
                  | Some l2_pt \<Rightarrow> do {
                      r1 \<leftarrow> lookup_table h i2 l2_pt;
                      (case r1 of None \<Rightarrow> Some None
                       | Some l1_pt \<Rightarrow> Some (Some (l1_pt, i1))) }) }) })"

definition translate :: "page_indices \<Rightarrow> Heap \<Rightarrow> RemotePageTable \<Rightarrow> u64 \<Rightarrow> PhysAddr option option" where
  "translate X h t addr =
     do { r \<leftarrow> find_l1_page_idx X h t addr;
          (case r of
             None \<Rightarrow> Some None
           | Some (p, index) \<Rightarrow>
               do { pt \<leftarrow> nodes h p;
                    v \<leftarrow> table_index pt index;
                    Some (if v \<noteq> 0 then Some v else None) }) }"

definition map_to_the_l1 :: "Heap \<Rightarrow> RemotePageTable \<Rightarrow> nat \<times> nat \<times> nat \<times> nat \<Rightarrow> (u64 \<times> Heap) option" where
  "map_to_the_l1 h t entry =
     (case entry of (i4, i3, i2, i1) \<Rightarrow>
       do { (l3_pt, h) \<leftarrow> create_table h i4 (l4_page_table t);
            (l2_pt, h) \<leftarrow> create_table h i3 l3_pt;
            create_table h i2 l2_pt })"

definition rpt_map ::
  "page_indices \<Rightarrow> Heap \<Rightarrow> RemotePageTable \<Rightarrow> u64 \<Rightarrow> PhysAddr \<Rightarrow> (PhysAddr option \<times> RemotePageTable \<times> Heap) option" where
  "rpt_map X h t addr phy =
     (case X addr of (i4, i3, i2, i1) \<Rightarrow>
       do { (l1_pt, h) \<leftarrow> map_to_the_l1 h t (i4, i3, i2, i1);
            pt \<leftarrow> nodes h l1_pt;
            res \<leftarrow> table_index pt i1;
            if res = 0
            then do { h \<leftarrow> table_index_mut h l1_pt i1 phy;
                      Some (None, t\<lparr>cnt := cnt t + 1\<rparr>, h) }
            else Some (Some res, t, h) })"

definition force_map ::
  "page_indices \<Rightarrow> Heap \<Rightarrow> RemotePageTable \<Rightarrow> u64 \<Rightarrow> PhysAddr \<Rightarrow> (RemotePageTable \<times> Heap) option" where
  "force_map X h t addr phy =
     (case X addr of (i4, i3, i2, i1) \<Rightarrow>
       do { (l1_pt, h) \<leftarrow> map_to_the_l1 h t (i4, i3, i2, i1);
            pt \<leftarrow> nodes h l1_pt;
            res \<leftarrow> table_index pt i1;
            h \<leftarrow> table_index_mut h l1_pt i1 phy;
            Some (if res = 0 then t\<lparr>cnt := cnt t + 1\<rparr> else t, h) })"

section \<open>The iterator\<close>

record RemotePageTableIter =
  cur_page :: u64
  cur_idx :: int

record PageEntry =
  pe_page :: u64
  pe_index :: nat
  pe_addr :: PhysAddr

definition need_prefetch :: "PageEntry \<Rightarrow> bool" where
  "need_prefetch e \<longleftrightarrow> bottom_bit (pe_addr e) = False"

definition page_entry_default :: PageEntry where
  "page_entry_default = \<lparr>pe_page = 0, pe_index = 0, pe_addr = 0\<rparr>"

partial_function (option) find_the_first_level_one_page :: "Heap \<Rightarrow> u64 \<Rightarrow> u64 option option" where
  "find_the_first_level_one_page h src =
     (case nodes h src of
        None \<Rightarrow> None
      | Some cur \<Rightarrow>
          if level cur \<noteq> One
          then (case find_valid_entry cur 0 of
                  None \<Rightarrow> Some None
                | Some idx \<Rightarrow> find_the_first_level_one_page h (entries cur idx))
          else Some (Some src))"

partial_function (option) find_the_next_neighbour :: "Heap \<Rightarrow> u64 \<Rightarrow> u64 option option" where
  "find_the_next_neighbour h src =
     do { s \<leftarrow> nodes h src;
          if upper_level s = 0 then Some None
          else do {
            upper \<leftarrow> nodes h (upper_level s);
            (case find_valid_entry upper (upper_level_index s + 1) of
               Some idx \<Rightarrow> Some (Some (entries upper idx))
             | None \<Rightarrow>
                 do { r \<leftarrow> find_the_next_neighbour h (upper_level s);
                      (case r of
                         None \<Rightarrow> Some None
                       | Some up \<Rightarrow>
                           do { upper \<leftarrow> nodes h up;
                                (case find_valid_entry upper 0 of
                                   None \<Rightarrow> Some None
                                 | Some idx \<Rightarrow> Some (Some (entries upper idx))) }) }) } }"

definition iter_new :: "Heap \<Rightarrow> RemotePageTable \<Rightarrow> RemotePageTableIter option option" where
  "iter_new h t =
     do { r \<leftarrow> find_the_first_level_one_page h (l4_page_table t);
          Some (map_option (\<lambda>p. \<lparr>cur_page = p, cur_idx = -1\<rparr>) r) }"

definition iter_new_from_l1 :: "u64 \<Rightarrow> nat \<Rightarrow> RemotePageTableIter" where
  "iter_new_from_l1 page index = \<lparr>cur_page = page, cur_idx = int index\<rparr>"

text \<open>
  One run of \<open>next\<close>; the recursion is the loop over the level-one tables. The cursor is never
  below \<open>-1\<close>, so the cast of the incremented cursor to \<open>usize\<close> is \<^const>\<open>nat\<close>.
\<close>

partial_function (option) iter_next ::
  "Heap \<Rightarrow> RemotePageTableIter \<Rightarrow> (PageEntry option \<times> RemotePageTableIter) option" where
  "iter_next h it =
     do { page \<leftarrow> nodes h (cur_page it);
          (case (if cur_idx it + 1 \<ge> int ENTRY_COUNT then None
                 else find_valid_entry page (nat (cur_idx it + 1))) of
             Some idx \<Rightarrow>
               Some (Some \<lparr>pe_page = cur_page it, pe_index = idx, pe_addr = entries page idx\<rparr>,
                     it\<lparr>cur_idx := int idx\<rparr>)
           | None \<Rightarrow>
               do { r \<leftarrow> find_the_next_neighbour h (cur_page it);
                    (case r of
                       None \<Rightarrow> Some (None, it\<lparr>cur_idx := -1\<rparr>)
                     | Some next_page \<Rightarrow> iter_next h \<lparr>cur_page = next_page, cur_idx = -1\<rparr>) }) }"

text \<open>A \<open>for\<close> loop over the iterator, collecting what it yields.\<close>

partial_function (option) iter_collect :: "Heap \<Rightarrow> RemotePageTableIter \<Rightarrow> PageEntry list option" where
  "iter_collect h it =
     do { (r, it') \<leftarrow> iter_next h it;
          (case r of
             None \<Rightarrow> Some []
           | Some e \<Rightarrow> do { es \<leftarrow> iter_collect h it'; Some (e # es) }) }"

section \<open>Copying and dropping\<close>

text \<open>
  Both recursions follow the pointers down the levels. Their fuel counts levels; a table of level
  \<open>n\<close> needs \<open>n\<close>, so 4 is enough for a whole table.
\<close>

fun copy_entries :: "(Heap \<Rightarrow> u64 \<Rightarrow> (u64 \<times> Heap) option) \<Rightarrow> PageTable \<Rightarrow> u64 \<Rightarrow> nat list \<Rightarrow> Heap \<Rightarrow> Heap option" where
  "copy_entries rec src entity [] h = Some h"
| "copy_entries rec src entity (idx # idxs) h =
     do { e \<leftarrow> nodes h entity;
          h \<leftarrow> (case level e of
                  One \<Rightarrow> table_index_mut h entity idx (entries src idx)
                | _ \<Rightarrow>
                    if entries src idx = 0 then table_index_mut h entity idx 0
                    else do { (copy_level, h) \<leftarrow> rec h (entries src idx);
                              c \<leftarrow> nodes h copy_level;
                              let h = h\<lparr>nodes := (nodes h)(copy_level \<mapsto>
                                        c\<lparr>upper_level := entity, upper_level_index := idx\<rparr>)\<rparr>;
                              table_index_mut h entity idx copy_level });
          copy_entries rec src entity idxs h }"

fun deep_copy :: "nat \<Rightarrow> Heap \<Rightarrow> u64 \<Rightarrow> (u64 \<times> Heap) option" where
  "deep_copy 0 h p = None"
| "deep_copy (Suc fuel) h p =
     do { src \<leftarrow> nodes h p;
          (entity, h) \<leftarrow> box_new h \<lparr>entries = (\<lambda>_. 0), level = level src, upper_level = upper_level src,
                                    upper_level_index = upper_level_index src\<rparr>;
          h \<leftarrow> copy_entries (deep_copy fuel) src entity [0..<ENTRY_COUNT] h;
          Some (entity, h) }"

definition rpt_copy :: "Heap \<Rightarrow> RemotePageTable \<Rightarrow> (RemotePageTable \<times> Heap) option" where
  "rpt_copy h t =
     do { (p, h) \<leftarrow> deep_copy 4 h (l4_page_table t);
          Some (\<lparr>l4_page_table = p, cnt = cnt t\<rparr>, h) }"

fun drop_pages :: "u64 list \<Rightarrow> u64 list option" where
  "drop_pages [] = Some []"
| "drop_pages (e # es) =
     (if e \<noteq> 0
      then do { require (e \<noteq> K_MAGIC_IN_PREFETCH);
                rest \<leftarrow> drop_pages es;
                Some (if is_prefetch e then decode e # rest else rest) }
      else drop_pages es)"

fun drop_children :: "(Heap \<Rightarrow> u64 \<Rightarrow> (u64 list \<times> Heap) option) \<Rightarrow> u64 list \<Rightarrow> Heap \<Rightarrow> (u64 list \<times> Heap) option" where
  "drop_children rec [] h = Some ([], h)"
| "drop_children rec (e # es) h =
     (if e \<noteq> 0
      then do { (f, h) \<leftarrow> rec h e;
                (fs, h) \<leftarrow> drop_children rec es h;
                Some (f @ fs, h) }
      else drop_children rec es h)"

text \<open>Dropping a boxed node: its \<open>drop\<close> first, then its memory is released. The first component lists the kernel pages handed to \<open>pmem_free_page\<close>.\<close>

fun drop_table :: "nat \<Rightarrow> Heap \<Rightarrow> u64 \<Rightarrow> (u64 list \<times> Heap) option" where
  "drop_table 0 h p = None"
| "drop_table (Suc fuel) h p =
     do { n \<leftarrow> nodes h p;
          (freed, h) \<leftarrow> (case next_lower_level (level n) of
                           Some _ \<Rightarrow> drop_children (drop_table fuel) (map (entries n) [0..<ENTRY_COUNT]) h
                         | None \<Rightarrow> map_option (\<lambda>f. (f, h)) (drop_pages (map (entries n) [0..<ENTRY_COUNT])));
          Some (freed, h\<lparr>nodes := (nodes h)(p := None)\<rparr>) }"

definition rpt_drop :: "Heap \<Rightarrow> RemotePageTable \<Rightarrow> (u64 list \<times> Heap) option" where
  "rpt_drop h t = drop_table 4 h (l4_page_table t)"

end
