(* ===== verification/Page_Table_Map.thy ===== *)
theory Page_Table_Map
  imports Page_Table
begin

text \<open>
  The page table as a map. \<open>walk\<close> follows a list of indices from a node; the word found under the
  four indices of a page is what the table maps the page to, 0 meaning unmapped. The invariant
  \<open>heap_ok\<close> ties every entry of an upper node to a node of the next level that points back to it,
  which makes the nodes of a table a tree and the tables of a heap disjoint. The lemmas show that
  \<open>translate\<close>, \<open>map\<close> and \<open>force_map\<close> are lookup and update of that map.
\<close>

section \<open>Abstraction and invariant\<close>

fun walk :: "(u64 \<Rightarrow> PageTable option) \<Rightarrow> u64 \<Rightarrow> nat list \<Rightarrow> u64" where
  "walk N p [] = p"
| "walk N p (i # is) =
     (case N p of
        None \<Rightarrow> 0
      | Some n \<Rightarrow> if entries n i = 0 then 0 else walk N (entries n i) is)"

definition indices_ok :: "nat list \<Rightarrow> bool" where
  "indices_ok is \<longleftrightarrow> (\<forall>i \<in> set is. i < ENTRY_COUNT)"

definition child_ok :: "(u64 \<Rightarrow> PageTable option) \<Rightarrow> u64 \<Rightarrow> PageTableLevel \<Rightarrow> nat \<Rightarrow> u64 \<Rightarrow> bool" where
  "child_ok N p l i q \<longleftrightarrow>
     (\<exists>c. N q = Some c \<and> level c = l \<and> upper_level c = p \<and> upper_level_index c = i)"

definition node_ok :: "(u64 \<Rightarrow> PageTable option) \<Rightarrow> u64 \<Rightarrow> PageTable \<Rightarrow> bool" where
  "node_ok N p n \<longleftrightarrow> p \<noteq> 0 \<and>
     (\<forall>l i. next_lower_level (level n) = Some l \<longrightarrow> i < ENTRY_COUNT \<longrightarrow> entries n i \<noteq> 0 \<longrightarrow>
        child_ok N p l i (entries n i))"

definition heap_ok :: "Heap \<Rightarrow> bool" where
  "heap_ok h \<longleftrightarrow> (\<forall>p n. nodes h p = Some n \<longrightarrow> node_ok (nodes h) p n)
     \<and> distinct (avail h) \<and> 0 \<notin> set (avail h) \<and> (\<forall>p \<in> set (avail h). nodes h p = None)"

definition root_ok :: "Heap \<Rightarrow> u64 \<Rightarrow> bool" where
  "root_ok h p \<longleftrightarrow> (\<exists>n. nodes h p = Some n \<and> level n = Four \<and> upper_level n = 0)"

definition table_ok :: "Heap \<Rightarrow> RemotePageTable \<Rightarrow> bool" where
  "table_ok h t \<longleftrightarrow> heap_ok h \<and> root_ok h (l4_page_table t)"

definition path_of :: "page_indices \<Rightarrow> u64 \<Rightarrow> nat list" where
  "path_of X a = (case X a of (i4, i3, i2, i1) \<Rightarrow> [i4, i3, i2, i1])"

definition indices_in_range :: "page_indices \<Rightarrow> bool" where
  "indices_in_range X \<longleftrightarrow> (\<forall>a. indices_ok (path_of X a))"

definition lookup :: "Heap \<Rightarrow> RemotePageTable \<Rightarrow> nat list \<Rightarrow> u64" where
  "lookup h t path = walk (nodes h) (l4_page_table t) path"

definition full_path :: "nat list \<Rightarrow> bool" where
  "full_path path \<longleftrightarrow> length path = 4 \<and> indices_ok path"

text \<open>The number of pages a table maps, of which \<open>cnt\<close> is meant to be the count.\<close>

definition live_paths :: "Heap \<Rightarrow> RemotePageTable \<Rightarrow> nat list set" where
  "live_paths h t = {path. full_path path \<and> lookup h t path \<noteq> 0}"

section \<open>Walks\<close>

lemma indices_ok_simps [simp]:
  "indices_ok []" "indices_ok (i # is) \<longleftrightarrow> i < ENTRY_COUNT \<and> indices_ok is"
  "indices_ok (xs @ ys) \<longleftrightarrow> indices_ok xs \<and> indices_ok ys"
  by (auto simp: indices_ok_def)

lemma path_of_full: "indices_in_range X \<Longrightarrow> full_path (path_of X a)"
  by (auto simp: indices_in_range_def full_path_def path_of_def split: prod.splits)

lemma walk_append: "walk N p (xs @ ys) = (if walk N p xs = 0 \<and> xs \<noteq> [] then 0 else walk N (walk N p xs) ys)"
  by (induction xs arbitrary: p) (auto split: option.splits)

lemma walk_snoc:
  "p \<noteq> 0 \<Longrightarrow> walk N p (xs @ [j]) =
     (if walk N p xs = 0 then 0 else case N (walk N p xs) of None \<Rightarrow> 0 | Some n \<Rightarrow> entries n j)"
  by (cases "xs = []") (auto simp: walk_append split: option.splits)

lemma node_okD:
  assumes "node_ok N p n" "next_lower_level (level n) = Some l" "i < ENTRY_COUNT" "entries n i \<noteq> 0"
  obtains c where "N (entries n i) = Some c" "level c = l" "upper_level c = p" "upper_level_index c = i"
  using assms by (auto simp: node_ok_def child_ok_def)

lemma heap_okD: "heap_ok h \<Longrightarrow> nodes h p = Some n \<Longrightarrow> node_ok (nodes h) p n"
  by (simp add: heap_ok_def)

lemma next_lower_level_num: "next_lower_level l = Some l' \<Longrightarrow> level_num l = Suc (level_num l')"
  by (cases l) auto

lemma next_lower_level_eq_None: "next_lower_level l = None \<longleftrightarrow> l = One"
  by (cases l) auto

lemma level_num_pos [simp]: "0 < level_num l" "level_num l \<noteq> 0"
  by (cases l; simp)+

lemma level_num_lower:
  assumes "1 < level_num l"
  obtains l' where "next_lower_level l = Some l'" "level_num l = Suc (level_num l')"
  using assms by (cases l) auto

text \<open>A walk shorter than the level of its start ends in a node of the right level, with a back pointer.\<close>

lemma walk_node:
  assumes "heap_ok h" "nodes h p = Some n" "length is < level_num (level n)" "indices_ok is"
    and "walk (nodes h) p is \<noteq> 0"
  shows "\<exists>m. nodes h (walk (nodes h) p is) = Some m \<and> level_num (level n) = level_num (level m) + length is"
  using assms(2-)
proof (induction "is" arbitrary: p n)
  case (Cons i "is")
  then have "1 < level_num (level n)"
    by simp
  then obtain l where l: "next_lower_level (level n) = Some l" "level_num (level n) = Suc (level_num l)"
    by (rule level_num_lower)
  moreover from Cons.prems have e: "i < ENTRY_COUNT" "entries n i \<noteq> 0"
    by auto
  ultimately obtain c where c: "nodes h (entries n i) = Some c" "level c = l"
    using node_okD [OF heap_okD [OF assms(1) Cons.prems(1)]] by metis
  show ?case
    using Cons.IH [of "entries n i" c] Cons.prems c l e by auto
qed simp

lemma walk_last:
  assumes "heap_ok h" "nodes h p = Some n" "length is + 1 < level_num (level n)" "indices_ok (is @ [i])"
    and "walk (nodes h) p (is @ [i]) \<noteq> 0"
  shows "\<exists>u c. walk (nodes h) p is \<noteq> 0 \<and> nodes h (walk (nodes h) p is) = Some u
     \<and> entries u i = walk (nodes h) p (is @ [i])
     \<and> nodes h (walk (nodes h) p (is @ [i])) = Some c
     \<and> upper_level c = walk (nodes h) p is \<and> upper_level_index c = i
     \<and> level_num (level n) = level_num (level c) + length is + 1"
proof -
  let ?q = "walk (nodes h) p is"
  have "p \<noteq> 0"
    using heap_okD [OF assms(1,2)] by (simp add: node_ok_def)
  with assms(5) have q: "?q \<noteq> 0"
    by (auto simp: walk_append split: if_splits)
  from walk_node [OF assms(1,2) _ _ q] assms(3,4) obtain u where
    u: "nodes h ?q = Some u" "level_num (level n) = level_num (level u) + length is"
    by auto
  with assms(3) have "1 < level_num (level u)"
    by simp
  then obtain l where l: "next_lower_level (level u) = Some l" "level_num (level u) = Suc (level_num l)"
    by (rule level_num_lower)
  have e: "entries u i = walk (nodes h) p (is @ [i])"
    using q u assms(5) by (auto simp: walk_append split: if_splits)
  then obtain c where "nodes h (entries u i) = Some c" "level c = l" "upper_level c = ?q" "upper_level_index c = i"
    using node_okD [OF heap_okD [OF assms(1) u(1)] l(1)] assms(4,5) by (metis indices_ok_simps(2,3))
  then show ?thesis
    using q u l e by auto
qed

text \<open>Two walks from roots that meet are the same walk: tables are trees and share no node.\<close>

lemma walk_inject:
  assumes "heap_ok h" "root_ok h p" "root_ok h q" "length xs < 4" "length ys = length xs"
    and "indices_ok xs" "indices_ok ys"
    and "walk (nodes h) p xs = walk (nodes h) q ys" "walk (nodes h) p xs \<noteq> 0"
  shows "p = q \<and> xs = ys"
  using assms(4-)
proof (induction xs arbitrary: ys rule: rev_induct)
  case (snoc x xs)
  then obtain y ys' where ys: "ys = ys' @ [y]"
    by (metis length_0_conv neq_Nil_conv rev_exhaust snoc_eq_iff_butlast)
  from assms(2,3) obtain n m where n: "nodes h p = Some n" "level n = Four"
    and m: "nodes h q = Some m" "level m = Four"
    by (auto simp: root_ok_def)
  from snoc.prems n walk_last [OF assms(1) n(1), of xs x] obtain c where
    c: "nodes h (walk (nodes h) p (xs @ [x])) = Some c" "upper_level c = walk (nodes h) p xs"
      "upper_level_index c = x" "walk (nodes h) p xs \<noteq> 0"
    by auto
  from snoc.prems m ys walk_last [OF assms(1) m(1), of ys' y] obtain d where
    d: "nodes h (walk (nodes h) q (ys' @ [y])) = Some d" "upper_level d = walk (nodes h) q ys'"
      "upper_level_index d = y" "walk (nodes h) q ys' \<noteq> 0"
    by auto
  have "c = d"
    using c(1) d(1) snoc.prems(5) unfolding ys by simp
  then have up: "walk (nodes h) p xs = walk (nodes h) q ys'" and xy: "x = y"
    using c d by auto
  have "p = q \<and> xs = ys'"
    by (rule snoc.IH [OF _ _ _ _ up c(4)]) (use snoc.prems in \<open>auto simp: ys\<close>)
  then show ?case
    by (simp add: ys xy)
qed simp

section \<open>Allocating a node\<close>

lemma walk_new_node:
  assumes "heap_ok h" "nodes h src = Some n" "idx < ENTRY_COUNT" "entries n idx = 0"
    and "next_lower_level (level n) = Some l" "nodes h c = None" "c \<noteq> 0"
    and "N' = (nodes h)(c \<mapsto> table_new l src idx, src \<mapsto> n\<lparr>entries := (entries n)(idx := c)\<rparr>)"
    and "nodes h p = Some m" "length is = level_num (level m)" "indices_ok is"
  shows "walk N' p is = walk (nodes h) p is"
  using assms(9-)
proof (induction "is" arbitrary: p m)
  case (Cons i "is")
  have pc: "p \<noteq> c" "src \<noteq> c"
    using Cons.prems(1) assms(2,6) by auto
  show ?case
  proof (cases "p = src \<and> i = idx")
    case True
    then have m: "m = n"
      using Cons.prems(1) assms(2) by simp
    then obtain j js where "is = j # js"
      using Cons.prems(2) next_lower_level_num [OF assms(5)] by (cases "is") auto
    then show ?thesis
      using True m assms(2,4,7,8) pc by (simp add: table_new_def)
  next
    case False
    have same: "entries (the (N' p)) i = entries m i" "N' p \<noteq> None"
      using False Cons.prems(1) assms(2,8) pc by auto
    show ?thesis
    proof (cases "entries m i = 0 \<or> is = []")
      case True
      then show ?thesis
        using same Cons.prems(1) by auto
    next
      case nz: False
      then have "1 < level_num (level m)"
        using Cons.prems(2) by (cases "is") auto
      then obtain l' where l': "next_lower_level (level m) = Some l'" "level_num (level m) = Suc (level_num l')"
        by (rule level_num_lower)
      obtain d where "nodes h (entries m i) = Some d" "level d = l'"
        using node_okD [OF heap_okD [OF assms(1) Cons.prems(1)] l'(1)] nz Cons.prems(3)
        by (metis indices_ok_simps(2))
      then have "walk N' (entries m i) is = walk (nodes h) (entries m i) is"
        using Cons.IH Cons.prems l' by simp
      then show ?thesis
        using same Cons.prems(1) nz by auto
    qed
  qed
qed (use assms in simp)

text \<open>
  \<open>grows h h'\<close>: the heap got new nodes and entries and lost nothing; in particular no table of the
  heap maps a page differently.
\<close>

definition grows :: "Heap \<Rightarrow> Heap \<Rightarrow> bool" where
  "grows h h' \<longleftrightarrow> (\<forall>p m. nodes h p = Some m \<longrightarrow>
     (\<exists>m'. nodes h' p = Some m' \<and> level m' = level m \<and> upper_level m' = upper_level m
        \<and> (\<forall>i. entries m i \<noteq> 0 \<longrightarrow> entries m' i = entries m i)
        \<and> (\<forall>is. length is = level_num (level m) \<longrightarrow> indices_ok is \<longrightarrow>
              walk (nodes h') p is = walk (nodes h) p is)))"

lemma growsD:
  assumes "grows h h'" "nodes h p = Some m"
  obtains m' where "nodes h' p = Some m'" "level m' = level m" "upper_level m' = upper_level m"
    "\<And>i. entries m i \<noteq> 0 \<Longrightarrow> entries m' i = entries m i"
    "\<And>is. length is = level_num (level m) \<Longrightarrow> indices_ok is \<Longrightarrow> walk (nodes h') p is = walk (nodes h) p is"
  using assms unfolding grows_def by blast

lemma grows_refl [simp]: "grows h h"
  by (simp add: grows_def)

lemma grows_trans:
  assumes "grows h1 h2" "grows h2 h3"
  shows "grows h1 h3"
  unfolding grows_def
proof (intro allI impI)
  fix p m
  assume "nodes h1 p = Some m"
  from assms(1) [unfolded grows_def, rule_format, OF this] obtain m2 where
    m2: "nodes h2 p = Some m2" "level m2 = level m" "upper_level m2 = upper_level m"
      "\<forall>i. entries m i \<noteq> 0 \<longrightarrow> entries m2 i = entries m i"
      "\<forall>is. length is = level_num (level m) \<longrightarrow> indices_ok is \<longrightarrow> walk (nodes h2) p is = walk (nodes h1) p is"
    by blast
  from assms(2) [unfolded grows_def, rule_format, OF m2(1)] obtain m3 where
    "nodes h3 p = Some m3" "level m3 = level m2" "upper_level m3 = upper_level m2"
      "\<forall>i. entries m2 i \<noteq> 0 \<longrightarrow> entries m3 i = entries m2 i"
      "\<forall>is. length is = level_num (level m2) \<longrightarrow> indices_ok is \<longrightarrow> walk (nodes h3) p is = walk (nodes h2) p is"
    by blast
  with m2 show "\<exists>m'. nodes h3 p = Some m' \<and> level m' = level m \<and> upper_level m' = upper_level m
        \<and> (\<forall>i. entries m i \<noteq> 0 \<longrightarrow> entries m' i = entries m i)
        \<and> (\<forall>is. length is = level_num (level m) \<longrightarrow> indices_ok is \<longrightarrow>
              walk (nodes h3) p is = walk (nodes h1) p is)"
    by (intro exI [of _ m3]) auto
qed

lemma grows_walk:
  assumes "grows h h'" "walk (nodes h) p is \<noteq> 0"
  shows "walk (nodes h') p is = walk (nodes h) p is"
  using assms(2)
proof (induction "is" arbitrary: p)
  case (Cons i "is")
  then obtain m where m: "nodes h p = Some m" "entries m i \<noteq> 0"
    by (auto split: option.splits if_splits)
  with assms(1) obtain m' where "nodes h' p = Some m'" "entries m' i = entries m i"
    by (metis growsD)
  with m Cons show ?case
    by auto
qed simp

lemma grows_root: "grows h h' \<Longrightarrow> root_ok h p \<Longrightarrow> root_ok h' p"
  unfolding root_ok_def by (metis growsD)

text \<open>Every upper node below a root has an entry, except possibly the node \<open>q\<close>.\<close>

definition nonempty_but :: "Heap \<Rightarrow> u64 \<Rightarrow> bool" where
  "nonempty_but h q \<longleftrightarrow> (\<forall>p n. nodes h p = Some n \<longrightarrow> p \<noteq> q \<longrightarrow> upper_level n \<noteq> 0 \<longrightarrow> level n \<noteq> One \<longrightarrow>
     (\<exists>i < ENTRY_COUNT. entries n i \<noteq> 0))"

definition uppers_nonempty :: "Heap \<Rightarrow> bool" where
  "uppers_nonempty h \<longleftrightarrow> (\<forall>p n. nodes h p = Some n \<longrightarrow> upper_level n \<noteq> 0 \<longrightarrow> level n \<noteq> One \<longrightarrow>
     (\<exists>i < ENTRY_COUNT. entries n i \<noteq> 0))"

definition new_node_heap :: "Heap \<Rightarrow> u64 \<Rightarrow> PageTable \<Rightarrow> nat \<Rightarrow> PageTableLevel \<Rightarrow> u64 \<Rightarrow> u64 list \<Rightarrow> Heap" where
  "new_node_heap h src n idx l c cs =
     h\<lparr>nodes := (nodes h)(c \<mapsto> table_new l src idx, src \<mapsto> n\<lparr>entries := (entries n)(idx := c)\<rparr>), avail := cs\<rparr>"

lemma create_table_new:
  assumes "nodes h src = Some n" "idx < ENTRY_COUNT" "entries n idx = 0"
    and "next_lower_level (level n) = Some l" "avail h = c # cs" "heap_ok h"
  shows "create_table h idx src = Some (c, new_node_heap h src n idx l c cs)"
proof -
  have "src \<noteq> c"
    using assms(1,5,6) by (auto simp: heap_ok_def)
  then show ?thesis
    using assms
    by (simp add: create_table_def table_index_def new_from_upper_def box_new_def table_index_mut_def
        new_node_heap_def)
qed

lemma new_node_heap_ok:
  assumes "heap_ok h" "nodes h src = Some n" "idx < ENTRY_COUNT" "entries n idx = 0"
    and "next_lower_level (level n) = Some l" "avail h = c # cs"
  defines "h' \<equiv> new_node_heap h src n idx l c cs"
  shows "heap_ok h'" "grows h h'" "nonempty_but h src \<Longrightarrow> nonempty_but h' c"
proof -
  have c: "c \<noteq> 0" "nodes h c = None" "src \<noteq> c"
    using assms(1,2,6) by (auto simp: heap_ok_def)
  have nd: "nodes h' = (nodes h)(c \<mapsto> table_new l src idx, src \<mapsto> n\<lparr>entries := (entries n)(idx := c)\<rparr>)"
    by (simp add: h'_def new_node_heap_def)
  have keep: "child_ok (nodes h') p l' i q" if "child_ok (nodes h) p l' i q" for p l' i q
    using that assms(2) c unfolding child_ok_def nd by (cases "q = src") auto
  have "node_ok (nodes h') p m" if pm: "nodes h' p = Some m" for p m
  proof -
    consider "p = c" "m = table_new l src idx" | "p = src" "m = n\<lparr>entries := (entries n)(idx := c)\<rparr>"
      | "p \<noteq> c" "p \<noteq> src" "nodes h p = Some m"
      using pm c by (auto simp: nd split: if_splits)
    then show ?thesis
    proof cases
      case 1
      then show ?thesis
        using c by (simp add: node_ok_def table_new_def)
    next
      case 2
      have "child_ok (nodes h') src l idx c"
        using c by (simp add: child_ok_def nd table_new_def)
      then show ?thesis
        using 2 keep heap_okD [OF assms(1,2)] assms(5) by (auto simp: node_ok_def)
    next
      case 3
      then show ?thesis
        using keep heap_okD [OF assms(1)] by (simp add: node_ok_def)
    qed
  qed
  then show "heap_ok h'"
    using assms(1,2,6) c by (auto simp: heap_ok_def h'_def new_node_heap_def)
  show "grows h h'"
    unfolding grows_def
  proof (intro allI impI)
    fix p m
    assume p: "nodes h p = Some m"
    have "walk (nodes h') p is = walk (nodes h) p is"
      if "length is = level_num (level m)" "indices_ok is" for "is"
      by (rule walk_new_node [OF assms(1-5) c(2,1) nd p that])
    moreover have "\<exists>m'. nodes h' p = Some m' \<and> level m' = level m \<and> upper_level m' = upper_level m
        \<and> (\<forall>i. entries m i \<noteq> 0 \<longrightarrow> entries m' i = entries m i)"
      using p assms(2,4) c by (auto simp: nd)
    ultimately show "\<exists>m'. nodes h' p = Some m' \<and> level m' = level m \<and> upper_level m' = upper_level m
        \<and> (\<forall>i. entries m i \<noteq> 0 \<longrightarrow> entries m' i = entries m i)
        \<and> (\<forall>is. length is = level_num (level m) \<longrightarrow> indices_ok is \<longrightarrow>
              walk (nodes h') p is = walk (nodes h) p is)"
      by blast
  qed
  assume "nonempty_but h src"
  then show "nonempty_but h' c"
    using assms(2,3) c by (auto simp: nonempty_but_def nd)
qed

lemma create_table_ok:
  assumes "heap_ok h" "nodes h src = Some n" "idx < ENTRY_COUNT" "next_lower_level (level n) = Some l"
    and "entries n idx = 0 \<Longrightarrow> avail h \<noteq> []"
  shows "\<exists>c h' m. create_table h idx src = Some (c, h') \<and> heap_ok h' \<and> grows h h'
     \<and> walk (nodes h') src [idx] = c \<and> nodes h' c = Some m \<and> level m = l
     \<and> length (avail h) \<le> length (avail h') + 1 \<and> (nonempty_but h src \<longrightarrow> nonempty_but h' c)"
proof (cases "entries n idx = 0")
  case True
  then obtain c cs where av: "avail h = c # cs"
    using assms(5) by (cases "avail h") auto
  let ?h = "new_node_heap h src n idx l c cs"
  have c: "c \<noteq> 0" "src \<noteq> c"
    using assms(1,2) av by (auto simp: heap_ok_def)
  note ok = new_node_heap_ok [OF assms(1-3) True assms(4) av]
  show ?thesis
    using create_table_new [OF assms(2,3) True assms(4) av assms(1)] ok c av
    by (intro exI [of _ c] exI [of _ ?h] exI [of _ "table_new l src idx"])
      (simp add: new_node_heap_def table_new_def)
next
  case False
  then obtain c where c: "nodes h (entries n idx) = Some c" "level c = l"
      "upper_level c = src" "upper_level_index c = idx"
    using node_okD [OF heap_okD [OF assms(1,2)] assms(4,3)] by metis
  have "nonempty_but h src \<longrightarrow> nonempty_but h (entries n idx)"
    using False assms(2,3) unfolding nonempty_but_def by (metis option.inject)
  then show ?thesis
    using False assms c by (auto simp: create_table_def table_index_def)
qed

lemma heap_ok_nonzero: "heap_ok h \<Longrightarrow> nodes h p = Some n \<Longrightarrow> p \<noteq> 0"
  using heap_okD by (auto simp: node_ok_def)

lemma uppers_nonempty_but: "uppers_nonempty h \<Longrightarrow> nonempty_but h q"
  by (auto simp: uppers_nonempty_def nonempty_but_def)

lemma nonempty_but_leaf: "nonempty_but h q \<Longrightarrow> nodes h q = Some m \<Longrightarrow> level m = One \<Longrightarrow> uppers_nonempty h"
  unfolding uppers_nonempty_def nonempty_but_def by (metis option.inject)

lemma map_to_the_l1_ok:
  assumes "table_ok h t" "indices_ok [i4, i3, i2]" "3 \<le> length (avail h)"
  shows "\<exists>l1 h' m. map_to_the_l1 h t (i4, i3, i2, i1) = Some (l1, h') \<and> heap_ok h' \<and> grows h h'
     \<and> walk (nodes h') (l4_page_table t) [i4, i3, i2] = l1 \<and> nodes h' l1 = Some m \<and> level m = One
     \<and> length (avail h) \<le> length (avail h') + 3 \<and> (uppers_nonempty h \<longrightarrow> uppers_nonempty h')"
proof -
  let ?r = "l4_page_table t"
  from assms(1) obtain n where n: "heap_ok h" "nodes h ?r = Some n" "level n = Four"
    by (auto simp: table_ok_def root_ok_def)
  have i: "i4 < ENTRY_COUNT" "i3 < ENTRY_COUNT" "i2 < ENTRY_COUNT"
    using assms(2) by auto
  have l1: "next_lower_level (level n) = Some Three" "avail h \<noteq> []"
    using n assms(3) by auto
  from create_table_ok [OF n(1,2) i(1) l1] obtain c1 h1 m1 where
    s1: "create_table h i4 ?r = Some (c1, h1)" "heap_ok h1" "grows h h1" "walk (nodes h1) ?r [i4] = c1"
      "nodes h1 c1 = Some m1" "level m1 = Three" "length (avail h) \<le> length (avail h1) + 1"
      "nonempty_but h ?r \<longrightarrow> nonempty_but h1 c1"
    by blast
  have l2: "next_lower_level (level m1) = Some Two" "avail h1 \<noteq> []"
    using s1(6,7) assms(3) by auto
  from create_table_ok [OF s1(2,5) i(2) l2] obtain c2 h2 m2 where
    s2: "create_table h1 i3 c1 = Some (c2, h2)" "heap_ok h2" "grows h1 h2" "walk (nodes h2) c1 [i3] = c2"
      "nodes h2 c2 = Some m2" "level m2 = Two" "length (avail h1) \<le> length (avail h2) + 1"
      "nonempty_but h1 c1 \<longrightarrow> nonempty_but h2 c2"
    by blast
  have l3: "next_lower_level (level m2) = Some One" "avail h2 \<noteq> []"
    using s1(7) s2(6,7) assms(3) by auto
  from create_table_ok [OF s2(2,5) i(3) l3] obtain c3 h3 m3 where
    s3: "create_table h2 i2 c2 = Some (c3, h3)" "heap_ok h3" "grows h2 h3" "walk (nodes h3) c2 [i2] = c3"
      "nodes h3 c3 = Some m3" "level m3 = One" "length (avail h2) \<le> length (avail h3) + 1"
      "nonempty_but h2 c2 \<longrightarrow> nonempty_but h3 c3"
    by blast
  have nz: "c1 \<noteq> 0" "c2 \<noteq> 0" "c3 \<noteq> 0"
    using heap_ok_nonzero s1(2,5) s2(2,5) s3(2,5) by blast+
  have "walk (nodes h3) ?r [i4] = c1" "walk (nodes h3) c1 [i3] = c2"
    using grows_walk [OF grows_trans [OF s2(3) s3(3)], of ?r "[i4]"] grows_walk [OF s3(3), of c1 "[i3]"]
      s1(4) s2(4) nz by auto
  then have "walk (nodes h3) ?r [i4, i3, i2] = c3"
    using s3(4) nz walk_append [of "nodes h3" ?r "[i4]" "[i3, i2]"] walk_append [of "nodes h3" c1 "[i3]" "[i2]"]
    by simp
  moreover have "uppers_nonempty h \<longrightarrow> uppers_nonempty h3"
    using s1(8) s2(8) s3(5,6,8) uppers_nonempty_but nonempty_but_leaf by blast
  moreover have "map_to_the_l1 h t (i4, i3, i2, i1) = Some (c3, h3)"
    by (simp add: map_to_the_l1_def s1(1) s2(1) s3(1))
  moreover have "grows h h3" "length (avail h) \<le> length (avail h3) + 3"
    using grows_trans [OF grows_trans [OF s1(3) s2(3)] s3(3)] s1(7) s2(7) s3(7) by simp_all
  ultimately show ?thesis
    using s3(2,5,6) by blast
qed

section \<open>Writing a leaf entry\<close>

definition set_leaf :: "Heap \<Rightarrow> u64 \<Rightarrow> PageTable \<Rightarrow> nat \<Rightarrow> u64 \<Rightarrow> Heap" where
  "set_leaf h p m i v = h\<lparr>nodes := (nodes h)(p \<mapsto> m\<lparr>entries := (entries m)(i := v)\<rparr>)\<rparr>"

lemma set_leaf_eq: "nodes h p = Some m \<Longrightarrow> i < ENTRY_COUNT \<Longrightarrow> table_index_mut h p i v = Some (set_leaf h p m i v)"
  by (simp add: table_index_mut_def set_leaf_def)

lemma set_leaf_nodes [simp]:
  "nodes (set_leaf h p m i v) p = Some (m\<lparr>entries := (entries m)(i := v)\<rparr>)"
  "q \<noteq> p \<Longrightarrow> nodes (set_leaf h p m i v) q = nodes h q"
  by (simp_all add: set_leaf_def)

lemma set_leaf_avail [simp]: "avail (set_leaf h p m i v) = avail h"
  by (simp add: set_leaf_def)

lemma set_leaf_ok:
  assumes "nodes h p = Some m" "level m = One"
  shows "heap_ok h \<Longrightarrow> heap_ok (set_leaf h p m i v)"
    and "root_ok h r \<Longrightarrow> root_ok (set_leaf h p m i v) r"
    and "uppers_nonempty h \<Longrightarrow> uppers_nonempty (set_leaf h p m i v)"
proof -
  let ?N = "nodes (set_leaf h p m i v)"
  have N: "?N = (nodes h)(p \<mapsto> m\<lparr>entries := (entries m)(i := v)\<rparr>)"
    by (simp add: set_leaf_def)
  have "child_ok ?N q l j c" if "child_ok (nodes h) q l j c" for q l j c
    using that assms(1) by (cases "c = p") (auto simp: child_ok_def N)
  then have "node_ok ?N q n" if "node_ok (nodes h) q n" for q n
    using that by (auto simp: node_ok_def)
  then show "heap_ok (set_leaf h p m i v)" if "heap_ok h"
    using that assms by (auto simp: heap_ok_def N node_ok_def set_leaf_def)
  show "root_ok (set_leaf h p m i v) r" if "root_ok h r"
    using that assms by (auto simp: root_ok_def N)
  show "uppers_nonempty (set_leaf h p m i v)" if "uppers_nonempty h"
    using that assms by (auto simp: uppers_nonempty_def N)
qed

lemma walk_set_leaf_upper:
  assumes "heap_ok h" "nodes h p = Some m" "level m = One"
    and "nodes h q = Some n" "length is < level_num (level n)" "indices_ok is"
  shows "walk (nodes (set_leaf h p m i v)) q is = walk (nodes h) q is"
  using assms(4-)
proof (induction "is" arbitrary: q n)
  case (Cons j "is")
  then have "1 < level_num (level n)"
    by simp
  then obtain l where l: "next_lower_level (level n) = Some l" "level_num (level n) = Suc (level_num l)"
    by (rule level_num_lower)
  have "q \<noteq> p"
    using Cons.prems(1,2) assms(2,3) by auto
  moreover have "walk (nodes (set_leaf h p m i v)) (entries n j) is = walk (nodes h) (entries n j) is"
    if nz: "entries n j \<noteq> 0"
  proof -
    obtain c where c: "nodes h (entries n j) = Some c" "level c = l"
      using node_okD [OF heap_okD [OF assms(1) Cons.prems(1)] l(1) _ nz] Cons.prems(3)
      by (metis indices_ok_simps(2))
    show ?thesis
      using Cons.IH [OF c(1)] Cons.prems(2,3) l c by simp
  qed
  ultimately show ?case
    using Cons.prems(1) by simp
qed simp

lemma walk_set_leaf:
  assumes "heap_ok h" "nodes h p = Some m" "level m = One" "root_ok h r" "root_ok h r'"
    and "walk (nodes h) r xs = p" "length xs = 3" "indices_ok xs" "full_path path"
  shows "walk (nodes (set_leaf h p m i v)) r' path =
    (if r' = r \<and> path = xs @ [i] then v else walk (nodes h) r' path)"
proof -
  from assms(9) obtain ys j where path: "path = ys @ [j]" "length ys = 3" "indices_ok ys"
    by (cases path rule: rev_cases) (auto simp: full_path_def)
  from assms(5) obtain n where n: "nodes h r' = Some n" "level n = Four" "r' \<noteq> 0"
    using heap_ok_nonzero [OF assms(1)] by (auto simp: root_ok_def)
  let ?q = "walk (nodes h) r' ys"
  have up: "walk (nodes (set_leaf h p m i v)) r' ys = ?q"
    by (rule walk_set_leaf_upper [OF assms(1-3) n(1)]) (simp_all add: n path)
  have p0: "p \<noteq> 0"
    using heap_ok_nonzero [OF assms(1,2)] .
  have meet: "?q = p \<longleftrightarrow> r' = r \<and> ys = xs"
    using walk_inject [OF assms(1,5,4), of ys xs] assms(6-8) path p0 by auto
  show ?thesis
  proof (cases "?q = p")
    case True
    then show ?thesis
      using meet up p0 n assms(2) by (auto simp: path walk_snoc)
  next
    case False
    then have other: "\<not> (r' = r \<and> path = xs @ [i])"
      using meet path by auto
    show ?thesis
      unfolding if_not_P [OF other] using False up n by (simp add: path(1) walk_snoc)
  qed
qed

section \<open>The operations on the abstract map\<close>

lemma lookup_table_node:
  "nodes h p = Some n \<Longrightarrow> i < ENTRY_COUNT \<Longrightarrow>
     lookup_table h i p = Some (if entries n i = 0 then None else Some (entries n i))"
  by (simp add: lookup_table_def table_index_def)

lemma find_l1_page_idx_ok:
  assumes "table_ok h t" "X a = (i4, i3, i2, i1)" "indices_ok [i4, i3, i2]"
  shows "find_l1_page_idx X h t a =
    Some (let p = walk (nodes h) (l4_page_table t) [i4, i3, i2] in if p = 0 then None else Some (p, i1))"
proof -
  from assms(1) obtain n4 where n4: "heap_ok h" "nodes h (l4_page_table t) = Some n4" "level n4 = Four"
    by (auto simp: table_ok_def root_ok_def)
  have i: "i4 < ENTRY_COUNT" "i3 < ENTRY_COUNT" "i2 < ENTRY_COUNT"
    using assms(3) by auto
  show ?thesis
  proof (cases "entries n4 i4 = 0")
    case True
    then show ?thesis
      using n4 i assms(2) by (simp add: find_l1_page_idx_def lookup_table_node)
  next
    case nz4: False
    obtain n3 where n3: "nodes h (entries n4 i4) = Some n3" "level n3 = Three"
      using node_okD [OF heap_okD [OF n4(1,2)] _ i(1) nz4] n4(3) by (metis next_lower_level.simps(1))
    show ?thesis
    proof (cases "entries n3 i3 = 0")
      case True
      then show ?thesis
        using n4 n3 i nz4 assms(2) by (simp add: find_l1_page_idx_def lookup_table_node)
    next
      case nz3: False
      obtain n2 where n2: "nodes h (entries n3 i3) = Some n2" "level n2 = Two"
        using node_okD [OF heap_okD [OF n4(1) n3(1)] _ i(2) nz3] n3(2) by (metis next_lower_level.simps(2))
      then show ?thesis
        using n4 n3 i nz4 nz3 assms(2) by (simp add: find_l1_page_idx_def lookup_table_node)
    qed
  qed
qed

lemma l1_node:
  assumes "heap_ok h" "root_ok h r" "length xs = 3" "indices_ok xs" "walk (nodes h) r xs \<noteq> 0"
  obtains m where "nodes h (walk (nodes h) r xs) = Some m" "level m = One"
proof -
  from assms(2) obtain n where n: "nodes h r = Some n" "level n = Four"
    by (auto simp: root_ok_def)
  from walk_node [OF assms(1) n(1), of xs] n assms obtain m where
    "nodes h (walk (nodes h) r xs) = Some m" "level_num (level m) = 1"
    by auto
  moreover from this(2) have "level m = One"
    by (cases "level m") auto
  ultimately show thesis
    using that by blast
qed

lemma lookup_via_l1:
  assumes "table_ok h t" "length xs = 3"
  shows "lookup h t (xs @ [i]) =
    (let p = walk (nodes h) (l4_page_table t) xs
     in if p = 0 then 0 else case nodes h p of None \<Rightarrow> 0 | Some m \<Rightarrow> entries m i)"
proof -
  have "l4_page_table t \<noteq> 0"
    using assms(1) heap_ok_nonzero by (auto simp: table_ok_def root_ok_def)
  then show ?thesis
    by (simp add: lookup_def walk_snoc Let_def)
qed

lemma translate_lookup:
  assumes "table_ok h t" "indices_in_range X"
  shows "translate X h t a =
    Some (let w = lookup h t (path_of X a) in if w = 0 then None else Some w)"
proof -
  obtain i4 i3 i2 i1 where X: "X a = (i4, i3, i2, i1)"
    by (metis prod.exhaust)
  have i: "indices_ok [i4, i3, i2]" "i1 < ENTRY_COUNT" "path_of X a = [i4, i3, i2] @ [i1]"
    using path_of_full [OF assms(2), of a] by (auto simp: full_path_def path_of_def X)
  let ?p = "walk (nodes h) (l4_page_table t) [i4, i3, i2]"
  have f: "find_l1_page_idx X h t a = Some (if ?p = 0 then None else Some (?p, i1))"
    using find_l1_page_idx_ok [where X = X and a = a, OF assms(1) X i(1)] by (simp only: Let_def)
  have l: "lookup h t (path_of X a) = (if ?p = 0 then 0 else case nodes h ?p of None \<Rightarrow> 0 | Some m \<Rightarrow> entries m i1)"
    using lookup_via_l1 [OF assms(1), of "[i4, i3, i2]" i1] unfolding i(3) Let_def by simp
  show ?thesis
  proof (cases "?p = 0")
    case True
    then show ?thesis
      unfolding translate_def f l by (simp del: walk.simps)
  next
    case False
    then obtain m where "nodes h ?p = Some m"
      using l1_node [of h "l4_page_table t" "[i4, i3, i2]"] assms(1) i(1)
      by (auto simp: table_ok_def simp del: walk.simps)
    then show ?thesis
      using False i(2) unfolding translate_def f l by (simp add: table_index_def del: walk.simps)
  qed
qed

text \<open>The common part of \<open>map\<close> and \<open>force_map\<close>: reach the leaf, read the old entry, write the new one.\<close>

lemma reach_leaf:
  assumes "table_ok h t" "indices_in_range X" "3 \<le> length (avail h)" "X a = (i4, i3, i2, i1)"
  obtains l1 h1 m where "map_to_the_l1 h t (i4, i3, i2, i1) = Some (l1, h1)"
    "heap_ok h1" "nodes h1 l1 = Some m" "level m = One" "i1 < ENTRY_COUNT"
    "entries m i1 = lookup h t (path_of X a)"
    "length (avail h) \<le> length (avail h1) + 3" "uppers_nonempty h \<longrightarrow> uppers_nonempty h1"
    "\<And>r. root_ok h r \<Longrightarrow> root_ok h1 r"
    "\<And>r path. root_ok h r \<Longrightarrow> full_path path \<Longrightarrow> walk (nodes h1) r path = walk (nodes h) r path"
    "\<And>v r path. root_ok h r \<Longrightarrow> full_path path \<Longrightarrow>
       walk (nodes (set_leaf h1 l1 m i1 v)) r path =
         (if r = l4_page_table t \<and> path = path_of X a then v else walk (nodes h) r path)"
proof -
  let ?r = "l4_page_table t"
  have fp: "full_path (path_of X a)"
    by (rule path_of_full [OF assms(2)])
  have i: "indices_ok [i4, i3, i2]" "i1 < ENTRY_COUNT" and p: "path_of X a = [i4, i3, i2] @ [i1]"
    using fp by (auto simp: full_path_def path_of_def assms(4))
  from map_to_the_l1_ok [OF assms(1) i(1) assms(3), of i1] obtain l1 h1 m where
    m: "map_to_the_l1 h t (i4, i3, i2, i1) = Some (l1, h1)" "heap_ok h1" "grows h h1"
      "walk (nodes h1) ?r [i4, i3, i2] = l1" "nodes h1 l1 = Some m" "level m = One"
      "length (avail h) \<le> length (avail h1) + 3" "uppers_nonempty h \<longrightarrow> uppers_nonempty h1"
    by blast
  have root: "root_ok h ?r"
    using assms(1) by (simp add: table_ok_def)
  have same: "walk (nodes h1) r path = walk (nodes h) r path" if "root_ok h r" "full_path path" for r path
    using that m(3) unfolding root_ok_def grows_def full_path_def by (metis level_num.simps(4))
  have "table_ok h1 t"
    using m(2) grows_root [OF m(3) root] by (simp add: table_ok_def)
  from lookup_via_l1 [OF this, of "[i4, i3, i2]" i1] m(4,5) heap_ok_nonzero [OF m(2,5)]
  have "entries m i1 = walk (nodes h1) ?r (path_of X a)"
    by (simp add: p lookup_def del: walk.simps)
  then have old: "entries m i1 = lookup h t (path_of X a)"
    using same [OF root fp] by (simp add: lookup_def)
  have new: "walk (nodes (set_leaf h1 l1 m i1 v)) r path =
      (if r = ?r \<and> path = path_of X a then v else walk (nodes h) r path)"
    if "root_ok h r" "full_path path" for v r path
    using walk_set_leaf [OF m(2,5,6) grows_root [OF m(3) root] grows_root [OF m(3) that(1)] m(4) _ i(1) that(2), of i1 v]
      same [OF that] by (simp add: p)
  show thesis
    by (rule that [OF m(1,2,5,6) i(2) old m(7,8) grows_root [OF m(3)] same new])
qed

lemma map_lookup:
  assumes "table_ok h t" "indices_in_range X" "3 \<le> length (avail h)"
    and old: "old = lookup h t (path_of X a)"
  shows "\<exists>t' h'. rpt_map X h t a v = Some (if old = 0 then None else Some old, t', h')
     \<and> table_ok h' t' \<and> l4_page_table t' = l4_page_table t
     \<and> cnt t' = (if old = 0 then cnt t + 1 else cnt t)
     \<and> length (avail h) \<le> length (avail h') + 3 \<and> (uppers_nonempty h \<longrightarrow> uppers_nonempty h')
     \<and> (\<forall>r path. root_ok h r \<longrightarrow> full_path path \<longrightarrow> root_ok h' r \<and> walk (nodes h') r path =
          (if r = l4_page_table t \<and> path = path_of X a \<and> old = 0 then v else walk (nodes h) r path))"
proof -
  obtain i4 i3 i2 i1 where X: "X a = (i4, i3, i2, i1)"
    by (metis prod.exhaust)
  show ?thesis
    using assms(1-3) X
  proof (rule reach_leaf)
    fix l1 h1 m
    assume * : "map_to_the_l1 h t (i4, i3, i2, i1) = Some (l1, h1)"
      "heap_ok h1" "nodes h1 l1 = Some m" "level m = One" "i1 < ENTRY_COUNT"
      "entries m i1 = lookup h t (path_of X a)"
      "length (avail h) \<le> length (avail h1) + 3" "uppers_nonempty h \<longrightarrow> uppers_nonempty h1"
      "\<And>r. root_ok h r \<Longrightarrow> root_ok h1 r"
      "\<And>r path. root_ok h r \<Longrightarrow> full_path path \<Longrightarrow> walk (nodes h1) r path = walk (nodes h) r path"
      "\<And>v r path. root_ok h r \<Longrightarrow> full_path path \<Longrightarrow>
         walk (nodes (set_leaf h1 l1 m i1 v)) r path =
           (if r = l4_page_table t \<and> path = path_of X a then v else walk (nodes h) r path)"
    have root: "root_ok h (l4_page_table t)"
      using assms(1) by (simp add: table_ok_def)
    let ?h = "if old = 0 then set_leaf h1 l1 m i1 v else h1"
    have run: "rpt_map X h t a v =
        Some (if old = 0 then None else Some old, if old = 0 then t\<lparr>cnt := cnt t + 1\<rparr> else t, ?h)"
      using * by (simp add: rpt_map_def X old table_index_def set_leaf_eq)
    show ?thesis
      unfolding run using * root set_leaf_ok [OF *(3,4), where i = i1 and v = v]
      by (cases "old = 0") (simp_all add: table_ok_def)
  qed
qed

lemma force_map_lookup:
  assumes "table_ok h t" "indices_in_range X" "3 \<le> length (avail h)"
    and old: "old = lookup h t (path_of X a)"
  shows "\<exists>t' h'. force_map X h t a v = Some (t', h')
     \<and> table_ok h' t' \<and> l4_page_table t' = l4_page_table t
     \<and> cnt t' = (if old = 0 then cnt t + 1 else cnt t)
     \<and> length (avail h) \<le> length (avail h') + 3 \<and> (uppers_nonempty h \<longrightarrow> uppers_nonempty h')
     \<and> (\<forall>r path. root_ok h r \<longrightarrow> full_path path \<longrightarrow> root_ok h' r \<and> walk (nodes h') r path =
          (if r = l4_page_table t \<and> path = path_of X a then v else walk (nodes h) r path))"
proof -
  obtain i4 i3 i2 i1 where X: "X a = (i4, i3, i2, i1)"
    by (metis prod.exhaust)
  show ?thesis
    using assms(1-3) X
  proof (rule reach_leaf)
    fix l1 h1 m
    assume * : "map_to_the_l1 h t (i4, i3, i2, i1) = Some (l1, h1)"
      "heap_ok h1" "nodes h1 l1 = Some m" "level m = One" "i1 < ENTRY_COUNT"
      "entries m i1 = lookup h t (path_of X a)"
      "length (avail h) \<le> length (avail h1) + 3" "uppers_nonempty h \<longrightarrow> uppers_nonempty h1"
      "\<And>r. root_ok h r \<Longrightarrow> root_ok h1 r"
      "\<And>r path. root_ok h r \<Longrightarrow> full_path path \<Longrightarrow> walk (nodes h1) r path = walk (nodes h) r path"
      "\<And>v r path. root_ok h r \<Longrightarrow> full_path path \<Longrightarrow>
         walk (nodes (set_leaf h1 l1 m i1 v)) r path =
           (if r = l4_page_table t \<and> path = path_of X a then v else walk (nodes h) r path)"
    have root: "root_ok h (l4_page_table t)"
      using assms(1) by (simp add: table_ok_def)
    have run: "force_map X h t a v =
        Some (if old = 0 then t\<lparr>cnt := cnt t + 1\<rparr> else t, set_leaf h1 l1 m i1 v)"
      using * by (simp add: force_map_def X old table_index_def set_leaf_eq)
    show ?thesis
      unfolding run using * root set_leaf_ok [OF *(3,4), where i = i1 and v = v]
      by (cases "old = 0") (simp_all add: table_ok_def)
  qed
qed

section \<open>Creating tables, counting pages\<close>

lemma rpt_new_ok:
  assumes "heap_ok h" "avail h = p # ps"
  defines "h' \<equiv> h\<lparr>nodes := (nodes h)(p \<mapsto> table_default), avail := ps\<rparr>"
  shows "rpt_new h = Some (\<lparr>l4_page_table = p, cnt = 0\<rparr>, h')" "heap_ok h'" "root_ok h' p"
    and "uppers_nonempty h \<Longrightarrow> uppers_nonempty h'" "walk (nodes h') p (i # is) = 0"
proof -
  have p: "p \<noteq> 0" "nodes h p = None"
    using assms(1,2) by (auto simp: heap_ok_def)
  have "child_ok (nodes h') q l i c" if "child_ok (nodes h) q l i c" for q l i c
    using that p by (auto simp: child_ok_def h'_def)
  then have "node_ok (nodes h') q n" if "node_ok (nodes h) q n" for q n
    using that by (auto simp: node_ok_def)
  then show "heap_ok h'"
    using assms(1,2) p by (auto simp: heap_ok_def h'_def node_ok_def table_default_def table_new_def)
  show "rpt_new h = Some (\<lparr>l4_page_table = p, cnt = 0\<rparr>, h')"
    by (simp add: rpt_new_def box_new_def assms(2) h'_def)
  show "root_ok h' p"
    by (simp add: root_ok_def h'_def table_default_def table_new_def)
  show "uppers_nonempty h'" if "uppers_nonempty h"
    using that by (auto simp: uppers_nonempty_def h'_def table_default_def table_new_def)
  show "walk (nodes h') p (i # is) = 0"
    by (simp add: h'_def table_default_def table_new_def)
qed

lemma finite_live_paths [simp]: "finite (live_paths h t)"
proof -
  have "live_paths h t \<subseteq> {path. set path \<subseteq> {..<ENTRY_COUNT} \<and> length path = 4}"
    by (auto simp: live_paths_def full_path_def indices_ok_def)
  then show ?thesis
    by (rule finite_subset) (simp add: finite_lists_length_eq)
qed

definition cnt_ok :: "Heap \<Rightarrow> RemotePageTable \<Rightarrow> bool" where
  "cnt_ok h t \<longleftrightarrow> cnt t = card (live_paths h t)"

lemma live_paths_insert:
  assumes "full_path path" "\<And>q. full_path q \<Longrightarrow> lookup h' t' q = (if q = path then v else lookup h t q)" "v \<noteq> 0"
  shows "live_paths h' t' = insert path (live_paths h t)"
  using assms by (auto simp: live_paths_def split: if_splits)

text \<open>The words of a 48-bit virtual address as the four table indices, 9 bits each above the 12 offset bits.\<close>

definition four_level_indices :: page_indices where
  "four_level_indices a =
     (unat (drop_bit 39 a AND 511), unat (drop_bit 30 a AND 511),
      unat (drop_bit 21 a AND 511), unat (drop_bit 12 a AND 511))"

lemma unat_and_511: "unat (w AND 511 :: u64) < ENTRY_COUNT"
proof -
  have "w AND 511 \<le> (511 :: u64)"
    by (rule word_and_le1)
  then have "unat (w AND 511) \<le> unat (511 :: u64)"
    by (simp only: word_le_nat_alt)
  then show ?thesis
    by simp
qed

lemma four_level_in_range: "indices_in_range four_level_indices"
  using unat_and_511 by (simp add: indices_in_range_def path_of_def four_level_indices_def)

text \<open>An empty heap with room for \<open>n\<close> nodes, and a table created in it.\<close>

definition empty_heap :: "nat \<Rightarrow> Heap" where
  "empty_heap n = \<lparr>nodes = (\<lambda>_. None), avail = map (\<lambda>i. word_of_nat (4096 * (i + 1))) [0..<n]\<rparr>"

lemma empty_heap_ok:
  assumes "n < 2 ^ 32"
  shows "heap_ok (empty_heap n)"
proof -
  have v: "unat (word_of_nat (4096 * (i + 1)) :: u64) = 4096 * (i + 1)" if "i < n" for i
    using that assms by (simp add: unat_of_nat take_bit_nat_eq_self del: of_nat_mult of_nat_add of_nat_Suc)
  have "inj_on (\<lambda>i. word_of_nat (4096 * (i + 1)) :: u64) {0..<n}"
  proof (rule inj_onI)
    fix i j
    assume ij: "i \<in> {0..<n}" "j \<in> {0..<n}" "(word_of_nat (4096 * (i + 1)) :: u64) = word_of_nat (4096 * (j + 1))"
    have "4096 * (i + 1) = 4096 * (j + 1)"
      using v [of i] v [of j] ij by (metis atLeastLessThan_iff)
    then show "i = j"
      by simp
  qed
  then have "distinct (avail (empty_heap n))"
    by (simp add: empty_heap_def distinct_map)
  moreover have "0 \<notin> set (avail (empty_heap n))"
    using v by (force simp: empty_heap_def simp del: of_nat_mult of_nat_add of_nat_Suc)
  ultimately show ?thesis
    by (simp add: heap_ok_def empty_heap_def)
qed

lemma fresh_table:
  assumes "0 < n" "n < 2 ^ 32"
  shows "\<exists>t h. rpt_new (empty_heap n) = Some (t, h) \<and> table_ok h t \<and> uppers_nonempty h
    \<and> length (avail h) = n - 1 \<and> cnt t = 0 \<and> (\<forall>i is. lookup h t (i # is) = 0)"
proof -
  have len: "length (avail (empty_heap n)) = n"
    by (simp add: empty_heap_def)
  then obtain p ps where av: "avail (empty_heap n) = p # ps"
    using assms(1) by (cases "avail (empty_heap n)") auto
  note ok = rpt_new_ok [OF empty_heap_ok [OF assms(2)] av]
  have "uppers_nonempty (empty_heap n)"
    by (simp add: uppers_nonempty_def empty_heap_def)
  then show ?thesis
    using ok len av by (simp add: table_ok_def lookup_def del: walk.simps) 
qed

definition table8 :: RemotePageTable where
  "table8 = fst (the (rpt_new (empty_heap 8)))"

definition heap8 :: Heap where
  "heap8 = snd (the (rpt_new (empty_heap 8)))"

lemma table8_ok:
  "rpt_new (empty_heap 8) = Some (table8, heap8)" "table_ok heap8 table8" "uppers_nonempty heap8"
  "length (avail heap8) = 7" "cnt table8 = 0" "lookup heap8 table8 (i # is) = 0"
proof -
  have "(0 :: nat) < 8" "(8 :: nat) < 2 ^ 32"
    by simp_all
  from fresh_table [OF this] obtain t h where
    * : "rpt_new (empty_heap 8) = Some (t, h)" "table_ok h t" "uppers_nonempty h"
      "length (avail h) = 8 - 1" "cnt t = 0" "\<forall>i is. lookup h t (i # is) = 0"
    by blast
  have "table8 = t" "heap8 = h"
    by (simp_all add: table8_def heap8_def *(1))
  with * show "rpt_new (empty_heap 8) = Some (table8, heap8)" "table_ok heap8 table8" "uppers_nonempty heap8"
    "length (avail heap8) = 7" "cnt table8 = 0" "lookup heap8 table8 (i # is) = 0"
    by simp_all
qed

lemma table8_room: "3 \<le> length (avail heap8)"
  by (simp add: table8_ok)

lemma table8_empty: "full_path path \<Longrightarrow> lookup heap8 table8 path = 0"
  by (cases path) (simp_all add: full_path_def table8_ok)

section \<open>The contract of an insert-if-absent map\<close>

text \<open>
  What the client that fills a page table from a list relies on: an insertion succeeds while there
  is room, it is visible under the keys of the same page if the page had no value, and changes
  nothing else. A value 0 is no value.
\<close>

fun ins_all :: "('s \<Rightarrow> 'k \<Rightarrow> u64 \<Rightarrow> 's option) \<Rightarrow> 's \<Rightarrow> ('k \<times> u64) list \<Rightarrow> 's option" where
  "ins_all ins s [] = Some s"
| "ins_all ins s ((k, v) # kvs) = do { s' \<leftarrow> ins s k v; ins_all ins s' kvs }"

fun first_value :: "('k \<Rightarrow> 'k \<Rightarrow> bool) \<Rightarrow> 'k \<Rightarrow> ('k \<times> u64) list \<Rightarrow> u64" where
  "first_value same q [] = 0"
| "first_value same q ((k, v) # kvs) = (if same q k \<and> v \<noteq> 0 then v else first_value same q kvs)"

locale first_map =
  fixes lkp :: "'s \<Rightarrow> 'k \<Rightarrow> u64"
    and ins :: "'s \<Rightarrow> 'k \<Rightarrow> u64 \<Rightarrow> 's option"
    and room :: "nat \<Rightarrow> 's \<Rightarrow> bool"
    and same :: "'k \<Rightarrow> 'k \<Rightarrow> bool"
  assumes ins_ok: "room (Suc n) s \<Longrightarrow> \<exists>s'. ins s k v = Some s' \<and> room n s'
      \<and> (\<forall>q. lkp s' q = (if same q k \<and> lkp s k = 0 then v else lkp s q))"
    and same_lkp: "same q k \<Longrightarrow> lkp s q = lkp s k"
begin

lemma ins_all_ok:
  assumes "room (length kvs + n) s"
  shows "\<exists>s'. ins_all ins s kvs = Some s' \<and> room n s'
    \<and> (\<forall>q. lkp s' q = (if lkp s q \<noteq> 0 then lkp s q else first_value same q kvs))"
  using assms
proof (induction kvs arbitrary: s)
  case (Cons kv kvs)
  obtain k v where kv: "kv = (k, v)"
    by fastforce
  from ins_ok [of "length kvs + n" s k v] Cons.prems obtain s1 where
    s1: "ins s k v = Some s1" "room (length kvs + n) s1"
      "\<And>q. lkp s1 q = (if same q k \<and> lkp s k = 0 then v else lkp s q)"
    by auto
  from Cons.IH [OF s1(2)] obtain s' where
    s': "ins_all ins s1 kvs = Some s'" "room n s'"
      "\<And>q. lkp s' q = (if lkp s1 q \<noteq> 0 then lkp s1 q else first_value same q kvs)"
    by auto
  have "lkp s' q = (if lkp s q \<noteq> 0 then lkp s q else first_value same q (kv # kvs))" for q
  proof (cases "same q k")
    case True
    then show ?thesis
      using same_lkp [OF True, of s] by (simp add: s'(3) s1(3) kv)
  next
    case False
    then show ?thesis
      by (simp add: s'(3) s1(3) kv)
  qed
  then show ?case
    using s1(1) s'(1,2) by (simp add: kv)
qed simp

end

definition rpt_lkp :: "page_indices \<Rightarrow> RemotePageTable \<times> Heap \<Rightarrow> u64 \<Rightarrow> u64" where
  "rpt_lkp X s a = lookup (snd s) (fst s) (path_of X a)"

definition rpt_ins :: "page_indices \<Rightarrow> RemotePageTable \<times> Heap \<Rightarrow> u64 \<Rightarrow> u64 \<Rightarrow> (RemotePageTable \<times> Heap) option" where
  "rpt_ins X s a v = map_option snd (rpt_map X (snd s) (fst s) a v)"

definition rpt_room :: "page_indices \<Rightarrow> nat \<Rightarrow> RemotePageTable \<times> Heap \<Rightarrow> bool" where
  "rpt_room X n s \<longleftrightarrow> table_ok (snd s) (fst s) \<and> indices_in_range X \<and> 3 * n \<le> length (avail (snd s))"

definition same_page :: "page_indices \<Rightarrow> u64 \<Rightarrow> u64 \<Rightarrow> bool" where
  "same_page X a b \<longleftrightarrow> path_of X a = path_of X b"

interpretation rpt: first_map "rpt_lkp X" "rpt_ins X" "rpt_room X" "same_page X" for X
proof unfold_locales
  fix n and s :: "RemotePageTable \<times> Heap" and k v
  assume room: "rpt_room X (Suc n) s"
  obtain t h where s: "s = (t, h)"
    by fastforce
  have ok: "table_ok h t" "indices_in_range X" "3 \<le> length (avail h)"
    using room by (auto simp: rpt_room_def s)
  from map_lookup [OF ok refl, of k v] obtain t' h' where
    * : "rpt_map X h t k v = Some (if lookup h t (path_of X k) = 0 then None else Some (lookup h t (path_of X k)), t', h')"
      "table_ok h' t'" "l4_page_table t' = l4_page_table t" "length (avail h) \<le> length (avail h') + 3"
      "\<And>r path. root_ok h r \<Longrightarrow> full_path path \<Longrightarrow> root_ok h' r \<and> walk (nodes h') r path =
          (if r = l4_page_table t \<and> path = path_of X k \<and> lookup h t (path_of X k) = 0 then v else walk (nodes h) r path)"
    by blast
  have l: "rpt_lkp X (t', h') q = (if same_page X q k \<and> rpt_lkp X s k = 0 then v else rpt_lkp X s q)" for q
    using *(3) *(5) [of "l4_page_table t" "path_of X q"] ok(1) path_of_full [OF ok(2)]
    by (simp add: rpt_lkp_def s lookup_def same_page_def table_ok_def)
  have r: "rpt_ins X s k v = Some (t', h')" "rpt_room X n (t', h')"
    using *(1,2,4) ok(2) room by (simp_all add: rpt_ins_def rpt_room_def s)
  show "\<exists>s'. rpt_ins X s k v = Some s' \<and> rpt_room X n s'
      \<and> (\<forall>q. rpt_lkp X s' q = (if same_page X q k \<and> rpt_lkp X s k = 0 then v else rpt_lkp X s q))"
    by (rule exI [of _ "(t', h')"]) (simp only: r l simp_thms)
next
  show "same_page X q k \<Longrightarrow> rpt_lkp X s q = rpt_lkp X s k" for q k s
    by (simp add: same_page_def rpt_lkp_def)
qed

lemma force_map_translates:
  assumes "table_ok h t" "indices_in_range X" "3 \<le> length (avail h)"
  shows "\<exists>t' h'. force_map X h t a v = Some (t', h') \<and> table_ok h' t'
    \<and> (\<forall>b. translate X h' t' b =
          (if path_of X b = path_of X a then Some (if v = 0 then None else Some v)
           else translate X h t b))"
proof -
  from force_map_lookup [OF assms refl, of a v] obtain t' h' where
    run: "force_map X h t a v = Some (t', h')"
    and ok: "table_ok h' t'" "l4_page_table t' = l4_page_table t"
    and new: "\<And>r path. root_ok h r \<Longrightarrow> full_path path \<Longrightarrow> root_ok h' r \<and> walk (nodes h') r path =
          (if r = l4_page_table t \<and> path = path_of X a then v else walk (nodes h) r path)"
    by blast
  have "translate X h' t' b = (if path_of X b = path_of X a
           then Some (if v = 0 then None else Some v) else translate X h t b)" for b
    using new [of "l4_page_table t" "path_of X b"] assms(1) path_of_full [OF assms(2)] ok(2)
    by (simp add: translate_lookup [OF ok(1) assms(2)] translate_lookup [OF assms(1,2)] table_ok_def lookup_def)
  then show ?thesis
    using run ok(1) by blast
qed

section \<open>Properties\<close>

text \<open>C14: Mapping a page is a map update, and total: on a well-formed table with three nodes left in
  the allocator, \<open>map\<close> returns, answers the old translation of the page, keeps the heap
  well-formed, and afterwards the page of the address translates to the new physical address if
  it had none (else to the old one), every other page of this table and every page of every other
  table in the heap as before.\<close>

theorem map_refines_update:
  assumes "table_ok h t" "indices_in_range X" "3 \<le> length (avail h)"
  shows "\<exists>t' h'. rpt_map X h t a v = Some (the (translate X h t a), t', h') \<and> table_ok h' t'
    \<and> (\<forall>b. translate X h' t' b =
          (if path_of X b = path_of X a \<and> translate X h t a = Some None
           then Some (if v = 0 then None else Some v) else translate X h t b))
    \<and> (\<forall>u b. table_ok h u \<and> l4_page_table u \<noteq> l4_page_table t \<longrightarrow>
          translate X h' u b = translate X h u b)"
proof -
  from map_lookup [OF assms refl, of a v] obtain t' h' where
    run: "rpt_map X h t a v = Some (if lookup h t (path_of X a) = 0 then None else Some (lookup h t (path_of X a)), t', h')"
    and ok: "table_ok h' t'" "l4_page_table t' = l4_page_table t"
    and new: "\<And>r path. root_ok h r \<Longrightarrow> full_path path \<Longrightarrow> root_ok h' r \<and> walk (nodes h') r path =
          (if r = l4_page_table t \<and> path = path_of X a \<and> lookup h t (path_of X a) = 0 then v
           else walk (nodes h) r path)"
    by blast
  have other: "table_ok h' u" if "table_ok h u" for u
    using that new [of _ "path_of X a"] path_of_full [OF assms(2)] ok(1) by (simp add: table_ok_def)
  have "translate X h' t' b = (if path_of X b = path_of X a \<and> translate X h t a = Some None
           then Some (if v = 0 then None else Some v) else translate X h t b)" for b
    using new [of "l4_page_table t" "path_of X b"] assms(1) path_of_full [OF assms(2)] ok(2)
    by (simp add: translate_lookup [OF ok(1) assms(2)] translate_lookup [OF assms(1,2)] table_ok_def lookup_def)
  moreover have "translate X h' u b = translate X h u b"
    if "table_ok h u" "l4_page_table u \<noteq> l4_page_table t" for u b
    using new [of "l4_page_table u" "path_of X b"] that path_of_full [OF assms(2)]
    by (simp add: translate_lookup [OF other assms(2)] translate_lookup [OF _ assms(2)] table_ok_def lookup_def)
  ultimately show ?thesis
    using run ok(1) by (simp add: translate_lookup [OF assms(1,2)])
qed

theorem map_refines_update_witness:
  "\<exists>t' h'. rpt_map four_level_indices heap8 table8 0x7f0000001000 0x5000 = Some (None, t', h')
     \<and> translate four_level_indices h' t' 0x7f0000001234 = Some (Some 0x5000)
     \<and> translate four_level_indices h' t' 0x7f0000002000 = Some None"
proof -
  let ?X = four_level_indices
  have e: "translate ?X heap8 table8 b = Some None" for b
    by (simp add: translate_lookup [OF table8_ok(2) four_level_in_range] table8_empty
        path_of_full [OF four_level_in_range])
  from map_refines_update [OF table8_ok(2) four_level_in_range table8_room, of "0x7f0000001000" "0x5000"]
  obtain t' h' where
    "rpt_map ?X heap8 table8 0x7f0000001000 0x5000 = Some (the (Some None), t', h')"
    "\<forall>b. translate ?X h' t' b =
       (if path_of ?X b = path_of ?X 0x7f0000001000 \<and> Some None = (Some None :: u64 option option)
        then Some (if (0x5000 :: u64) = 0 then None else Some 0x5000) else Some None)"
    unfolding e by blast
  then show ?thesis
    by (simp add: path_of_def four_level_indices_def)
qed

text \<open>\<open>force_map\<close> always overwrites: it returns on every well-formed table with room, and then
  exactly the page of the address translates to the new physical address.\<close>

theorem force_map_overwrites:
  assumes "table_ok h t" "indices_in_range X" "3 \<le> length (avail h)"
  shows "\<exists>t' h'. force_map X h t a v = Some (t', h') \<and> table_ok h' t'
    \<and> (\<forall>b. translate X h' t' b =
          (if path_of X b = path_of X a then Some (if v = 0 then None else Some v)
           else translate X h t b))"
  by (rule force_map_translates [OF assms])

theorem force_map_overwrites_witness:
  "\<exists>t' h'. force_map four_level_indices heap8 table8 0x1000 0x6000 = Some (t', h')
     \<and> translate four_level_indices h' t' 0x1fff = Some (Some 0x6000)"
proof -
  from force_map_overwrites [OF table8_ok(2) four_level_in_range table8_room, of "0x1000" "0x6000"]
  obtain t' h' where
    "force_map four_level_indices heap8 table8 0x1000 0x6000 = Some (t', h')"
    "\<forall>b. translate four_level_indices h' t' b =
       (if path_of four_level_indices b = path_of four_level_indices 0x1000
        then Some (if (0x6000 :: u64) = 0 then None else Some 0x6000) else translate four_level_indices heap8 table8 b)"
    by blast
  then show ?thesis
    by (simp add: path_of_def four_level_indices_def)
qed



end
