(* ===== verification/Page_Table_Iter.thy ===== *)
theory Page_Table_Iter
  imports Page_Table_Map
begin

text \<open>
  The iterator over a page table visits every mapped page exactly once, in ascending order of
  virtual page number, and ends. Index paths are ordered by the number they spell in base 512;
  \<open>live_at h r d\<close> are the paths of length \<open>d\<close> that lead somewhere from the root \<open>r\<close>.
\<close>

section \<open>Numbers of paths\<close>

definition path_num :: "nat list \<Rightarrow> nat" where
  "path_num path = foldl (\<lambda>acc i. acc * ENTRY_COUNT + i) 0 path"

lemma path_num_simps [simp]:
  "path_num [] = 0" "path_num (xs @ [i]) = path_num xs * ENTRY_COUNT + i"
  by (simp_all add: path_num_def)

lemma path_num_bound: "indices_ok xs \<Longrightarrow> path_num xs < ENTRY_COUNT ^ length xs"
  by (induction xs rule: rev_induct) auto

lemma path_num_less_snoc:
  assumes "i < ENTRY_COUNT" "j < ENTRY_COUNT"
  shows "path_num (xs @ [i]) < path_num (ys @ [j]) \<longleftrightarrow>
    path_num xs < path_num ys \<or> path_num xs = path_num ys \<and> i < j"
  using assms by (cases "path_num xs" "path_num ys" rule: linorder_cases) auto

lemma path_num_inject:
  assumes "length xs = length ys" "indices_ok xs" "indices_ok ys" "path_num xs = path_num ys"
  shows "xs = ys"
  using assms
proof (induction xs arbitrary: ys rule: rev_induct)
  case (snoc x xs)
  then obtain y ys' where ys: "ys = ys' @ [y]"
    by (cases ys rule: rev_cases) auto
  have "path_num xs = path_num ys' \<and> x = y"
    using snoc.prems path_num_less_snoc [of x y xs ys'] path_num_less_snoc [of y x ys' xs]
    by (auto simp: ys)
  with snoc ys show ?case
    by auto
qed simp

section \<open>Scanning a node\<close>

lemma find_valid_entry_Some:
  "find_valid_entry n i = Some j \<longleftrightarrow>
     i \<le> j \<and> j < ENTRY_COUNT \<and> entries n j \<noteq> 0 \<and> (\<forall>k. i \<le> k \<and> k < j \<longrightarrow> entries n k = 0)"
proof (induction n i rule: find_valid_entry.induct)
  case (1 n i)
  show ?case
  proof (cases "i < ENTRY_COUNT \<and> entries n i = 0")
    case True
    then have i: "i \<le> k \<longleftrightarrow> k = i \<or> i + 1 \<le> k" for k
      by auto
    show ?thesis
      using 1 True unfolding i by (subst find_valid_entry.simps) auto
  next
    case False
    then show ?thesis
      by (subst find_valid_entry.simps) (auto simp: le_less)
  qed
qed

lemma find_valid_entry_None:
  "find_valid_entry n i = None \<longleftrightarrow> (\<forall>k. i \<le> k \<and> k < ENTRY_COUNT \<longrightarrow> entries n k = 0)"
proof (induction n i rule: find_valid_entry.induct)
  case (1 n i)
  show ?case
  proof (cases "i < ENTRY_COUNT \<and> entries n i = 0")
    case True
    then have i: "i \<le> k \<longleftrightarrow> k = i \<or> i + 1 \<le> k" for k
      by auto
    show ?thesis
      using 1 True unfolding i by (subst find_valid_entry.simps) auto
  next
    case False
    then show ?thesis
      by (subst find_valid_entry.simps) auto
  qed
qed

section \<open>Live paths\<close>

definition live_at :: "Heap \<Rightarrow> u64 \<Rightarrow> nat \<Rightarrow> nat list set" where
  "live_at h r d = {path. length path = d \<and> indices_ok path \<and> walk (nodes h) r path \<noteq> 0}"

lemma live_paths_live_at: "live_paths h t = live_at h (l4_page_table t) 4"
  by (auto simp: live_paths_def live_at_def full_path_def lookup_def)

text \<open>The first path of a set above a bound, or none.\<close>

definition next_above :: "nat list set \<Rightarrow> int \<Rightarrow> nat list option \<Rightarrow> bool" where
  "next_above S k r = (case r of
     None \<Rightarrow> \<forall>y \<in> S. int (path_num y) \<le> k
   | Some x \<Rightarrow> x \<in> S \<and> k < int (path_num x) \<and> (\<forall>y \<in> S. k < int (path_num y) \<longrightarrow> path_num x \<le> path_num y))"

text \<open>The iterator's assumptions on the heap, for one root.\<close>

definition walkable :: "Heap \<Rightarrow> u64 \<Rightarrow> bool" where
  "walkable h r \<longleftrightarrow> heap_ok h \<and> root_ok h r \<and> uppers_nonempty h"

lemma walkable_root:
  assumes "walkable h r"
  obtains n where "nodes h r = Some n" "level n = Four" "upper_level n = 0" "r \<noteq> 0"
  using assms heap_ok_nonzero by (auto simp: walkable_def root_ok_def)

lemma live_snoc:
  assumes "walkable h r" "length xs = d"
  shows "xs @ [i] \<in> live_at h r (Suc d) \<longleftrightarrow>
    xs \<in> live_at h r d \<and> i < ENTRY_COUNT \<and> (\<exists>u. nodes h (walk (nodes h) r xs) = Some u \<and> entries u i \<noteq> 0)"
proof -
  obtain n where "r \<noteq> 0"
    using walkable_root [OF assms(1)] by blast
  then show ?thesis
    using assms(2) by (auto simp: live_at_def walk_snoc split: option.splits if_splits)
qed

lemma live_snocE:
  assumes "z \<in> live_at h r (Suc d)" "walkable h r"
  obtains xs i u where "z = xs @ [i]" "xs \<in> live_at h r d" "i < ENTRY_COUNT"
    "nodes h (walk (nodes h) r xs) = Some u" "entries u i \<noteq> 0" "length xs = d"
proof -
  from assms(1) obtain xs i where z: "z = xs @ [i]" "length xs = d"
    by (cases z rule: rev_cases) (auto simp: live_at_def)
  then show thesis
    using assms(1) live_snoc [OF assms(2) z(2), of i] that by blast
qed

lemma live_node:
  assumes "walkable h r" "xs \<in> live_at h r d" "d < 4"
  obtains u where "nodes h (walk (nodes h) r xs) = Some u" "level_num (level u) = 4 - d"
    "d \<noteq> 0 \<Longrightarrow> upper_level u \<noteq> 0" "\<And>i. entries u i \<noteq> 0 \<Longrightarrow> walk (nodes h) r (xs @ [i]) = entries u i"
proof -
  obtain n where n: "nodes h r = Some n" "level n = Four" "r \<noteq> 0"
    using walkable_root [OF assms(1)] by blast
  have ok: "heap_ok h"
    using assms(1) by (simp add: walkable_def)
  from walk_node [OF ok n(1), of xs] assms n obtain u where
    u: "nodes h (walk (nodes h) r xs) = Some u" "level_num (level u) = 4 - d"
    by (auto simp: live_at_def)
  have "upper_level u \<noteq> 0" if "d \<noteq> 0"
  proof -
    from that assms(2) obtain ys i where xs: "xs = ys @ [i]"
      by (cases xs rule: rev_cases) (auto simp: live_at_def)
    with walk_last [OF ok n(1), of ys i] assms n u show ?thesis
      by (auto simp: live_at_def)
  qed
  moreover have "walk (nodes h) r (xs @ [i]) = entries u i" if "entries u i \<noteq> 0" for i
    using n(3) u(1) assms(2) by (simp add: walk_snoc live_at_def)
  ultimately show thesis
    using that u by blast
qed

section \<open>One step in a node and from node to node\<close>

abbreviation position :: "nat list \<Rightarrow> int \<Rightarrow> int" where
  "position xs idx \<equiv> int (path_num xs) * int ENTRY_COUNT + idx"

text \<open>The entries of a node at \<open>xs\<close> that come after \<open>idx\<close>.\<close>

definition scan_after :: "PageTable \<Rightarrow> int \<Rightarrow> nat option" where
  "scan_after u idx = (if idx + 1 \<ge> int ENTRY_COUNT then None else find_valid_entry u (nat (idx + 1)))"

lemma scan_after_Some:
  "-1 \<le> idx \<Longrightarrow> scan_after u idx = Some j \<longleftrightarrow>
     idx < int j \<and> j < ENTRY_COUNT \<and> entries u j \<noteq> 0 \<and> (\<forall>k. idx < int k \<and> k < j \<longrightarrow> entries u k = 0)"
  by (auto simp: scan_after_def find_valid_entry_Some nat_le_iff)

lemma scan_after_None:
  "-1 \<le> idx \<Longrightarrow> scan_after u idx = None \<longleftrightarrow> (\<forall>k. idx < int k \<and> k < ENTRY_COUNT \<longrightarrow> entries u k = 0)"
  by (auto simp: scan_after_def find_valid_entry_None nat_le_iff)

lemma position_less_snoc:
  assumes "-1 \<le> idx" "idx < int ENTRY_COUNT" "j < ENTRY_COUNT"
  shows "position xs idx < int (path_num (ys @ [j])) \<longleftrightarrow>
    path_num xs < path_num ys \<or> path_num xs = path_num ys \<and> idx < int j"
  using assms by (cases "path_num xs" "path_num ys" rule: linorder_cases) auto

lemma live_same_num:
  assumes "xs \<in> live_at h r d" "ys \<in> live_at h r d" "path_num xs = path_num ys"
  shows "xs = ys"
  using assms path_num_inject by (auto simp: live_at_def)

lemma next_in_node:
  assumes "walkable h r" "xs \<in> live_at h r d" "nodes h (walk (nodes h) r xs) = Some u"
    and "-1 \<le> idx" "idx < int ENTRY_COUNT" "scan_after u idx = Some j"
  shows "next_above (live_at h r (Suc d)) (position xs idx) (Some (xs @ [j]))"
proof -
  have len: "length xs = d"
    using assms(2) by (simp add: live_at_def)
  note j = assms(6) [unfolded scan_after_Some [OF assms(4)]]
  have "path_num (xs @ [j]) \<le> path_num y"
    if y: "y \<in> live_at h r (Suc d)" and above: "position xs idx < int (path_num y)" for y
  proof -
    from y assms(1) obtain ys k v where ys: "y = ys @ [k]" "ys \<in> live_at h r d" "k < ENTRY_COUNT"
      "nodes h (walk (nodes h) r ys) = Some v" "entries v k \<noteq> 0"
      by (rule live_snocE)
    from above consider "path_num xs < path_num ys" | "path_num xs = path_num ys" "idx < int k"
      unfolding ys position_less_snoc [OF assms(4,5) ys(3)] by blast
    then show ?thesis
    proof cases
      case 1
      then show ?thesis
        using path_num_less_snoc [of j k xs ys] j ys(1,3) by (simp add: less_imp_le)
    next
      case 2
      then have "ys = xs"
        using live_same_num [OF ys(2) assms(2)] by simp
      then have "v = u"
        using ys(4) assms(3) by simp
      with j ys(5) 2(2) have "\<not> k < j"
        by blast
      then show ?thesis
        by (simp add: ys(1) \<open>ys = xs\<close>)
    qed
  qed
  moreover have "xs @ [j] \<in> live_at h r (Suc d)"
    using live_snoc [OF assms(1) len] assms(2,3) j by blast
  moreover have "position xs idx < int (path_num (xs @ [j]))"
    using j by simp
  ultimately show ?thesis
    by (simp add: next_above_def)
qed

lemma skip_node:
  assumes "walkable h r" "xs \<in> live_at h r d" "nodes h (walk (nodes h) r xs) = Some u"
    and "-1 \<le> idx" "idx < int ENTRY_COUNT" "scan_after u idx = None"
    and "next_above (live_at h r d) (int (path_num xs)) o1" "y \<in> live_at h r (Suc d)"
  shows "position xs idx < int (path_num y) \<longleftrightarrow>
    (case o1 of None \<Rightarrow> False | Some xs' \<Rightarrow> position xs' (-1) < int (path_num y))"
proof -
  from assms(8,1) obtain ys k v where ys: "y = ys @ [k]" "ys \<in> live_at h r d" "k < ENTRY_COUNT"
    "nodes h (walk (nodes h) r ys) = Some v" "entries v k \<noteq> 0"
    by (rule live_snocE)
  have neq: "\<not> (path_num xs = path_num ys \<and> idx < int k)"
  proof
    assume eq: "path_num xs = path_num ys \<and> idx < int k"
    then have "ys = xs"
      using live_same_num [OF ys(2) assms(2)] by simp
    with ys(3,4,5) assms(3) eq assms(6) [unfolded scan_after_None [OF assms(4)]] show False
      by auto
  qed
  have lhs: "position xs idx < int (path_num y) \<longleftrightarrow> path_num xs < path_num ys"
    using neq unfolding ys(1) position_less_snoc [OF assms(4,5) ys(3)] by blast
  show ?thesis
  proof (cases o1)
    case None
    then have "path_num ys \<le> path_num xs"
      using assms(7) ys(2) by (auto simp: next_above_def)
    then show ?thesis
      unfolding lhs by (simp add: None)
  next
    case (Some xs')
    have "position xs' (-1) < int (path_num y) \<longleftrightarrow> path_num xs' \<le> path_num ys"
      using position_less_snoc [of "-1" k xs' ys] ys(3) by (simp add: ys(1) le_less)
    moreover have "path_num xs < path_num ys \<longleftrightarrow> path_num xs' \<le> path_num ys"
      using assms(7) ys(2) by (auto simp: next_above_def Some)
    ultimately show ?thesis
      unfolding lhs by (simp only: Some option.case)
  qed
qed

lemma next_above_cong:
  assumes "next_above S k' o1" "\<And>y. y \<in> S \<Longrightarrow> k < int (path_num y) \<longleftrightarrow> k' < int (path_num y)"
  shows "next_above S k o1"
  using assms by (auto simp: next_above_def not_less [symmetric] split: option.splits)

section \<open>The loops\<close>

lemma find_valid_scan: "find_valid_entry u (Suc i) = scan_after u (int i)" if "i < ENTRY_COUNT"
  using that by (auto simp: scan_after_def find_valid_entry_None nat_add_distrib)

lemma find_valid_scan0: "find_valid_entry u 0 = scan_after u (-1)"
  by (simp add: scan_after_def)

lemma nonempty_scan:
  assumes "walkable h r" "xs \<in> live_at h r d" "0 < d" "d < 3" "nodes h (walk (nodes h) r xs) = Some u"
  obtains j where "scan_after u (-1) = Some j"
proof -
  have d4: "d < 4"
    using assms(4) by simp
  obtain u' where u': "nodes h (walk (nodes h) r xs) = Some u'" "level_num (level u') = 4 - d"
    "d \<noteq> 0 \<Longrightarrow> upper_level u' \<noteq> 0"
    using live_node [OF assms(1,2) d4] by blast
  then have "u' = u" "level u \<noteq> One" "upper_level u \<noteq> 0"
    using assms(3,4,5) by auto
  then obtain i where "i < ENTRY_COUNT" "entries u i \<noteq> 0"
    using assms(1,5) by (auto simp: walkable_def uppers_nonempty_def)
  then have "scan_after u (-1) \<noteq> None"
    by (auto simp: scan_after_None)
  then show thesis
    using that by blast
qed

lemma next_neighbour:
  assumes "walkable h r"
  shows "xs \<in> live_at h r d \<Longrightarrow> d < 4 \<Longrightarrow> \<exists>o1.
    find_the_next_neighbour h (walk (nodes h) r xs) = Some (map_option (walk (nodes h) r) o1)
    \<and> next_above (live_at h r d) (int (path_num xs)) o1"
proof (induction d arbitrary: xs)
  case 0
  then have xs: "xs = []"
    by (simp add: live_at_def)
  obtain n where n: "nodes h r = Some n" "upper_level n = 0"
    using walkable_root [OF assms] by blast
  show ?case
    by (rule exI [of _ None], subst find_the_next_neighbour.simps)
      (simp add: xs n next_above_def live_at_def)
next
  case (Suc d)
  obtain ys i u where ys: "xs = ys @ [i]" "ys \<in> live_at h r d" "i < ENTRY_COUNT"
    "nodes h (walk (nodes h) r ys) = Some u" "entries u i \<noteq> 0" "length ys = d"
    using live_snocE [OF Suc.prems(1) assms] .
  obtain n where n: "nodes h r = Some n" "level n = Four" "r \<noteq> 0"
    using walkable_root [OF assms] by blast
  have "heap_ok h"
    using assms by (simp add: walkable_def)
  from walk_last [OF this n(1), of ys i] Suc.prems n ys obtain c where
    c: "nodes h (walk (nodes h) r xs) = Some c" "upper_level c = walk (nodes h) r ys"
      "upper_level_index c = i" "walk (nodes h) r ys \<noteq> 0"
    by (auto simp: live_at_def)
  have pos: "int (path_num xs) = position ys (int i)" and i: "-1 \<le> int i" "int i < int ENTRY_COUNT"
    using ys(1,3) by auto
  show ?case
  proof (cases "scan_after u (int i)")
    case (Some j)
    have "walk (nodes h) r (ys @ [j]) = entries u j"
      using n(3) c(4) ys(4) by (simp add: walk_snoc)
    then show ?thesis
      using next_in_node [OF assms ys(2,4) i Some] Some c ys(3,4)
      by (intro exI [of _ "Some (ys @ [j])"], subst find_the_next_neighbour.simps)
        (simp add: pos find_valid_scan del: path_num_simps)
  next
    case None
    have d: "d < 4"
      using Suc.prems(2) by simp
    from Suc.IH [OF ys(2) d] obtain o1 where
      o1: "find_the_next_neighbour h (walk (nodes h) r ys) = Some (map_option (walk (nodes h) r) o1)"
        "next_above (live_at h r d) (int (path_num ys)) o1"
      by blast
    note skip = skip_node [OF assms ys(2,4) i None o1(2)]
    show ?thesis
    proof (cases o1)
      case none: None
      have "next_above (live_at h r (Suc d)) (int (path_num xs)) None"
        using skip none by (simp add: next_above_def pos not_less [symmetric] del: path_num_simps)
      then show ?thesis
        using none o1(1) None c ys(3,4)
        by (intro exI [of _ None], subst find_the_next_neighbour.simps) (simp add: find_valid_scan)
    next
      case (Some zs)
      have zs: "zs \<in> live_at h r d" "path_num ys < path_num zs"
        using o1(2) Some by (auto simp: next_above_def)
      then have "0 < d" "d < 3"
        using ys(6) Suc.prems(2) by (auto simp: live_at_def intro: gr0I)
      obtain v where v: "nodes h (walk (nodes h) r zs) = Some v"
        "\<And>i. entries v i \<noteq> 0 \<Longrightarrow> walk (nodes h) r (zs @ [i]) = entries v i"
        using live_node [OF assms zs(1) d] by blast
      obtain j where j: "scan_after v (-1) = Some j"
        using nonempty_scan [OF assms zs(1) \<open>0 < d\<close> \<open>d < 3\<close> v(1)] .
      have "next_above (live_at h r (Suc d)) (position zs (-1)) (Some (zs @ [j]))"
        by (rule next_in_node [OF assms zs(1) v(1) _ _ j]) simp_all
      then have "next_above (live_at h r (Suc d)) (int (path_num xs)) (Some (zs @ [j]))"
        by (rule next_above_cong) (use skip Some pos in simp)
      moreover have "walk (nodes h) r (zs @ [j]) = entries v j"
        using v(2) j by (simp add: scan_after_Some)
      ultimately show ?thesis
        using Some o1(1) None c ys(3,4) v(1) j
        by (intro exI [of _ "Some (zs @ [j])"], subst find_the_next_neighbour.simps)
          (simp add: find_valid_scan find_valid_scan0 del: path_num_simps)
    qed
  qed
qed

definition first_of :: "nat list set \<Rightarrow> nat list \<Rightarrow> bool" where
  "first_of S x \<longleftrightarrow> x \<in> S \<and> (\<forall>y \<in> S. path_num x \<le> path_num y)"

lemma first_step:
  assumes "walkable h r" "first_of (live_at h r d) xs" "nodes h (walk (nodes h) r xs) = Some u"
    and "scan_after u (-1) = Some j"
  shows "first_of (live_at h r (Suc d)) (xs @ [j])"
proof -
  have xs: "xs \<in> live_at h r d"
    using assms(2) by (simp add: first_of_def)
  have nx: "next_above (live_at h r (Suc d)) (position xs (-1)) (Some (xs @ [j]))"
    by (rule next_in_node [OF assms(1) xs assms(3) _ _ assms(4)]) simp_all
  have "position xs (-1) < int (path_num y)" if y: "y \<in> live_at h r (Suc d)" for y
  proof -
    from y assms(1) obtain ys k u where ys: "y = ys @ [k]" "ys \<in> live_at h r d" "k < ENTRY_COUNT"
      by (rule live_snocE)
    then show ?thesis
      using position_less_snoc [of "-1" k xs ys] assms(2) by (auto simp: first_of_def le_less)
  qed
  then show ?thesis
    using nx by (auto simp: next_above_def first_of_def)
qed

lemma first_page:
  assumes "walkable h r"
  shows "first_of (live_at h r d) xs \<Longrightarrow> 0 < d \<Longrightarrow> d + k = 3 \<Longrightarrow>
    \<exists>zs. find_the_first_level_one_page h (walk (nodes h) r xs) = Some (Some (walk (nodes h) r zs))
      \<and> first_of (live_at h r 3) zs"
proof (induction k arbitrary: d xs)
  case 0
  then have xs: "xs \<in> live_at h r 3" "d = 3"
    by (simp_all add: first_of_def)
  then obtain u where u: "nodes h (walk (nodes h) r xs) = Some u" "level_num (level u) = 1"
    using live_node [OF assms xs(1)] by auto
  then have "level u = One"
    by (cases "level u") auto
  then show ?case
    using 0 xs(2) u(1) by (subst find_the_first_level_one_page.simps) auto
next
  case (Suc k)
  have xs: "xs \<in> live_at h r d" and d: "d < 4" "d < 3"
    using Suc.prems by (simp_all add: first_of_def)
  obtain u where u: "nodes h (walk (nodes h) r xs) = Some u" "level_num (level u) = 4 - d"
    "\<And>i. entries u i \<noteq> 0 \<Longrightarrow> walk (nodes h) r (xs @ [i]) = entries u i"
    using live_node [OF assms xs d(1)] by blast
  obtain j where j: "scan_after u (-1) = Some j"
    using nonempty_scan [OF assms xs Suc.prems(2) d(2) u(1)] by blast
  have "level u \<noteq> One"
    using u(2) d(2) by auto
  moreover have "entries u j = walk (nodes h) r (xs @ [j])"
    using u(3) j by (simp add: scan_after_Some)
  ultimately show ?case
    using Suc.IH [OF first_step [OF assms Suc.prems(1) u(1) j]] Suc.prems(3) u(1) j
    by (subst find_the_first_level_one_page.simps) (simp add: find_valid_scan0)
qed

lemma iter_new_ok:
  assumes "walkable h (l4_page_table t)"
  shows "iter_new h t = Some None \<and> live_paths h t = {} \<or>
    (\<exists>zs. iter_new h t = Some (Some \<lparr>cur_page = walk (nodes h) (l4_page_table t) zs, cur_idx = -1\<rparr>)
       \<and> first_of (live_at h (l4_page_table t) 3) zs)"
proof -
  let ?r = "l4_page_table t"
  obtain n where n: "nodes h ?r = Some n" "level n = Four" "?r \<noteq> 0"
    using walkable_root [OF assms] by blast
  have root: "first_of (live_at h ?r 0) []"
    using n(3) by (simp add: first_of_def live_at_def)
  show ?thesis
  proof (cases "scan_after n (-1)")
    case None
    have "walk (nodes h) ?r (i # is) = 0" if "i < ENTRY_COUNT" for i "is"
      using None that n(1) by (simp add: scan_after_None)
    then have "live_paths h t = {}"
      by (auto simp: live_paths_def full_path_def lookup_def length_Suc_conv numeral_eq_Suc simp del: walk.simps)
    then show ?thesis
      using None n by (simp add: iter_new_def find_the_first_level_one_page.simps [of h ?r] find_valid_scan0)
  next
    case (Some j)
    then have "walk (nodes h) ?r [j] = entries n j"
      using n(1) by (simp add: scan_after_Some)
    moreover have "first_of (live_at h ?r 1) [j]"
      using first_step [OF assms root, of n j] n(1) Some by simp
    ultimately show ?thesis
      using first_page [OF assms, of 1 "[j]" 2] n Some
      by (auto simp: iter_new_def find_the_first_level_one_page.simps [of h ?r] find_valid_scan0)
  qed
qed

definition entry_of :: "Heap \<Rightarrow> u64 \<Rightarrow> nat list \<Rightarrow> PageEntry" where
  "entry_of h r path =
     \<lparr>pe_page = walk (nodes h) r (butlast path), pe_index = last path, pe_addr = walk (nodes h) r path\<rparr>"

definition iter_at :: "Heap \<Rightarrow> u64 \<Rightarrow> nat list \<Rightarrow> RemotePageTableIter" where
  "iter_at h r path = \<lparr>cur_page = walk (nodes h) r (butlast path), cur_idx = int (last path)\<rparr>"

lemma iter_next_scan:
  "nodes h (cur_page it) = Some u \<Longrightarrow> iter_next h it =
     (case scan_after u (cur_idx it) of
        Some idx \<Rightarrow> Some (Some \<lparr>pe_page = cur_page it, pe_index = idx, pe_addr = entries u idx\<rparr>, it\<lparr>cur_idx := int idx\<rparr>)
      | None \<Rightarrow> do { r \<leftarrow> find_the_next_neighbour h (cur_page it);
          (case r of
             None \<Rightarrow> Some (None, it\<lparr>cur_idx := -1\<rparr>)
           | Some next_page \<Rightarrow> iter_next h \<lparr>cur_page = next_page, cur_idx = -1\<rparr>) })"
  by (subst iter_next.simps) (simp add: scan_after_def)

lemma iter_next_ok:
  assumes "walkable h r"
  shows "xs \<in> live_at h r 3 \<Longrightarrow> -1 \<le> idx \<Longrightarrow> idx < int ENTRY_COUNT \<Longrightarrow> \<exists>o1 it.
    iter_next h \<lparr>cur_page = walk (nodes h) r xs, cur_idx = idx\<rparr> = Some (map_option (entry_of h r) o1, it)
    \<and> next_above (live_at h r 4) (position xs idx) o1
    \<and> (\<forall>y. o1 = Some y \<longrightarrow> it = iter_at h r y)"
proof (induction "ENTRY_COUNT ^ 3 - path_num xs" arbitrary: xs idx rule: less_induct)
  case less
  obtain u where u: "nodes h (walk (nodes h) r xs) = Some u"
    "\<And>i. entries u i \<noteq> 0 \<Longrightarrow> walk (nodes h) r (xs @ [i]) = entries u i"
    using live_node [OF assms less.prems(1)] by auto
  have four: "Suc 3 = 4"
    by simp
  show ?case
  proof (cases "scan_after u idx")
    case (Some j)
    then have "entries u j \<noteq> 0"
      using less.prems(2) by (simp add: scan_after_Some)
    then show ?thesis
      using next_in_node [OF assms less.prems(1) u(1) less.prems(2,3) Some] u Some
      by (intro exI [of _ "Some (xs @ [j])"]) (simp add: iter_next_scan entry_of_def iter_at_def four)
  next
    case None
    obtain o1 where o1: "find_the_next_neighbour h (walk (nodes h) r xs) = Some (map_option (walk (nodes h) r) o1)"
      "next_above (live_at h r 3) (int (path_num xs)) o1"
      using next_neighbour [OF assms less.prems(1)] by auto
    note skip = skip_node [OF assms less.prems(1) u(1) less.prems(2,3) None o1(2), unfolded four]
    show ?thesis
    proof (cases o1)
      case none: None
      have "next_above (live_at h r 4) (position xs idx) None"
        using skip none by (simp add: next_above_def not_less [symmetric])
      then show ?thesis
        using None none o1(1) u(1) by (intro exI [of _ None]) (simp add: iter_next_scan)
    next
      case (Some zs)
      have zs: "zs \<in> live_at h r 3" "path_num xs < path_num zs"
        using o1(2) Some by (auto simp: next_above_def)
      then have "path_num zs < ENTRY_COUNT ^ 3"
        using path_num_bound [of zs] by (simp add: live_at_def)
      with zs(2) have "ENTRY_COUNT ^ 3 - path_num zs < ENTRY_COUNT ^ 3 - path_num xs"
        by linarith
      from less.hyps [OF this zs(1), of "-1"] obtain o2 it where
        o2: "iter_next h \<lparr>cur_page = walk (nodes h) r zs, cur_idx = -1\<rparr> = Some (map_option (entry_of h r) o2, it)"
          "next_above (live_at h r 4) (position zs (-1)) o2" "\<forall>y. o2 = Some y \<longrightarrow> it = iter_at h r y"
        by auto
      have "next_above (live_at h r 4) (position xs idx) o2"
        by (rule next_above_cong [OF o2(2)]) (use skip Some in simp)
      then show ?thesis
        using None Some o1(1) u(1) o2 by (intro exI [of _ o2] exI [of _ it]) (simp add: iter_next_scan)
    qed
  qed
qed

lemma iter_collect_ok:
  assumes "walkable h r"
  shows "xs \<in> live_at h r 3 \<Longrightarrow> -1 \<le> idx \<Longrightarrow> idx < int ENTRY_COUNT \<Longrightarrow> \<exists>ys.
    iter_collect h \<lparr>cur_page = walk (nodes h) r xs, cur_idx = idx\<rparr> = Some (map (entry_of h r) ys)
    \<and> set ys = {y \<in> live_at h r 4. position xs idx < int (path_num y)}
    \<and> sorted_wrt (<) (map path_num ys)"
proof (induction "nat (int ENTRY_COUNT ^ 4 - position xs idx)" arbitrary: xs idx rule: less_induct)
  case less
  obtain o1 it where nx:
    "iter_next h \<lparr>cur_page = walk (nodes h) r xs, cur_idx = idx\<rparr> = Some (map_option (entry_of h r) o1, it)"
    "next_above (live_at h r 4) (position xs idx) o1" "\<forall>y. o1 = Some y \<longrightarrow> it = iter_at h r y"
    using iter_next_ok [OF assms less.prems] by blast
  show ?case
  proof (cases o1)
    case None
    then have "{y \<in> live_at h r 4. position xs idx < int (path_num y)} = {}"
      using nx(2) by (force simp: next_above_def)
    then show ?thesis
      using None nx(1) by (intro exI [of _ "[]"]) (simp add: iter_collect.simps [of h "\<lparr>cur_page = _, cur_idx = idx\<rparr>"])
  next
    case (Some y)
    have y: "y \<in> live_at h r (Suc 3)" "position xs idx < int (path_num y)"
      "\<And>z. z \<in> live_at h r 4 \<Longrightarrow> position xs idx < int (path_num z) \<Longrightarrow> path_num y \<le> path_num z"
      using nx(2) Some by (auto simp: next_above_def)
    obtain zs j u where zs: "y = zs @ [j]" "zs \<in> live_at h r 3" "j < ENTRY_COUNT" "length zs = 3"
      using live_snocE [OF y(1) assms] by blast
    have pos: "position zs (int j) = int (path_num y)"
      by (simp add: zs(1))
    have "path_num y < ENTRY_COUNT ^ 4"
      using path_num_bound [of y] y(1) by (simp add: live_at_def)
    then have bound: "int (path_num y) < int ENTRY_COUNT ^ 4"
      by (simp add: less_imp_of_nat_less del: power_numeral)
    have "nat (int ENTRY_COUNT ^ 4 - position zs (int j)) < nat (int ENTRY_COUNT ^ 4 - position xs idx)"
      using y(2) bound unfolding pos by linarith
    from less.hyps [OF this zs(2)] zs(3) obtain ys where
      ys: "iter_collect h \<lparr>cur_page = walk (nodes h) r zs, cur_idx = int j\<rparr> = Some (map (entry_of h r) ys)"
        "set ys = {z \<in> live_at h r 4. int (path_num y) < int (path_num z)}" "sorted_wrt (<) (map path_num ys)"
      unfolding pos by auto
    have it: "it = \<lparr>cur_page = walk (nodes h) r zs, cur_idx = int j\<rparr>"
      using nx(3) Some by (simp add: iter_at_def zs(1))
    have "iter_collect h \<lparr>cur_page = walk (nodes h) r xs, cur_idx = idx\<rparr> = Some (map (entry_of h r) (y # ys))"
      by (subst iter_collect.simps) (simp add: nx(1) Some it ys(1))
    moreover have "set (y # ys) = {z \<in> live_at h r 4. position xs idx < int (path_num z)}"
      using y ys(2) live_same_num [of y h r 4] by (auto simp: le_less)
    moreover have "sorted_wrt (<) (map path_num (y # ys))"
      using ys(2,3) by auto
    ultimately show ?thesis
      by blast
  qed
qed

text \<open>A table with one page, for concrete instances.\<close>

lemma one_page_table:
  obtains t' h' where "force_map four_level_indices heap8 table8 0x7f0000003000 0x6000 = Some (t', h')"
    "table_ok h' t'" "uppers_nonempty h'" "live_paths h' t' = {path_of four_level_indices 0x7f0000003000}"
    "lookup h' t' (path_of four_level_indices 0x7f0000003000) = 0x6000"
proof -
  let ?a = "0x7f0000003000" and ?X = four_level_indices
  have fp: "full_path (path_of ?X ?a)"
    by (rule path_of_full [OF four_level_in_range])
  from force_map_lookup [OF table8_ok(2) four_level_in_range table8_room refl, of ?a "0x6000"] obtain t' h' where
    f: "force_map ?X heap8 table8 ?a 0x6000 = Some (t', h')" "table_ok h' t'"
      "l4_page_table t' = l4_page_table table8" "uppers_nonempty heap8 \<longrightarrow> uppers_nonempty h'"
    and look: "\<And>r path. root_ok heap8 r \<Longrightarrow> full_path path \<Longrightarrow> root_ok h' r \<and> walk (nodes h') r path =
          (if r = l4_page_table table8 \<and> path = path_of ?X ?a then 0x6000 else walk (nodes heap8) r path)"
    by blast
  have l: "lookup h' t' path = (if path = path_of ?X ?a then 0x6000 else 0)" if "full_path path" for path
    using look [of "l4_page_table table8" path] that table8_empty [OF that] table8_ok(2) f(3)
    by (simp add: lookup_def table_ok_def)
  have live: "live_paths h' t' = {path_of ?X ?a}"
    using l fp by (auto simp: live_paths_def split: if_splits)
  show ?thesis
    using that [OF f(1,2) f(4) [rule_format, OF table8_ok(3)] live] l [OF fp] by simp
qed

section \<open>Properties\<close>

text \<open>C15: Iterating over a page table terminates and enumerates exactly its mapped pages, each once and
  in ascending order of page number: either there is nothing to iterate and no page is mapped, or
  the loop over the iterator returns the list of the entries of all mapped pages, each with the
  level-one node it lies in, its index there and its word.\<close>

theorem iter_enumerates:
  assumes "table_ok h t" "uppers_nonempty h"
  shows "(iter_new h t = Some None \<and> live_paths h t = {})
    \<or> (\<exists>it ys. iter_new h t = Some (Some it)
         \<and> iter_collect h it = Some (map (entry_of h (l4_page_table t)) ys)
         \<and> set ys = live_paths h t \<and> distinct ys \<and> sorted_wrt (<) (map path_num ys))"
proof -
  let ?r = "l4_page_table t"
  have w: "walkable h ?r"
    using assms by (simp add: walkable_def table_ok_def)
  from iter_new_ok [OF w] show ?thesis
  proof (elim disjE exE conjE)
    fix zs
    assume new: "iter_new h t = Some (Some \<lparr>cur_page = walk (nodes h) ?r zs, cur_idx = -1\<rparr>)"
      and first: "first_of (live_at h ?r 3) zs"
    then have zs: "zs \<in> live_at h ?r 3"
      by (simp add: first_of_def)
    obtain ys where ys:
      "iter_collect h \<lparr>cur_page = walk (nodes h) ?r zs, cur_idx = -1\<rparr> = Some (map (entry_of h ?r) ys)"
      "set ys = {y \<in> live_at h ?r 4. position zs (-1) < int (path_num y)}" "sorted_wrt (<) (map path_num ys)"
      using iter_collect_ok [OF w zs, of "-1"] by auto
    have "position zs (-1) < int (path_num y)" if y: "y \<in> live_at h ?r 4" for y
    proof -
      have "y \<in> live_at h ?r (Suc 3)"
        using y by simp
      from this w obtain xs k u where "y = xs @ [k]" "xs \<in> live_at h ?r 3" "k < ENTRY_COUNT"
        by (rule live_snocE)
      then show ?thesis
        using position_less_snoc [of "-1" k zs xs] first by (auto simp: first_of_def le_less)
    qed
    then have "set ys = live_paths h t"
      using ys(2) by (auto simp: live_paths_live_at)
    moreover have "distinct ys"
      using ys(3) by (meson distinct_map strict_sorted_iff)
    ultimately show ?thesis
      using new ys(1,3) by blast
  qed simp
qed

theorem iter_enumerates_witness:
  "\<exists>t' h' it e. force_map four_level_indices heap8 table8 0x7f0000003000 0x6000 = Some (t', h')
     \<and> iter_new h' t' = Some (Some it) \<and> iter_collect h' it = Some [e]
     \<and> pe_index e = 3 \<and> pe_addr e = 0x6000"
proof -
  let ?p = "path_of four_level_indices 0x7f0000003000"
  obtain t' h' where f: "force_map four_level_indices heap8 table8 0x7f0000003000 0x6000 = Some (t', h')"
    "table_ok h' t'" "uppers_nonempty h'" "live_paths h' t' = {?p}" "lookup h' t' ?p = 0x6000"
    by (rule one_page_table)
  from iter_enumerates [OF f(2,3), unfolded f(4)] obtain it ys where
    ys: "iter_new h' t' = Some (Some it)" "iter_collect h' it = Some (map (entry_of h' (l4_page_table t')) ys)"
      "set ys = {?p}" "distinct ys"
    by blast
  then have "iter_collect h' it = Some [entry_of h' (l4_page_table t') ?p]"
    using distinct_set_singleton [OF ys(4,3)] by simp
  moreover have "pe_addr (entry_of h' (l4_page_table t') ?p) = 0x6000"
    using f(5) by (simp add: entry_of_def lookup_def)
  moreover have "pe_index (entry_of h' (l4_page_table t') ?p) = 3"
    by (simp add: entry_of_def path_of_def four_level_indices_def)
  ultimately show ?thesis
    using f(1) ys(1) by blast
qed

end
