(* ===== verification/Descriptors.thy ===== *)
theory Descriptors
  imports Bytes_Mut
begin

text \<open>
  The process descriptors of mitosis/src/descriptors and their wire formats: the register,
  memory-area and machine descriptors (reg.rs, vma.rs, rdma.rs), the condensed page table of one
  area and the parent's descriptor (parent.rs), the hash page table (page_table.rs) and the
  generic pair (pair.rs). Registers are the kernel's \<open>pt_regs\<close>, a type parameter. The layouts of the
  structs that are copied as a whole are an argument.
\<close>

section \<open>Register, memory area and machine descriptors\<close>

record 'r RegDescriptor =
  others :: 'r
  rd_fs :: u64
  rd_gs :: u64

record VMADescriptor =
  vm_range :: "u64 \<times> u64"
  vm_flags :: u64
  vm_prot :: u64
  vm_is_anonymous :: bool

type_synonym ib_gid = "128 word"

record RDMADescriptor =
  service_id :: u64
  port_num :: u8
  gid :: ib_gid
  lid :: u16
  rkey :: u32
  dct_key :: u64
  dct_num :: u32
  mac_id :: u64

definition set_rkey :: "RDMADescriptor \<Rightarrow> u32 \<Rightarrow> RDMADescriptor" where
  "set_rkey d key = d\<lparr>rkey := key\<rparr>"

definition set_service_id :: "RDMADescriptor \<Rightarrow> u64 \<Rightarrow> RDMADescriptor" where
  "set_service_id d i = d\<lparr>service_id := i\<rparr>"

definition get_start :: "VMADescriptor \<Rightarrow> u64" where
  "get_start v = fst (vm_range v)"

definition get_end :: "VMADescriptor \<Rightarrow> u64" where
  "get_end v = snd (vm_range v)"

definition get_sz :: "VMADescriptor \<Rightarrow> u64 option" where
  "get_sz v = checked_sub (snd (vm_range v)) (fst (vm_range v))"

text \<open>The registers the comparison of \<open>StackRegisters\<close> looks at; the fields of \<open>pt_regs\<close> it does not read are in the record extension.\<close>

record pt_regs =
  r15 :: u64
  r14 :: u64
  r13 :: u64
  r12 :: u64
  r11 :: u64
  r10 :: u64
  r9 :: u64
  r8 :: u64
  ax :: u64
  cx :: u64
  dx :: u64
  di :: u64
  si :: u64
  sp :: u64
  ss :: u64
  rflags :: u64
  ip :: u64

definition regs_eq :: "'m pt_regs_scheme \<Rightarrow> 'm pt_regs_scheme \<Rightarrow> bool" where
  "regs_eq a b \<longleftrightarrow>
     r15 a = r15 b \<and> r14 a = r14 b \<and> r13 a = r13 b \<and> r12 a = r12 b \<and> r11 a = r11 b \<and> r10 a = r10 b
     \<and> r9 a = r9 b \<and> r8 a = r8 b \<and> ax a = ax b \<and> cx a = cx b \<and> dx a = dx b \<and> di a = di b
     \<and> si a = si b \<and> sp a = sp b \<and> ss a = ss b \<and> rflags a = rflags b \<and> ip a = ip b"

section \<open>The condensed page table\<close>

type_synonym CompactPageTable = "(u32 \<times> u64) list"

definition cpt_add_one :: "CompactPageTable \<Rightarrow> u32 \<Rightarrow> u64 \<Rightarrow> CompactPageTable" where
  "cpt_add_one t offset val = t @ [(offset, val)]"

definition table_len :: "CompactPageTable \<Rightarrow> nat" where
  "table_len t = length t"

definition cpt_buf_len :: "CompactPageTable \<Rightarrow> nat" where
  "cpt_buf_len t =
     (let base = size_of u64_layout + length t * (size_of u32_layout + size_of u64_layout)
      in if size_of u32_layout < size_of u64_layout \<and> table_len t mod 2 = 1
         then base + size_of u32_layout else base)"

text \<open>A copy at the cursor that must fit, and the cursor behind it.\<close>

definition put_at :: "'a layout \<Rightarrow> 'a \<Rightarrow> mem \<times> BytesMut \<Rightarrow> (mem \<times> BytesMut) option" where
  "put_at L v s = (case s of (m, cur) \<Rightarrow>
     (case memcpy_serialize_at L m cur 0 v of
        (m', Some sz) \<Rightarrow> map_option (Pair m') (truncate_header cur sz)
      | (_, None) \<Rightarrow> None))"

definition put_unaligned :: "'a layout \<Rightarrow> 'a \<Rightarrow> mem \<times> BytesMut \<Rightarrow> (mem \<times> BytesMut) option" where
  "put_unaligned L v s = (case s of (m, cur) \<Rightarrow>
     (case write_unaligned_at_head L m cur v of (m', sz) \<Rightarrow> map_option (Pair m') (truncate_header cur sz)))"

fun cpt_write_entries :: "CompactPageTable \<Rightarrow> mem \<times> BytesMut \<Rightarrow> (mem \<times> BytesMut) option" where
  "cpt_write_entries [] s = Some s"
| "cpt_write_entries ((offset, paddr) # es) s =
     do { s \<leftarrow> put_unaligned u32_layout offset s;
          s \<leftarrow> put_unaligned u64_layout paddr s;
          cpt_write_entries es s }"

definition cpt_serialize :: "mem \<Rightarrow> BytesMut \<Rightarrow> CompactPageTable \<Rightarrow> (mem \<times> bool) option" where
  "cpt_serialize m bytes t =
     (if bm_len bytes < cpt_buf_len t then Some (m, False)
      else do {
        cur \<leftarrow> truncate_header bytes 0;
        s \<leftarrow> put_at u64_layout (word_of_nat (length t)) (m, cur);
        s \<leftarrow> (if size_of u32_layout < size_of u64_layout \<and> table_len t mod 2 = 1
              then put_at u32_layout 0 s else Some s);
        (m, cur) \<leftarrow> cpt_write_entries t s;
        Some (m, True) })"

text \<open>A checked read at the cursor and the cursor behind it.\<close>

definition get_at :: "'a layout \<Rightarrow> 'a \<Rightarrow> mem \<Rightarrow> BytesMut \<Rightarrow> ('a \<times> BytesMut) option" where
  "get_at L old m cur =
     (case memcpy_deserialize L m cur old of
        (v, Some off) \<Rightarrow> map_option (Pair v) (truncate_header cur off)
      | (_, None) \<Rightarrow> None)"

definition get_unaligned :: "'a layout \<Rightarrow> mem \<Rightarrow> BytesMut \<Rightarrow> ('a \<times> BytesMut) option" where
  "get_unaligned L m cur =
     map_option (Pair (read_unaligned_at_head L m cur)) (truncate_header cur (size_of L))"

fun cpt_read_entries :: "mem \<Rightarrow> nat \<Rightarrow> BytesMut \<Rightarrow> (CompactPageTable \<times> BytesMut) option" where
  "cpt_read_entries m 0 cur = Some ([], cur)"
| "cpt_read_entries m (Suc n) cur =
     do { (virt, cur) \<leftarrow> get_unaligned u32_layout m cur;
          (phy, cur) \<leftarrow> get_unaligned u64_layout m cur;
          (rest, cur) \<leftarrow> cpt_read_entries m n cur;
          Some ((virt, phy) # rest, cur) }"

definition cpt_skip_pad :: "mem \<Rightarrow> nat \<Rightarrow> BytesMut \<Rightarrow> BytesMut option" where
  "cpt_skip_pad m count cur =
     (if size_of u32_layout < size_of u64_layout \<and> count mod 2 = 1
      then map_option snd (get_at u32_layout 0 m cur) else Some cur)"

definition cpt_deserialize :: "mem \<Rightarrow> BytesMut \<Rightarrow> CompactPageTable option" where
  "cpt_deserialize m bytes =
     do { cur \<leftarrow> truncate_header bytes 0;
          (count, cur) \<leftarrow> get_at u64_layout 0 m cur;
          cur \<leftarrow> cpt_skip_pad m (unat count) cur;
          (res, cur) \<leftarrow> cpt_read_entries m (unat count) cur;
          Some res }"

section \<open>The parent's descriptor\<close>

record 'r ParentDescriptor =
  pd_regs :: "'r RegDescriptor"
  pd_page_table :: "CompactPageTable list"
  pd_vma :: "VMADescriptor list"
  pd_machine_info :: RDMADescriptor

record 'r descriptor_layouts =
  reg_layout :: "'r RegDescriptor layout"
  vma_layout :: "VMADescriptor layout"
  rdma_layout :: "RDMADescriptor layout"

definition vma_pg_table_serialization_buf_len :: "'r ParentDescriptor \<Rightarrow> nat" where
  "vma_pg_table_serialization_buf_len d =
     foldl (\<lambda>result t. result + cpt_buf_len t) (size_of u64_layout) (pd_page_table d)"

definition parent_buf_len :: "'r descriptor_layouts \<Rightarrow> 'r ParentDescriptor \<Rightarrow> nat" where
  "parent_buf_len L d =
     serialization_buf_len_default (reg_layout L) (pd_regs d)
     + vma_pg_table_serialization_buf_len d
     + size_of u64_layout
     + length (pd_vma d) * size_of (vma_layout L)
     + serialization_buf_len_default (rdma_layout L) (pd_machine_info d)"

text \<open>
  The loop over the areas: descriptor, then its condensed table. The results of the nested
  \<open>serialize\<close> calls are not looked at; \<open>self.vma[i]\<close> panics when there are fewer areas than tables.
\<close>

fun parent_write_vmas ::
  "'r descriptor_layouts \<Rightarrow> CompactPageTable list \<Rightarrow> VMADescriptor list \<Rightarrow> mem \<times> BytesMut \<Rightarrow> (mem \<times> BytesMut) option" where
  "parent_write_vmas L [] vs s = Some s"
| "parent_write_vmas L (t # ts) [] s = None"
| "parent_write_vmas L (t # ts) (v # vs) (m, cur) =
     do { let (m, ok) = serialize_default (vma_layout L) m cur v;
          cur \<leftarrow> truncate_header cur (serialization_buf_len_default (vma_layout L) v);
          (m, ok) \<leftarrow> cpt_serialize m cur t;
          cur \<leftarrow> truncate_header cur (cpt_buf_len t);
          parent_write_vmas L ts vs (m, cur) }"

definition parent_serialize ::
  "'r descriptor_layouts \<Rightarrow> mem \<Rightarrow> BytesMut \<Rightarrow> 'r ParentDescriptor \<Rightarrow> (mem \<times> bool) option" where
  "parent_serialize L m bytes d =
     (if bm_len bytes < parent_buf_len L d then Some (m, False)
      else do {
        cur \<leftarrow> truncate_header bytes 0;
        let (m, ok) = serialize_default (reg_layout L) m cur (pd_regs d);
        cur \<leftarrow> truncate_header cur (serialization_buf_len_default (reg_layout L) (pd_regs d));
        s \<leftarrow> put_at u64_layout (word_of_nat (length (pd_page_table d))) (m, cur);
        require (length (pd_vma d) = length (pd_page_table d));
        (m, cur) \<leftarrow> parent_write_vmas L (pd_page_table d) (pd_vma d) s;
        let (m, ok) = serialize_default (rdma_layout L) m cur (pd_machine_info d);
        Some (m, True) })"

fun parent_read_vmas ::
  "'r descriptor_layouts \<Rightarrow> mem \<Rightarrow> nat \<Rightarrow> BytesMut \<Rightarrow> (VMADescriptor list \<times> CompactPageTable list \<times> BytesMut) option" where
  "parent_read_vmas L m 0 cur = Some ([], [], cur)"
| "parent_read_vmas L m (Suc n) cur =
     do { v \<leftarrow> deserialize_default (vma_layout L) m cur;
          cur \<leftarrow> truncate_header cur (serialization_buf_len_default (vma_layout L) v);
          t \<leftarrow> cpt_deserialize m cur;
          cur \<leftarrow> truncate_header cur (cpt_buf_len t);
          (vs, ts, cur) \<leftarrow> parent_read_vmas L m n cur;
          Some (v # vs, t # ts, cur) }"

definition parent_deserialize :: "'r descriptor_layouts \<Rightarrow> mem \<Rightarrow> BytesMut \<Rightarrow> 'r ParentDescriptor option" where
  "parent_deserialize L m bytes =
     do { cur \<leftarrow> truncate_header bytes 0;
          regs \<leftarrow> deserialize_default (reg_layout L) m cur;
          cur \<leftarrow> truncate_header cur (serialization_buf_len_default (reg_layout L) regs);
          (count, cur) \<leftarrow> get_at u64_layout 0 m cur;
          (vs, ts, cur) \<leftarrow> parent_read_vmas L m (unat count) cur;
          info \<leftarrow> deserialize_default (rdma_layout L) m cur;
          Some \<lparr>pd_regs = regs, pd_page_table = ts, pd_vma = vs, pd_machine_info = info\<rparr> }"

section \<open>The hash page table and pairs\<close>

text \<open>
  A hash map is a finite map; the order in which hashbrown iterates over it is the argument
  \<open>iter\<close>.
\<close>

type_synonym FlatPageTable = "u64 \<Rightarrow> u64 option"

definition flat_new :: FlatPageTable where
  "flat_new = Map.empty"

definition flat_add_one :: "FlatPageTable \<Rightarrow> u64 \<Rightarrow> u64 \<Rightarrow> FlatPageTable" where
  "flat_add_one t v p = t(v \<mapsto> p)"

definition flat_translate :: "FlatPageTable \<Rightarrow> u64 \<Rightarrow> u64 option" where
  "flat_translate t v = t v"

definition calculate_serialization_buf_len :: "nat \<Rightarrow> nat" where
  "calculate_serialization_buf_len len =
     (size_of u64_layout + size_of u64_layout) * len + size_of u64_layout"

fun flat_write_entries :: "(u64 \<times> u64) list \<Rightarrow> mem \<times> BytesMut \<Rightarrow> (mem \<times> BytesMut) option" where
  "flat_write_entries [] s = Some s"
| "flat_write_entries ((vaddr, paddr) # es) (m, cur) =
     (case memcpy_serialize_at u64_layout m cur 0 vaddr of
        (m, None) \<Rightarrow> None
      | (m, Some sz0) \<Rightarrow>
          (case memcpy_serialize_at u64_layout m cur sz0 paddr of
             (m, None) \<Rightarrow> None
           | (m, Some sz1) \<Rightarrow>
               do { cur \<leftarrow> truncate_header cur (sz0 + sz1);
                    flat_write_entries es (m, cur) }))"

definition flat_serialize ::
  "(FlatPageTable \<Rightarrow> (u64 \<times> u64) list) \<Rightarrow> mem \<Rightarrow> BytesMut \<Rightarrow> FlatPageTable \<Rightarrow> (mem \<times> bool) option" where
  "flat_serialize iter m bytes t =
     (if bm_len bytes < calculate_serialization_buf_len (card (dom t)) then Some (m, False)
      else do {
        cur \<leftarrow> truncate_header bytes 0;
        s \<leftarrow> put_at u64_layout (word_of_nat (card (dom t))) (m, cur);
        (m, cur) \<leftarrow> flat_write_entries (iter t) s;
        Some (m, True) })"

fun flat_read_entries :: "mem \<Rightarrow> nat \<Rightarrow> BytesMut \<Rightarrow> FlatPageTable \<Rightarrow> FlatPageTable option" where
  "flat_read_entries m 0 cur res = Some res"
| "flat_read_entries m (Suc n) cur res =
     (case memcpy_deserialize_at u64_layout m cur 0 0 of
        (_, None) \<Rightarrow> None
      | (virt, Some sz0) \<Rightarrow>
          (case memcpy_deserialize_at u64_layout m cur sz0 0 of
             (_, None) \<Rightarrow> None
           | (phy, Some sz1) \<Rightarrow>
               do { cur \<leftarrow> truncate_header cur (sz0 + sz1);
                    flat_read_entries m n cur (flat_add_one res virt phy) }))"

definition flat_deserialize :: "mem \<Rightarrow> BytesMut \<Rightarrow> FlatPageTable option" where
  "flat_deserialize m bytes =
     do { (count, cur) \<leftarrow> get_at u64_layout 0 m bytes;
          flat_read_entries m (unat count) cur flat_new }"

definition pair_serialize :: "('k \<times> 'v) layout \<Rightarrow> mem \<Rightarrow> BytesMut \<Rightarrow> 'k \<times> 'v \<Rightarrow> mem \<times> bool" where
  "pair_serialize L m bytes p =
     (if bm_len bytes < size_of L then (m, False) else (mem_write m (bm_ptr bytes) (to_raw L p), True))"

definition pair_deserialize :: "('k \<times> 'v) layout \<Rightarrow> mem \<Rightarrow> BytesMut \<Rightarrow> ('k \<times> 'v) option" where
  "pair_deserialize L m bytes =
     do { cur \<leftarrow> truncate_header bytes 0;
          off \<leftarrow> snd (memcpy_deserialize_at L m cur 0 (from_raw_bytes L []));
          Some (from_raw_bytes L (mem_read m (bm_ptr cur) (size_of L))) }"

section \<open>Writing\<close>

text \<open>The effect of writing a byte string at the cursor and moving behind it.\<close>

definition adv :: "u8 list \<Rightarrow> mem \<times> BytesMut \<Rightarrow> mem \<times> BytesMut" where
  "adv bs s = (mem_write (fst s) (bm_ptr (snd s)) bs,
     \<lparr>bm_ptr = bm_ptr (snd s) + length bs, bm_len = bm_len (snd s) - length bs\<rparr>)"

lemma adv_append: "adv cs (adv bs s) = adv (bs @ cs) s"
  by (simp add: adv_def mem_write_append add.assoc)

lemma adv_Nil [simp]: "adv [] s = s"
  by (cases s) (simp add: adv_def)

lemma adv_simps [simp]:
  "fst (adv bs s) = mem_write (fst s) (bm_ptr (snd s)) bs"
  "bm_ptr (snd (adv bs s)) = bm_ptr (snd s) + length bs"
  "bm_len (snd (adv bs s)) = bm_len (snd s) - length bs"
  by (simp_all add: adv_def)

lemma truncate_header_0 [simp]: "truncate_header b 0 = Some b"
  by (simp add: truncate_header_def)

lemma put_at_adv:
  "wf_layout L \<Longrightarrow> size_of L \<le> bm_len (snd s) \<Longrightarrow> put_at L v s = Some (adv (to_raw L v) s)"
  by (cases s) (simp add: put_at_def memcpy_serialize_at_def memcpy_serialize_def truncate_header_def
      adv_def layout_simps)

lemma put_unaligned_adv:
  "wf_layout L \<Longrightarrow> size_of L \<le> bm_len (snd s) \<Longrightarrow> put_unaligned L v s = Some (adv (to_raw L v) s)"
  by (cases s) (simp add: put_unaligned_def write_unaligned_at_head_def truncate_header_def
      adv_def layout_simps)

lemma serialize_default_adv:
  assumes "wf_layout L" "size_of L \<le> bm_len cur"
  shows "serialize_default L m cur v = (mem_write m (bm_ptr cur) (to_raw L v), True)"
    and "truncate_header cur (serialization_buf_len_default L v) = Some (snd (adv (to_raw L v) (m, cur)))"
  using assms
  by (simp_all add: serialize_default_def memcpy_serialize_def serialization_buf_len_default_def
      truncate_header_def adv_def layout_simps)

section \<open>Wire formats\<close>

definition entry_wire :: "u32 \<times> u64 \<Rightarrow> u8 list" where
  "entry_wire e = to_raw u32_layout (fst e) @ to_raw u64_layout (snd e)"

lemma entry_wire_pair: "entry_wire (a, b) = to_raw u32_layout a @ to_raw u64_layout b"
  by (simp add: entry_wire_def)

definition pad_wire :: "nat \<Rightarrow> u8 list" where
  "pad_wire n = (if n mod 2 = 1 then to_raw u32_layout 0 else [])"

definition cpt_wire :: "CompactPageTable \<Rightarrow> u8 list" where
  "cpt_wire t = to_raw u64_layout (word_of_nat (length t)) @ pad_wire (length t) @ concat (map entry_wire t)"

definition cpt_valid :: "CompactPageTable \<Rightarrow> bool" where
  "cpt_valid t \<longleftrightarrow> length t < 2 ^ 64"

lemma length_to_raw_u32 [simp]: "length (to_raw u32_layout v) = 4"
  by (simp add: wf_layout_length)

lemma length_to_raw_u64 [simp]: "length (to_raw u64_layout v) = 8"
  by (simp add: wf_layout_length)

lemma length_entry_wire [simp]: "length (entry_wire e) = 12"
  by (simp add: entry_wire_def)

lemma length_entries_wire [simp]: "length (concat (map entry_wire t)) = 12 * length t"
  by (induction t) simp_all

lemma length_cpt_wire [simp]: "length (cpt_wire t) = cpt_buf_len t"
  by (simp add: cpt_wire_def pad_wire_def cpt_buf_len_def table_len_def)

lemma cpt_write_entries_adv:
  "12 * length es \<le> bm_len (snd s) \<Longrightarrow> cpt_write_entries es s = Some (adv (concat (map entry_wire es)) s)"
proof (induction es s rule: cpt_write_entries.induct)
  case (2 offset paddr es s)
  have "put_unaligned u32_layout offset s = Some (adv (to_raw u32_layout offset) s)"
    by (rule put_unaligned_adv) (use 2 in simp_all)
  moreover have "put_unaligned u64_layout paddr (adv (to_raw u32_layout offset) s) =
      Some (adv (entry_wire (offset, paddr)) s)"
    by (subst put_unaligned_adv) (use 2 in \<open>simp_all add: adv_append entry_wire_def\<close>)
  ultimately show ?case
    using 2 by (simp add: adv_append)
qed simp

lemma cpt_serialize_adv:
  assumes "cpt_buf_len t \<le> bm_len b"
  shows "cpt_serialize m b t = Some (mem_write m (bm_ptr b) (cpt_wire t), True)"
proof -
  let ?c = "to_raw u64_layout (word_of_nat (length t))" and ?p = "pad_wire (length t)"
  have len: "8 + length ?p + 12 * length t \<le> bm_len b"
    using assms by (simp add: cpt_buf_len_def pad_wire_def table_len_def Let_def split: if_splits)
  have 1: "put_at u64_layout (word_of_nat (length t)) (m, b) = Some (adv ?c (m, b))"
    by (rule put_at_adv) (use len in simp_all)
  have 2: "(if size_of u32_layout < size_of u64_layout \<and> table_len t mod 2 = 1
      then put_at u32_layout 0 (adv ?c (m, b)) else Some (adv ?c (m, b))) = Some (adv (?c @ ?p) (m, b))"
    using len by (simp add: table_len_def pad_wire_def put_at_adv adv_append)
  have 3: "cpt_write_entries t (adv (?c @ ?p) (m, b)) = Some (adv (cpt_wire t) (m, b))"
    by (subst cpt_write_entries_adv) (use len in \<open>simp_all add: adv_append cpt_wire_def\<close>)
  have "\<not> bm_len b < cpt_buf_len t"
    using assms by simp
  then show ?thesis
    by (simp only: cpt_serialize_def if_False truncate_header_0 Option.bind.simps 1 2 3)
      (simp add: adv_def)
qed

section \<open>Reading\<close>

definition behind :: "nat \<Rightarrow> BytesMut \<Rightarrow> BytesMut" where
  "behind n b = \<lparr>bm_ptr = bm_ptr b + n, bm_len = bm_len b - n\<rparr>"

lemma behind_simps [simp]:
  "bm_ptr (behind n b) = bm_ptr b + n" "bm_len (behind n b) = bm_len b - n"
  by (simp_all add: behind_def)

lemma behind_behind: "behind k (behind n b) = behind (n + k) b"
  by (simp add: behind_def add.assoc)

lemma truncate_behind: "n \<le> bm_len b \<Longrightarrow> truncate_header b n = Some (behind n b)"
  by (simp add: truncate_header_def behind_def)

lemma get_at_has:
  "wf_layout L \<Longrightarrow> mem_has m (bm_ptr b) (to_raw L v) \<Longrightarrow> size_of L \<le> bm_len b \<Longrightarrow>
     get_at L old m b = Some (v, behind (size_of L) b)"
  by (simp add: get_at_def memcpy_deserialize_def truncate_behind pod_layout.read_has wf_layout_pod)

lemma get_unaligned_has:
  "wf_layout L \<Longrightarrow> mem_has m (bm_ptr b) (to_raw L v) \<Longrightarrow> size_of L \<le> bm_len b \<Longrightarrow>
     get_unaligned L m b = Some (v, behind (size_of L) b)"
  by (simp add: get_unaligned_def read_unaligned_at_head_def truncate_behind pod_layout.read_has wf_layout_pod)

lemma deserialize_default_has:
  "wf_layout L \<Longrightarrow> mem_has m (bm_ptr b) (to_raw L v) \<Longrightarrow> size_of L \<le> bm_len b \<Longrightarrow>
     deserialize_default L m b = Some v"
  by (simp add: deserialize_default_def memcpy_deserialize_def pod_layout.read_has wf_layout_pod)

lemma cpt_read_entries_has:
  "mem_has m (bm_ptr b) (concat (map entry_wire t)) \<Longrightarrow> 12 * length t \<le> bm_len b \<Longrightarrow>
     cpt_read_entries m (length t) b = Some (t, behind (12 * length t) b)"
proof (induction t arbitrary: b)
  case (Cons e t)
  obtain o1 p where e: "e = (o1, p)"
    by fastforce
  have h: "mem_has m (bm_ptr b) (to_raw u32_layout o1)"
    "mem_has m (bm_ptr b + 4) (to_raw u64_layout p)"
    "mem_has m (bm_ptr b + 12) (concat (map entry_wire t))"
    using Cons.prems(1) by (simp_all add: e entry_wire_pair mem_has_append add.assoc)
  have 1: "get_unaligned u32_layout m b = Some (o1, behind 4 b)"
    using get_unaligned_has [OF wf_u32_layout h(1)] Cons.prems(2) by simp
  have 2: "get_unaligned u64_layout m (behind 4 b) = Some (p, behind 12 b)"
    using get_unaligned_has [OF wf_u64_layout, of m "behind 4 b" p] h(2) Cons.prems(2)
    by (simp add: behind_behind)
  have 3: "cpt_read_entries m (length t) (behind 12 b) = Some (t, behind (12 + 12 * length t) b)"
    using Cons.IH [of "behind 12 b"] h(3) Cons.prems(2) by (simp add: behind_behind)
  show ?case
    by (simp add: 1 2 3 e)
qed (simp add: behind_def)

lemma cpt_skip_pad_has:
  "mem_has m (bm_ptr b) (pad_wire n) \<Longrightarrow> length (pad_wire n) \<le> bm_len b \<Longrightarrow>
     cpt_skip_pad m n b = Some (behind (length (pad_wire n)) b)"
  by (simp add: cpt_skip_pad_def pad_wire_def get_at_has behind_def split: if_splits)

text \<open>The head of a condensed table: its count, the padding, and where the entries start.\<close>

lemma cpt_head_has:
  assumes "cpt_valid t" "mem_has m (bm_ptr b) (cpt_wire t)" "cpt_buf_len t \<le> bm_len b"
  shows "get_at u64_layout 0 m b = Some (word_of_nat (length t), behind 8 b)"
    and "unat (word_of_nat (length t) :: u64) = length t"
    and "cpt_skip_pad m (length t) (behind 8 b) = Some (behind (8 + length (pad_wire (length t))) b)"
    and "mem_has m (bm_ptr b + 8 + length (pad_wire (length t))) (concat (map entry_wire t))"
    and "8 + length (pad_wire (length t)) + 12 * length t = cpt_buf_len t"
proof -
  have h: "mem_has m (bm_ptr b) (to_raw u64_layout (word_of_nat (length t)))"
    "mem_has m (bm_ptr b + 8) (pad_wire (length t))"
    "mem_has m (bm_ptr b + 8 + length (pad_wire (length t))) (concat (map entry_wire t))"
    using assms(2) by (simp_all add: cpt_wire_def mem_has_append add.assoc)
  show len: "8 + length (pad_wire (length t)) + 12 * length t = cpt_buf_len t"
    by (simp add: cpt_buf_len_def pad_wire_def table_len_def)
  show "get_at u64_layout 0 m b = Some (word_of_nat (length t), behind 8 b)"
    using get_at_has [OF wf_u64_layout h(1)] assms(3) len by simp
  show "unat (word_of_nat (length t) :: u64) = length t"
    using assms(1) by (simp add: cpt_valid_def unat_of_nat take_bit_nat_eq_self)
  show "cpt_skip_pad m (length t) (behind 8 b) = Some (behind (8 + length (pad_wire (length t))) b)"
    using cpt_skip_pad_has [of m "behind 8 b" "length t"] h(2) assms(3) len by (simp add: behind_behind)
  show "mem_has m (bm_ptr b + 8 + length (pad_wire (length t))) (concat (map entry_wire t))"
    by (rule h(3))
qed

lemma cpt_deserialize_has:
  assumes "cpt_valid t" "mem_has m (bm_ptr b) (cpt_wire t)" "cpt_buf_len t \<le> bm_len b"
  shows "cpt_deserialize m b = Some t"
  using cpt_head_has [OF assms] assms(3)
    cpt_read_entries_has [of m "behind (8 + length (pad_wire (length t))) b" t]
  by (simp add: cpt_deserialize_def add.assoc)

interpretation cpt: serializable cpt_serialize cpt_deserialize cpt_buf_len cpt_wire cpt_valid
  by unfold_locales (simp_all add: cpt_serialize_adv cpt_deserialize_has)

section \<open>The parent's descriptor on the wire\<close>

definition area_wire :: "'r descriptor_layouts \<Rightarrow> VMADescriptor \<times> CompactPageTable \<Rightarrow> u8 list" where
  "area_wire L a = to_raw (vma_layout L) (fst a) @ cpt_wire (snd a)"

lemma area_wire_pair: "area_wire L (v, t) = to_raw (vma_layout L) v @ cpt_wire t"
  by (simp add: area_wire_def)

definition parent_areas :: "'r ParentDescriptor \<Rightarrow> (VMADescriptor \<times> CompactPageTable) list" where
  "parent_areas d = zip (pd_vma d) (pd_page_table d)"

definition parent_wire :: "'r descriptor_layouts \<Rightarrow> 'r ParentDescriptor \<Rightarrow> u8 list" where
  "parent_wire L d =
     to_raw (reg_layout L) (pd_regs d)
     @ to_raw u64_layout (word_of_nat (length (pd_page_table d)))
     @ concat (map (area_wire L) (parent_areas d))
     @ to_raw (rdma_layout L) (pd_machine_info d)"

definition wf_layouts :: "'r descriptor_layouts \<Rightarrow> bool" where
  "wf_layouts L \<longleftrightarrow> wf_layout (reg_layout L) \<and> wf_layout (vma_layout L) \<and> wf_layout (rdma_layout L)"

definition parent_valid :: "'r descriptor_layouts \<Rightarrow> 'r ParentDescriptor \<Rightarrow> bool" where
  "parent_valid L d \<longleftrightarrow> wf_layouts L \<and> length (pd_vma d) = length (pd_page_table d)
     \<and> length (pd_page_table d) < 2 ^ 64 \<and> (\<forall>t \<in> set (pd_page_table d). cpt_valid t)"

definition areas_len :: "'r descriptor_layouts \<Rightarrow> (VMADescriptor \<times> CompactPageTable) list \<Rightarrow> nat" where
  "areas_len L as = sum_list (map (\<lambda>a. size_of (vma_layout L) + cpt_buf_len (snd a)) as)"

lemma length_areas_wire:
  "wf_layout (vma_layout L) \<Longrightarrow> length (concat (map (area_wire L) as)) = areas_len L as"
  by (induction as) (simp_all add: area_wire_def areas_len_def layout_simps)

lemma foldl_add_sum: "foldl (\<lambda>r t. r + f t) a ts = a + sum_list (map f ts)" for a :: nat
  by (induction ts arbitrary: a) simp_all

lemma areas_len_zip:
  "length vs = length ts \<Longrightarrow>
     areas_len L (zip vs ts) = length vs * size_of (vma_layout L) + sum_list (map cpt_buf_len ts)"
  by (induction vs ts rule: list_induct2) (simp_all add: areas_len_def)

lemma length_parent_wire:
  assumes "parent_valid L d"
  shows "parent_buf_len L d = length (parent_wire L d) + 8"
    and "length (parent_wire L d) =
      size_of (reg_layout L) + 8 + areas_len L (parent_areas d) + size_of (rdma_layout L)"
proof -
  have wf: "wf_layout (reg_layout L)" "wf_layout (vma_layout L)" "wf_layout (rdma_layout L)"
    and len: "length (pd_vma d) = length (pd_page_table d)"
    using assms by (simp_all add: parent_valid_def wf_layouts_def)
  show l: "length (parent_wire L d) =
      size_of (reg_layout L) + 8 + areas_len L (parent_areas d) + size_of (rdma_layout L)"
    by (simp add: parent_wire_def wf layout_simps length_areas_wire [OF wf(2)] del: length_concat)
  show "parent_buf_len L d = length (parent_wire L d) + 8"
    unfolding l by (simp add: parent_buf_len_def serialization_buf_len_default_def
        vma_pg_table_serialization_buf_len_def foldl_add_sum parent_areas_def areas_len_zip [OF len])
qed

lemma parent_write_vmas_adv:
  assumes "wf_layout (vma_layout L)" "length vs = length ts" "areas_len L (zip vs ts) \<le> bm_len (snd s)"
  shows "parent_write_vmas L ts vs s = Some (adv (concat (map (area_wire L) (zip vs ts))) s)"
  using assms(2,3)
proof (induction vs ts arbitrary: s rule: list_induct2)
  case (Cons v vs t ts)
  let ?V = "vma_layout L"
  obtain m cur where s: "s = (m, cur)"
    by fastforce
  have len: "size_of ?V + cpt_buf_len t + areas_len L (zip vs ts) \<le> bm_len cur"
    using Cons.prems by (simp add: areas_len_def s)
  let ?s = "adv (to_raw ?V v) (m, cur)"
  have v: "serialize_default ?V m cur v = (fst ?s, True)"
    "truncate_header cur (serialization_buf_len_default ?V v) = Some (snd ?s)"
    using serialize_default_adv [OF assms(1), of cur] len by simp_all
  let ?s' = "adv (cpt_wire t) ?s"
  have t: "cpt_serialize (fst ?s) (snd ?s) t = Some (fst ?s', True)"
    "truncate_header (snd ?s) (cpt_buf_len t) = Some (snd ?s')"
    using len by (simp_all add: cpt_serialize_adv adv_def truncate_header_def layout_simps assms(1))
  have "areas_len L (zip vs ts) \<le> bm_len (snd ?s')"
    using len by (simp add: layout_simps assms(1))
  then have r: "parent_write_vmas L ts vs ?s' = Some (adv (concat (map (area_wire L) (zip vs ts))) ?s')"
    by (rule Cons.IH)
  have "parent_write_vmas L (t # ts) (v # vs) s = parent_write_vmas L ts vs (fst ?s', snd ?s')"
    by (simp only: s parent_write_vmas.simps v t Let_def prod.case Option.bind.simps)
  also have "\<dots> = Some (adv (concat (map (area_wire L) (zip vs ts))) ?s')"
    by (simp only: prod.collapse r)
  finally show ?case
    by (simp only: adv_append area_wire_pair s zip_Cons_Cons list.map concat.simps append_assoc)
qed simp

lemma parent_serialize_adv:
  assumes "parent_valid L d" "parent_buf_len L d \<le> bm_len b"
  shows "parent_serialize L m b d = Some (mem_write m (bm_ptr b) (parent_wire L d), True)"
proof -
  let ?R = "reg_layout L" and ?D = "rdma_layout L"
  have wf: "wf_layout ?R" "wf_layout (vma_layout L)" "wf_layout ?D"
    and len: "length (pd_vma d) = length (pd_page_table d)"
    using assms(1) by (simp_all add: parent_valid_def wf_layouts_def)
  have room: "size_of ?R + 8 + areas_len L (parent_areas d) + size_of ?D + 8 \<le> bm_len b"
    using assms(2) length_parent_wire [OF assms(1)] by simp
  let ?r = "to_raw ?R (pd_regs d)" and ?n = "to_raw u64_layout (word_of_nat (length (pd_page_table d)))"
    and ?a = "concat (map (area_wire L) (parent_areas d))"
  have 1: "serialize_default ?R m b (pd_regs d) = (fst (adv ?r (m, b)), True)"
    "truncate_header b (serialization_buf_len_default ?R (pd_regs d)) = Some (snd (adv ?r (m, b)))"
    using serialize_default_adv [OF wf(1), of b] room by simp_all
  have 2: "put_at u64_layout (word_of_nat (length (pd_page_table d))) (fst (adv ?r (m, b)), snd (adv ?r (m, b))) =
      Some (adv (?r @ ?n) (m, b))"
    using room by (simp only: prod.collapse) (subst put_at_adv, simp_all add: layout_simps wf adv_append)
  have 3: "parent_write_vmas L (pd_page_table d) (pd_vma d) (adv (?r @ ?n) (m, b)) =
      Some (adv (?r @ ?n @ ?a) (m, b))"
    using parent_write_vmas_adv [OF wf(2) len, of "adv (?r @ ?n) (m, b)"] room
    by (simp add: layout_simps wf adv_append parent_areas_def)
  let ?s = "adv (?r @ ?n @ ?a) (m, b)"
  have 4: "serialize_default ?D (fst ?s) (snd ?s) (pd_machine_info d) = (fst (adv (to_raw ?D (pd_machine_info d)) ?s), True)"
    using serialize_default_adv(1) [OF wf(3), of "snd ?s" "fst ?s"] room
    by (simp add: layout_simps wf length_areas_wire del: length_concat)
  have "\<not> bm_len b < parent_buf_len L d"
    using assms(2) by simp
  then have "parent_serialize L m b d = Some (fst (adv (to_raw ?D (pd_machine_info d)) ?s), True)"
    using 3 4 by (cases ?s)
      (simp only: parent_serialize_def if_False truncate_header_0 Option.bind.simps 1 2 Let_def prod.case
        len require_simps simp_thms fst_conv snd_conv)
  then show ?thesis
    by (simp add: adv_append parent_wire_def del: adv_simps) simp
qed

lemma parent_read_vmas_has:
  assumes "wf_layout (vma_layout L)" "length vs = length ts" "\<forall>t \<in> set ts. cpt_valid t"
    and "mem_has m (bm_ptr b) (concat (map (area_wire L) (zip vs ts)))" "areas_len L (zip vs ts) \<le> bm_len b"
  shows "parent_read_vmas L m (length ts) b = Some (vs, ts, behind (areas_len L (zip vs ts)) b)"
  using assms(2-)
proof (induction vs ts arbitrary: b rule: list_induct2)
  case (Cons v vs t ts)
  let ?V = "vma_layout L"
  have len: "size_of ?V + cpt_buf_len t + areas_len L (zip vs ts) \<le> bm_len b"
    using Cons.prems by (simp add: areas_len_def)
  have h: "mem_has m (bm_ptr b) (to_raw ?V v)" "mem_has m (bm_ptr b + size_of ?V) (cpt_wire t)"
    "mem_has m (bm_ptr b + size_of ?V + cpt_buf_len t) (concat (map (area_wire L) (zip vs ts)))"
    using Cons.prems(2) by (simp_all add: area_wire_pair mem_has_append layout_simps assms(1) add.assoc)
  have 1: "deserialize_default ?V m b = Some v"
    "truncate_header b (serialization_buf_len_default ?V v) = Some (behind (size_of ?V) b)"
    using len deserialize_default_has [OF assms(1) h(1)]
    by (simp_all add: serialization_buf_len_default_def truncate_behind)
  have 2: "cpt_deserialize m (behind (size_of ?V) b) = Some t"
    "truncate_header (behind (size_of ?V) b) (cpt_buf_len t) = Some (behind (size_of ?V + cpt_buf_len t) b)"
    using len Cons.prems(1) h(2) by (simp_all add: cpt_deserialize_has truncate_behind behind_behind)
  have 3: "parent_read_vmas L m (length ts) (behind (size_of ?V + cpt_buf_len t) b) =
      Some (vs, ts, behind (size_of ?V + cpt_buf_len t + areas_len L (zip vs ts)) b)"
    using Cons.IH [of "behind (size_of ?V + cpt_buf_len t) b"] Cons.prems(1) h(3) len
    by (simp add: behind_behind add.assoc)
  show ?case
    by (simp add: 1 2 3) (simp add: areas_len_def)
qed (simp add: areas_len_def behind_def)

lemma parent_deserialize_has:
  assumes "parent_valid L d" "parent_buf_len L d \<le> bm_len b" "mem_has m (bm_ptr b) (parent_wire L d)"
  shows "parent_deserialize L m b = Some d"
proof -
  let ?R = "reg_layout L" and ?D = "rdma_layout L" and ?n = "length (pd_page_table d)"
  have wf: "wf_layout ?R" "wf_layout (vma_layout L)" "wf_layout ?D"
    and len: "length (pd_vma d) = ?n" "?n < 2 ^ 64" "\<forall>t \<in> set (pd_page_table d). cpt_valid t"
    using assms(1) by (simp_all add: parent_valid_def wf_layouts_def)
  let ?al = "areas_len L (zip (pd_vma d) (pd_page_table d))"
  have room: "size_of ?R + 8 + ?al + size_of ?D + 8 \<le> bm_len b"
    using assms(2) length_parent_wire [OF assms(1)] by (simp add: parent_areas_def)
  have h: "mem_has m (bm_ptr b) (to_raw ?R (pd_regs d))"
    "mem_has m (bm_ptr b + size_of ?R) (to_raw u64_layout (word_of_nat ?n))"
    "mem_has m (bm_ptr b + size_of ?R + 8) (concat (map (area_wire L) (zip (pd_vma d) (pd_page_table d))))"
    "mem_has m (bm_ptr b + size_of ?R + 8 + ?al) (to_raw ?D (pd_machine_info d))"
    using assms(3)
    by (simp_all add: parent_wire_def mem_has_append layout_simps wf add.assoc length_areas_wire parent_areas_def
        del: length_concat)
  have 1: "deserialize_default ?R m b = Some (pd_regs d)"
    "truncate_header b (serialization_buf_len_default ?R (pd_regs d)) = Some (behind (size_of ?R) b)"
    using room deserialize_default_has [OF wf(1) h(1)]
    by (simp_all add: serialization_buf_len_default_def truncate_behind)
  have 2: "get_at u64_layout 0 m (behind (size_of ?R) b) = Some (word_of_nat ?n, behind (size_of ?R + 8) b)"
    using get_at_has [OF wf_u64_layout, of m "behind (size_of ?R) b" "word_of_nat ?n" 0] h(2) room
    by (simp add: behind_behind)
  have n: "unat (word_of_nat ?n :: u64) = ?n"
    using len(2) by (simp add: unat_of_nat take_bit_nat_eq_self)
  have 3: "parent_read_vmas L m ?n (behind (size_of ?R + 8) b) =
      Some (pd_vma d, pd_page_table d, behind (size_of ?R + 8 + ?al) b)"
    using parent_read_vmas_has [OF wf(2) len(1,3), of m "behind (size_of ?R + 8) b"] h(3) room
    by (simp add: behind_behind add.assoc)
  have 4: "deserialize_default ?D m (behind (size_of ?R + 8 + ?al) b) = Some (pd_machine_info d)"
    using deserialize_default_has [OF wf(3), of m "behind (size_of ?R + 8 + ?al) b" "pd_machine_info d"] h(4) room
    by (simp add: add.assoc)
  show ?thesis
    by (simp add: parent_deserialize_def 1 2 3 4 n)
qed

interpretation parent: serializable "parent_serialize L" "parent_deserialize L" "parent_buf_len L"
  "parent_wire L" "parent_valid L" for L
  by unfold_locales (simp_all add: parent_serialize_adv parent_deserialize_has length_parent_wire)

section \<open>The hash page table and pairs on the wire\<close>

definition flat_entry_wire :: "u64 \<times> u64 \<Rightarrow> u8 list" where
  "flat_entry_wire e = to_raw u64_layout (fst e) @ to_raw u64_layout (snd e)"

lemma length_flat_entry [simp]: "length (flat_entry_wire e) = 16"
  by (simp add: flat_entry_wire_def)

lemma length_flat_entries [simp]: "length (concat (map flat_entry_wire es)) = 16 * length es"
  by (induction es) (simp_all add: flat_entry_wire_def)

definition flat_wire :: "(FlatPageTable \<Rightarrow> (u64 \<times> u64) list) \<Rightarrow> FlatPageTable \<Rightarrow> u8 list" where
  "flat_wire iter t = to_raw u64_layout (word_of_nat (card (dom t))) @ concat (map flat_entry_wire (iter t))"

text \<open>What hashbrown documents of iteration: every entry once, in some order.\<close>

definition iterates :: "(FlatPageTable \<Rightarrow> (u64 \<times> u64) list) \<Rightarrow> FlatPageTable \<Rightarrow> bool" where
  "iterates iter t \<longleftrightarrow> distinct (map fst (iter t)) \<and> map_of (iter t) = t \<and> length (iter t) < 2 ^ 64"

lemma iterates_card: "iterates iter t \<Longrightarrow> card (dom t) = length (iter t)"
  unfolding iterates_def by (metis distinct_card dom_map_of_conv_image_fst length_map set_map)

lemma flat_write_entries_adv:
  "16 * length es \<le> bm_len (snd s) \<Longrightarrow> flat_write_entries es s = Some (adv (concat (map flat_entry_wire es)) s)"
proof (induction es arbitrary: s)
  case (Cons e es)
  obtain v p m cur where e: "e = (v, p)" and s: "s = (m, cur)"
    by (metis prod.exhaust)
  have 1: "memcpy_serialize_at u64_layout m cur 0 v = (mem_write m (bm_ptr cur) (to_raw u64_layout v), Some 8)"
    and 2: "memcpy_serialize_at u64_layout (mem_write m (bm_ptr cur) (to_raw u64_layout v)) cur 8 p =
      (mem_write m (bm_ptr cur) (flat_entry_wire e), Some 8)"
    using Cons.prems mem_write_append [of m "bm_ptr cur" "to_raw u64_layout v" "to_raw u64_layout p"]
    by (simp_all add: s e memcpy_serialize_at_def memcpy_serialize_def truncate_header_def flat_entry_wire_def)
  have 3: "truncate_header cur (8 + 8) = Some (snd (adv (flat_entry_wire e) s))"
    using Cons.prems by (simp add: s truncate_header_def adv_def flat_entry_wire_def)
  have "flat_write_entries (e # es) s = flat_write_entries es (adv (flat_entry_wire e) s)"
    unfolding s e flat_write_entries.simps
    by (simp only: 1 2 [unfolded e] 3 [unfolded s e] prod.case option.case Option.bind.simps) (simp add: adv_def)
  also have "\<dots> = Some (adv (concat (map flat_entry_wire (e # es))) s)"
    using Cons.IH [of "adv (flat_entry_wire e) s"] Cons.prems by (simp add: adv_append)
  finally show ?case .
qed simp

lemma flat_read_entries_has:
  "mem_has m (bm_ptr b) (concat (map flat_entry_wire es)) \<Longrightarrow> 16 * length es \<le> bm_len b \<Longrightarrow>
     distinct (map fst es) \<Longrightarrow> flat_read_entries m (length es) b res = Some (res ++ map_of es)"
proof (induction es arbitrary: b res)
  case (Cons e es)
  obtain v p where e: "e = (v, p)"
    by fastforce
  have h: "mem_has m (bm_ptr b) (to_raw u64_layout v)" "mem_has m (bm_ptr b + 8) (to_raw u64_layout p)"
    "mem_has m (bm_ptr (behind 16 b)) (concat (map flat_entry_wire es))"
    using Cons.prems(1) by (simp_all add: e flat_entry_wire_def [of "(v, p)"] mem_has_append add.assoc)
  have 1: "memcpy_deserialize_at u64_layout m b 0 0 = (v, Some 8)"
    "memcpy_deserialize_at u64_layout m b 8 0 = (p, Some 8)"
    using h(1,2) Cons.prems(2)
    by (simp_all add: memcpy_deserialize_at_def memcpy_deserialize_def truncate_header_def u64l.read_has [simplified])
  have 2: "(res(v \<mapsto> p)) ++ map_of es = res ++ map_of (e # es)"
    using Cons.prems(3) map_of_eq_None_iff [of es v] by (auto simp: e map_add_def fun_eq_iff split: option.splits)
  have 3: "truncate_header b (8 + 8) = Some (behind 16 b)"
    using Cons.prems(2) by (simp add: truncate_behind)
  have "flat_read_entries m (length (e # es)) b res = flat_read_entries m (length es) (behind 16 b) (res(v \<mapsto> p))"
    by (simp only: list.size add_Suc_right add_0_right flat_read_entries.simps 1 3 prod.case option.case
        Option.bind.simps flat_add_one_def)
  also have "\<dots> = Some ((res(v \<mapsto> p)) ++ map_of es)"
    by (rule Cons.IH) (use h(3) Cons.prems(2,3) in simp_all)
  finally show ?case
    by (simp only: 2)
qed simp

interpretation flat: serializable "flat_serialize iter" flat_deserialize
  "\<lambda>t. calculate_serialization_buf_len (card (dom t))" "flat_wire iter" "iterates iter" for iter
proof unfold_locales
  fix t m and b :: BytesMut
  assume v: "iterates iter t" and room: "calculate_serialization_buf_len (card (dom t)) \<le> bm_len b"
  have len: "8 + 16 * length (iter t) \<le> bm_len b"
    using room by (simp add: calculate_serialization_buf_len_def iterates_card [OF v])
  let ?c = "to_raw u64_layout (word_of_nat (card (dom t)))"
  have 1: "put_at u64_layout (word_of_nat (card (dom t))) (m, b) = Some (adv ?c (m, b))"
    by (rule put_at_adv) (use len in simp_all)
  have 2: "flat_write_entries (iter t) (adv ?c (m, b)) = Some (adv (flat_wire iter t) (m, b))"
    by (subst flat_write_entries_adv) (use len in \<open>simp_all add: adv_append flat_wire_def\<close>)
  have "\<not> bm_len b < calculate_serialization_buf_len (card (dom t))"
    using room by simp
  then show "flat_serialize iter m b t = Some (mem_write m (bm_ptr b) (flat_wire iter t), True)"
    by (simp only: flat_serialize_def if_False truncate_header_0 Option.bind.simps 1 2) (simp add: adv_def)
  assume has: "mem_has m (bm_ptr b) (flat_wire iter t)"
  have n: "unat (word_of_nat (length (iter t)) :: u64) = length (iter t)"
    using v by (simp add: iterates_def unat_of_nat take_bit_nat_eq_self)
  have "get_at u64_layout 0 m b = Some (word_of_nat (card (dom t)), behind 8 b)"
    using get_at_has [OF wf_u64_layout, of m b] has len by (simp add: flat_wire_def mem_has_append)
  then show "flat_deserialize m b = Some t"
    using flat_read_entries_has [of m "behind 8 b" "iter t" flat_new] has len v n
    by (simp add: flat_deserialize_def iterates_card [OF v] flat_new_def flat_wire_def mem_has_append iterates_def)
next
  show "iterates iter t \<Longrightarrow> length (flat_wire iter t) \<le> calculate_serialization_buf_len (card (dom t))" for t
    by (simp add: flat_wire_def calculate_serialization_buf_len_def iterates_card)
qed

interpretation pair: serializable "\<lambda>m b v. Some (pair_serialize L m b v)" "pair_deserialize L" "\<lambda>_. size_of L"
  "to_raw L" "\<lambda>_. wf_layout L" for L :: "('k \<times> 'v) layout"
  by unfold_locales
    (simp_all add: pair_serialize_def pair_deserialize_def memcpy_deserialize_at_def memcpy_deserialize_def
      layout_simps pod_layout.read_has wf_layout_pod)

section \<open>A packed layout\<close>

text \<open>One layout a compiler could choose: the fields in order, without padding.\<close>

definition word_layout :: "'a::len word layout" where
  "word_layout = \<lparr>size_of = LENGTH('a) div 8, to_raw = word_to_le, from_raw_bytes = le_to_word\<rparr>"

definition bool_layout :: "bool layout" where
  "bool_layout = \<lparr>size_of = 1, to_raw = (\<lambda>b. [if b then 1 else 0]), from_raw_bytes = (\<lambda>bs. hd bs = 1)\<rparr>"

lemma wf_word_layout: "8 dvd LENGTH('a) \<Longrightarrow> wf_layout (word_layout :: 'a::len word layout)"
  by (simp add: wf_layout_def word_layout_def le_to_word_to_le)

lemma wf_bool_layout: "wf_layout bool_layout"
  by (simp add: wf_layout_def bool_layout_def)

definition packed_layouts :: "u64 descriptor_layouts" where
  "packed_layouts =
     \<lparr>reg_layout = struct_layout (\<lambda>r. (others r, rd_fs r, rd_gs r)) (\<lambda>(a, b, c). \<lparr>others = a, rd_fs = b, rd_gs = c\<rparr>)
        (pair_layout u64_layout (pair_layout u64_layout u64_layout)),
      vma_layout = struct_layout (\<lambda>v. (fst (vm_range v), snd (vm_range v), vm_flags v, vm_prot v, vm_is_anonymous v))
        (\<lambda>(a, b, c, d, e). \<lparr>vm_range = (a, b), vm_flags = c, vm_prot = d, vm_is_anonymous = e\<rparr>)
        (pair_layout u64_layout (pair_layout u64_layout (pair_layout u64_layout (pair_layout u64_layout bool_layout)))),
      rdma_layout = struct_layout
        (\<lambda>d. (service_id d, port_num d, gid d, lid d, rkey d, dct_key d, dct_num d, mac_id d))
        (\<lambda>(a, b, c, d, e, f, g, h). \<lparr>service_id = a, port_num = b, gid = c, lid = d, rkey = e, dct_key = f, dct_num = g, mac_id = h\<rparr>)
        (pair_layout word_layout (pair_layout word_layout (pair_layout word_layout (pair_layout word_layout
          (pair_layout word_layout (pair_layout word_layout (pair_layout word_layout word_layout)))))))\<rparr>"

lemma wf_packed_layouts: "wf_layouts packed_layouts"
  by (simp add: wf_layouts_def packed_layouts_def wf_struct_layout wf_pair_layout wf_word_layout wf_bool_layout)

definition sample_vma :: VMADescriptor where
  "sample_vma = \<lparr>vm_range = (0x400000, 0x403000), vm_flags = 3, vm_prot = 0x25, vm_is_anonymous = True\<rparr>"

definition sample_parent :: "u64 ParentDescriptor" where
  "sample_parent =
     \<lparr>pd_regs = \<lparr>others = 7, rd_fs = 8, rd_gs = 9\<rparr>,
      pd_page_table = [[(0, 0x7000), (0x2000, 0x9004), (0x1000, 0x8000)]],
      pd_vma = [sample_vma],
      pd_machine_info = \<lparr>service_id = 0, port_num = 1, gid = 5, lid = 2, rkey = 3, dct_key = 4, dct_num = 6, mac_id = 1\<rparr>\<rparr>"

lemma sample_parent_valid: "parent_valid packed_layouts sample_parent"
  by (simp add: parent_valid_def wf_packed_layouts sample_parent_def cpt_valid_def)

lemma sample_parent_len: "parent_buf_len packed_layouts sample_parent = 172"
  by (simp add: parent_buf_len_def packed_layouts_def sample_parent_def serialization_buf_len_default_def
      vma_pg_table_serialization_buf_len_def cpt_buf_len_def table_len_def struct_layout_def pair_layout_def
      word_layout_def bool_layout_def)

section \<open>Properties\<close>

text \<open>C20: A parent's descriptor survives the trip: into a buffer of at least \<open>serialization_buf_len\<close> bytes
  \<open>serialize\<close> succeeds without a panic, \<open>deserialize\<close> of that buffer returns the same registers,
  areas, page tables and machine information, and no byte outside the buffer changes. A smaller
  buffer is refused and left as it is.\<close>

theorem parent_round_trip:
  assumes "parent_valid L d"
  shows "(parent_buf_len L d \<le> bm_len b \<longrightarrow> (\<exists>m'. parent_serialize L m b d = Some (m', True)
      \<and> parent_deserialize L m' b = Some d
      \<and> (\<forall>a. a < bm_ptr b \<or> bm_ptr b + bm_len b \<le> a \<longrightarrow> m' a = m a)))
    \<and> (bm_len b < parent_buf_len L d \<longrightarrow> parent_serialize L m b d = Some (m, False))"
proof -
  have "parent_deserialize L m' b = Some d \<and> (\<forall>a. a < bm_ptr b \<or> bm_ptr b + bm_len b \<le> a \<longrightarrow> m' a = m a)"
    if "parent_buf_len L d \<le> bm_len b" "parent_serialize L m b d = Some (m', True)" for m'
    using parent.round_trip [OF assms that] parent.frame [OF assms that] by blast
  then show ?thesis
    using parent_serialize_adv [OF assms] by (auto simp: parent_serialize_def)
qed

theorem parent_round_trip_witness:
  "\<exists>m'. parent_serialize packed_layouts (\<lambda>_. 0) (from_raw 4096 200) sample_parent = Some (m', True)
     \<and> parent_deserialize packed_layouts m' (from_raw 4096 200) = Some sample_parent"
  using parent_round_trip [OF sample_parent_valid, of "from_raw 4096 200" "\<lambda>_. 0"]
  by (auto simp: sample_parent_len from_raw_def)

text \<open>The announced buffer length is 8 bytes more than the descriptor occupies: the count of the areas,
  written once, is accounted for twice.\<close>

theorem parent_buf_len_slack:
  assumes "parent_valid L d" "parent_buf_len L d \<le> bm_len b"
  shows "parent_serialize L m b d = Some (mem_write m (bm_ptr b) (parent_wire L d), True)
    \<and> parent_buf_len L d = length (parent_wire L d) + 8"
  using parent_serialize_adv [OF assms] length_parent_wire(1) [OF assms(1)] by blast

theorem parent_buf_len_slack_witness:
  "length (parent_wire packed_layouts sample_parent) = 164"
  using parent_buf_len_slack [OF sample_parent_valid, of "from_raw 0 200" "\<lambda>_. 0"]
  by (simp add: sample_parent_len from_raw_def)

text \<open>A hash page table survives the trip whatever the order in which the hash map is iterated.\<close>

theorem flat_round_trip:
  assumes "iterates iter t" "calculate_serialization_buf_len (card (dom t)) \<le> bm_len b"
  shows "\<exists>m'. flat_serialize iter m b t = Some (m', True) \<and> flat_deserialize m' b = Some t"
  using flat.ser_writes [OF assms] flat.round_trip [OF assms] by blast

theorem flat_round_trip_witness:
  "\<exists>m'. flat_serialize (\<lambda>_. [(2, 20), (1, 10)]) (\<lambda>_. 0) (from_raw 0 64) [1 \<mapsto> 10, 2 \<mapsto> 20] = Some (m', True)
     \<and> flat_deserialize m' (from_raw 0 64) = Some [1 \<mapsto> 10, 2 \<mapsto> 20]"
proof (rule flat_round_trip)
  show "iterates (\<lambda>_. [(2, 20), (1, 10)]) [1 \<mapsto> 10, 2 \<mapsto> 20]"
    by (auto simp: iterates_def fun_eq_iff)
  have "card (dom [1 :: u64 \<mapsto> 10 :: u64, 2 \<mapsto> 20]) = 2"
    by simp
  then show "calculate_serialization_buf_len (card (dom [1 :: u64 \<mapsto> 10 :: u64, 2 \<mapsto> 20])) \<le> bm_len (from_raw 0 64)"
    by (simp add: calculate_serialization_buf_len_def from_raw_def)
qed

text \<open>Two register sets compare equal exactly when the 17 named registers agree; the other fields of
  \<open>pt_regs\<close> play no role.\<close>

theorem regs_eq_named: "regs_eq a b \<longleftrightarrow> pt_regs.truncate a = pt_regs.truncate b"
  by (auto simp: regs_eq_def pt_regs.truncate_def)

end
