(* ===== verification/Child_Descriptor.thy ===== *)
theory Child_Descriptor
  imports Descriptors Page_Table_Map
begin

text \<open>
  The child's side of a descriptor (mitosis/src/descriptors/child.rs): the deserialiser that
  builds the remote page table straight from the parent's bytes, and the reference conversion
  \<open>ParentDescriptor::to_descriptor\<close> (parent.rs). \<open>C\<close> tells which addresses \<open>VirtAddr::new\<close> of the crate
  x86_64 accepts (it panics on the others), \<open>X\<close> gives the table indices of an address. The outer
  \<^term>\<open>None\<close> is a panic, the inner one the result \<open>None\<close> of the code.
\<close>

section \<open>Building the page table\<close>

record 'r ChildDescriptor =
  cd_regs :: "'r RegDescriptor"
  cd_page_table :: RemotePageTable
  cd_vma :: "VMADescriptor list"
  cd_machine_info :: RDMADescriptor

type_synonym table_state = "RemotePageTable \<times> Heap"

text \<open>\<open>pt.map(VirtAddr::new(offset as u64 + start), PhysAddr::new(phy))\<close>; its result is not looked at.\<close>

definition map_one :: "(u64 \<Rightarrow> bool) \<Rightarrow> page_indices \<Rightarrow> u64 \<Rightarrow> u32 \<times> u64 \<Rightarrow> table_state \<Rightarrow> table_state option" where
  "map_one C X start e s =
     do { a \<leftarrow> checked_add (ucast (fst e)) start;
          require (C a);
          map_option snd (rpt_map X (snd s) (fst s) a (snd e)) }"

fun map_entries :: "(u64 \<Rightarrow> bool) \<Rightarrow> page_indices \<Rightarrow> u64 \<Rightarrow> CompactPageTable \<Rightarrow> table_state \<Rightarrow> table_state option" where
  "map_entries C X start [] s = Some s"
| "map_entries C X start (e # es) s = do { s \<leftarrow> map_one C X start e s; map_entries C X start es s }"

text \<open>The loop of \<open>to_descriptor\<close>; \<open>self.vma[vma_idx]\<close> panics when there are fewer areas than tables.\<close>

fun map_areas :: "(u64 \<Rightarrow> bool) \<Rightarrow> page_indices \<Rightarrow> CompactPageTable list \<Rightarrow> VMADescriptor list \<Rightarrow> table_state \<Rightarrow> table_state option" where
  "map_areas C X [] vs s = Some s"
| "map_areas C X (t # ts) [] s = None"
| "map_areas C X (t # ts) (v # vs) s = do { s \<leftarrow> map_entries C X (get_start v) t s; map_areas C X ts vs s }"

definition to_descriptor ::
  "(u64 \<Rightarrow> bool) \<Rightarrow> page_indices \<Rightarrow> Heap \<Rightarrow> 'r ParentDescriptor \<Rightarrow> ('r ChildDescriptor \<times> Heap) option" where
  "to_descriptor C X h d =
     do { s \<leftarrow> rpt_new h;
          (t, h) \<leftarrow> map_areas C X (pd_page_table d) (pd_vma d) s;
          Some (\<lparr>cd_regs = pd_regs d, cd_page_table = t, cd_vma = pd_vma d, cd_machine_info = pd_machine_info d\<rparr>, h) }"

section \<open>Deserialising\<close>

fun child_read_entries ::
  "(u64 \<Rightarrow> bool) \<Rightarrow> page_indices \<Rightarrow> mem \<Rightarrow> u64 \<Rightarrow> nat \<Rightarrow> BytesMut \<Rightarrow> table_state \<Rightarrow> (BytesMut \<times> table_state) option option" where
  "child_read_entries C X m start 0 cur s = Some (Some (cur, s))"
| "child_read_entries C X m start (Suc n) cur s =
     (case get_unaligned u32_layout m cur of
        None \<Rightarrow> Some None
      | Some (virt, cur) \<Rightarrow>
          (case get_unaligned u64_layout m cur of
             None \<Rightarrow> Some None
           | Some (phy, cur) \<Rightarrow>
               do { s \<leftarrow> map_one C X start (virt, phy) s;
                    child_read_entries C X m start n cur s }))"

fun child_read_vmas ::
  "'r descriptor_layouts \<Rightarrow> (u64 \<Rightarrow> bool) \<Rightarrow> page_indices \<Rightarrow> mem \<Rightarrow> nat \<Rightarrow> BytesMut \<Rightarrow> table_state \<Rightarrow>
    (VMADescriptor list \<times> BytesMut \<times> table_state) option option" where
  "child_read_vmas L C X m 0 cur s = Some (Some ([], cur, s))"
| "child_read_vmas L C X m (Suc n) cur s =
     (case do { v \<leftarrow> deserialize_default (vma_layout L) m cur;
                cur \<leftarrow> truncate_header cur (serialization_buf_len_default (vma_layout L) v);
                (page_num, cur) \<leftarrow> get_at u64_layout 0 m cur;
                cur \<leftarrow> cpt_skip_pad m (unat page_num) cur;
                Some (v, page_num, cur) } of
        None \<Rightarrow> Some None
      | Some (v, page_num, cur) \<Rightarrow>
          do { r \<leftarrow> child_read_entries C X m (get_start v) (unat page_num) cur s;
               (case r of
                  None \<Rightarrow> Some None
                | Some (cur, s) \<Rightarrow>
                    do { r \<leftarrow> child_read_vmas L C X m n cur s;
                         Some (map_option (\<lambda>(vs, rest). (v # vs, rest)) r) }) })"

definition child_deserialize ::
  "'r descriptor_layouts \<Rightarrow> (u64 \<Rightarrow> bool) \<Rightarrow> page_indices \<Rightarrow> Heap \<Rightarrow> mem \<Rightarrow> BytesMut \<Rightarrow>
    ('r ChildDescriptor \<times> Heap) option option" where
  "child_deserialize L C X h m bytes =
     (case do { cur \<leftarrow> truncate_header bytes 0;
                regs \<leftarrow> deserialize_default (reg_layout L) m cur;
                cur \<leftarrow> truncate_header cur (serialization_buf_len_default (reg_layout L) regs);
                (count, cur) \<leftarrow> get_at u64_layout 0 m cur;
                Some (regs, count, cur) } of
        None \<Rightarrow> Some None
      | Some (regs, count, cur) \<Rightarrow>
          do { s \<leftarrow> rpt_new h;
               r \<leftarrow> child_read_vmas L C X m (unat count) cur s;
               (case r of
                  None \<Rightarrow> Some None
                | Some (vmas, cur, (t, h)) \<Rightarrow>
                    Some (map_option
                      (\<lambda>info. (\<lparr>cd_regs = regs, cd_page_table = t, cd_vma = vmas, cd_machine_info = info\<rparr>, h))
                      (deserialize_default (rdma_layout L) m cur))) })"

definition lookup_pg_table :: "(u64 \<Rightarrow> bool) \<Rightarrow> page_indices \<Rightarrow> Heap \<Rightarrow> 'r ChildDescriptor \<Rightarrow> u64 \<Rightarrow> u64 option option" where
  "lookup_pg_table C X h d virt =
     do { require (C virt); translate X h (cd_page_table d) virt }"

section \<open>The deserialiser follows the reference conversion\<close>

lemma child_read_entries_has:
  "mem_has m (bm_ptr b) (concat (map entry_wire t)) \<Longrightarrow> 12 * length t \<le> bm_len b \<Longrightarrow>
     child_read_entries C X m start (length t) b s =
       map_option (\<lambda>s'. Some (behind (12 * length t) b, s')) (map_entries C X start t s)"
proof (induction t arbitrary: b s)
  case (Cons e t)
  obtain o1 p where e: "e = (o1, p)"
    by fastforce
  have h: "mem_has m (bm_ptr b) (to_raw u32_layout o1)"
    "mem_has m (bm_ptr b + 4) (to_raw u64_layout p)"
    "mem_has m (bm_ptr b + 12) (concat (map entry_wire t))"
    using Cons.prems(1) by (simp_all add: e entry_wire_pair mem_has_append add.assoc)
  have 1: "get_unaligned u32_layout m b = Some (o1, behind 4 b)"
    using get_unaligned_has [OF wf_u32_layout h(1)] Cons.prems(2) by simp
  have 2: "get_unaligned u64_layout m (behind 4 b) = Some (p, behind 12 b)"
    using get_unaligned_has [OF wf_u64_layout, of m "behind 4 b" p] h(2) Cons.prems(2)
    by (simp add: behind_behind)
  have 3: "child_read_entries C X m start (length t) (behind 12 b) s' =
      map_option (\<lambda>s'. Some (behind (12 + 12 * length t) b, s')) (map_entries C X start t s')" for s'
    using Cons.IH [of "behind 12 b" s'] h(3) Cons.prems(2) by (simp add: behind_behind)
  show ?case
    by (cases "map_one C X start e s") (simp_all add: 1 2 3 e)
qed (simp add: behind_def)

lemma child_read_vmas_has:
  assumes "wf_layout (vma_layout L)" "length vs = length ts" "\<forall>t \<in> set ts. cpt_valid t"
    and "mem_has m (bm_ptr b) (concat (map (area_wire L) (zip vs ts)))" "areas_len L (zip vs ts) \<le> bm_len b"
  shows "child_read_vmas L C X m (length ts) b s =
    map_option (\<lambda>s'. Some (vs, behind (areas_len L (zip vs ts)) b, s')) (map_areas C X ts vs s)"
  using assms(2-)
proof (induction vs ts arbitrary: b s rule: list_induct2)
  case (Cons v vs t ts)
  let ?V = "vma_layout L" and ?pad = "length (pad_wire (length t))"
  have len: "size_of ?V + cpt_buf_len t + areas_len L (zip vs ts) \<le> bm_len b"
    using Cons.prems by (simp add: areas_len_def)
  have h: "mem_has m (bm_ptr b) (to_raw ?V v)" "mem_has m (bm_ptr b + size_of ?V) (cpt_wire t)"
    "mem_has m (bm_ptr b + (size_of ?V + cpt_buf_len t)) (concat (map (area_wire L) (zip vs ts)))"
    using Cons.prems(2) by (simp_all add: area_wire_pair mem_has_append layout_simps assms(1) add.assoc)
  have 1: "deserialize_default ?V m b = Some v"
    "truncate_header b (serialization_buf_len_default ?V v) = Some (behind (size_of ?V) b)"
    using len deserialize_default_has [OF assms(1) h(1)]
    by (simp_all add: serialization_buf_len_default_def truncate_behind)
  have valid: "cpt_valid t" and room: "cpt_buf_len t \<le> bm_len (behind (size_of ?V) b)"
    using Cons.prems(1) len by simp_all
  note head = cpt_head_has [OF valid _ room, of m]
  have 2: "child_read_entries C X m (get_start v) (length t) (behind (8 + ?pad) (behind (size_of ?V) b)) s =
      map_option (\<lambda>s'. Some (behind (size_of ?V + cpt_buf_len t) b, s')) (map_entries C X (get_start v) t s)"
    using child_read_entries_has [of m "behind (8 + ?pad) (behind (size_of ?V) b)" t C X "get_start v" s]
      head(4,5) h(2) len by (simp add: behind_behind add.assoc)
  have 3: "child_read_vmas L C X m (length ts) (behind (size_of ?V + cpt_buf_len t) b) s' =
      map_option (\<lambda>s'. Some (vs, behind (size_of ?V + cpt_buf_len t + areas_len L (zip vs ts)) b, s'))
        (map_areas C X ts vs s')" for s'
    using Cons.IH [of "behind (size_of ?V + cpt_buf_len t) b" s'] Cons.prems(1) h(3) len
    by (simp add: behind_behind)
  have al: "areas_len L (zip (v # vs) (t # ts)) = size_of ?V + cpt_buf_len t + areas_len L (zip vs ts)"
    by (simp add: areas_len_def)
  show ?case
  proof (cases "map_entries C X (get_start v) t s")
    case None
    then show ?thesis
      using h(2) unfolding al by (simp add: 1 2 head(1,2,3))
  next
    case (Some s1)
    then show ?thesis
      using h(2) unfolding al
      by (cases "map_areas C X ts vs s1") (simp_all add: 1 2 3 head(1,2,3))
  qed
qed (simp add: areas_len_def behind_def)

lemma child_deserialize_has:
  assumes "parent_valid L d" "parent_buf_len L d \<le> bm_len b" "mem_has m (bm_ptr b) (parent_wire L d)"
  shows "child_deserialize L C X h m b = map_option Some (to_descriptor C X h d)"
proof -
  let ?R = "reg_layout L" and ?D = "rdma_layout L" and ?n = "length (pd_page_table d)"
  have wf: "wf_layout ?R" "wf_layout (vma_layout L)" "wf_layout ?D"
    and len: "length (pd_vma d) = ?n" "?n < 2 ^ 64" "\<forall>t \<in> set (pd_page_table d). cpt_valid t"
    using assms(1) by (simp_all add: parent_valid_def wf_layouts_def)
  let ?al = "areas_len L (zip (pd_vma d) (pd_page_table d))"
  have room: "size_of ?R + 8 + ?al + size_of ?D + 8 \<le> bm_len b"
    using assms(2) length_parent_wire [OF assms(1)] by (simp add: parent_areas_def)
  have h: "mem_has m (bm_ptr b) (to_raw ?R (pd_regs d))"
    "mem_has m (bm_ptr b + size_of ?R) (to_raw u64_layout (word_of_nat ?n))"
    "mem_has m (bm_ptr b + size_of ?R + 8) (concat (map (area_wire L) (zip (pd_vma d) (pd_page_table d))))"
    "mem_has m (bm_ptr b + size_of ?R + 8 + ?al) (to_raw ?D (pd_machine_info d))"
    using assms(3)
    by (simp_all add: parent_wire_def mem_has_append layout_simps wf add.assoc length_areas_wire parent_areas_def
        del: length_concat)
  have 1: "deserialize_default ?R m b = Some (pd_regs d)"
    "truncate_header b (serialization_buf_len_default ?R (pd_regs d)) = Some (behind (size_of ?R) b)"
    using room deserialize_default_has [OF wf(1) h(1)]
    by (simp_all add: serialization_buf_len_default_def truncate_behind)
  have 2: "get_at u64_layout 0 m (behind (size_of ?R) b) = Some (word_of_nat ?n, behind (size_of ?R + 8) b)"
    using get_at_has [OF wf_u64_layout, of m "behind (size_of ?R) b" "word_of_nat ?n" 0] h(2) room
    by (simp add: behind_behind)
  have n: "unat (word_of_nat ?n :: u64) = ?n"
    using len(2) by (simp add: unat_of_nat take_bit_nat_eq_self)
  have 3: "child_read_vmas L C X m ?n (behind (size_of ?R + 8) b) s =
      map_option (\<lambda>s'. Some (pd_vma d, behind (size_of ?R + 8 + ?al) b, s'))
        (map_areas C X (pd_page_table d) (pd_vma d) s)" for s
    using child_read_vmas_has [OF wf(2) len(1,3), of m "behind (size_of ?R + 8) b" C X s] h(3) room
    by (simp add: behind_behind add.assoc)
  have 4: "deserialize_default ?D m (behind (size_of ?R + 8 + ?al) b) = Some (pd_machine_info d)"
    using deserialize_default_has [OF wf(3), of m "behind (size_of ?R + 8 + ?al) b" "pd_machine_info d"] h(4) room
    by (simp add: add.assoc)
  show ?thesis
  proof (cases "rpt_new h")
    case None
    then show ?thesis
      by (simp add: child_deserialize_def to_descriptor_def 1 2)
  next
    case (Some s)
    then show ?thesis
      by (cases "map_areas C X (pd_page_table d) (pd_vma d) s")
        (auto simp: child_deserialize_def to_descriptor_def 1 2 3 4 n split: prod.splits)
  qed
qed

section \<open>What the child's page table maps\<close>

text \<open>The pages a parent's descriptor lists, with their virtual addresses, in the order of the descriptor.\<close>

definition area_mappings :: "VMADescriptor \<times> CompactPageTable \<Rightarrow> (u64 \<times> u64) list" where
  "area_mappings a = map (\<lambda>e. (ucast (fst e) + get_start (fst a), snd e)) (snd a)"

definition parent_mappings :: "'r ParentDescriptor \<Rightarrow> (u64 \<times> u64) list" where
  "parent_mappings d = concat (map area_mappings (parent_areas d))"

definition entry_ok :: "(u64 \<Rightarrow> bool) \<Rightarrow> u64 \<Rightarrow> u32 \<times> u64 \<Rightarrow> bool" where
  "entry_ok C start e \<longleftrightarrow> unat (ucast (fst e) :: u64) + unat start < 2 ^ 64 \<and> C (ucast (fst e) + start)"

definition addressable :: "(u64 \<Rightarrow> bool) \<Rightarrow> 'r ParentDescriptor \<Rightarrow> bool" where
  "addressable C d \<longleftrightarrow>
     (\<forall>(v, t) \<in> set (parent_areas d). \<forall>e \<in> set t. entry_ok C (get_start v) e)"

lemma ins_all_append:
  "ins_all ins s (xs @ ys) = do { s \<leftarrow> ins_all ins s xs; ins_all ins s ys }"
  by (induction ins s xs rule: ins_all.induct) (auto intro: Option.bind_cong)

lemma map_one_ins:
  "entry_ok C start e \<Longrightarrow> map_one C X start e s = rpt_ins X s (ucast (fst e) + start) (snd e)"
  by (simp add: map_one_def entry_ok_def checked_add_def rpt_ins_def)

lemma map_entries_ins:
  "\<forall>e \<in> set t. entry_ok C (get_start v) e \<Longrightarrow>
     map_entries C X (get_start v) t s = ins_all (rpt_ins X) s (area_mappings (v, t))"
proof (induction t arbitrary: s)
  case (Cons e t)
  then show ?case
    by (cases "rpt_ins X s (ucast (fst e) + get_start v) (snd e)") (simp_all add: map_one_ins area_mappings_def)
qed (simp add: area_mappings_def)

lemma map_areas_ins:
  "length vs = length ts \<Longrightarrow> \<forall>(v, t) \<in> set (zip vs ts). \<forall>e \<in> set t. entry_ok C (get_start v) e \<Longrightarrow>
     map_areas C X ts vs s = ins_all (rpt_ins X) s (concat (map area_mappings (zip vs ts)))"
proof (induction vs ts arbitrary: s rule: list_induct2)
  case (Cons v vs t ts)
  then show ?case
    by (cases "ins_all (rpt_ins X) s (area_mappings (v, t))") (simp_all add: map_entries_ins ins_all_append)
qed simp

lemma to_descriptor_maps:
  assumes "parent_valid L d" "addressable C d" "indices_in_range X" "heap_ok h"
    and "3 * length (parent_mappings d) + 1 \<le> length (avail h)"
  shows "\<exists>c h'. to_descriptor C X h d = Some (c, h') \<and> table_ok h' (cd_page_table c)
    \<and> cd_regs c = pd_regs d \<and> cd_vma c = pd_vma d \<and> cd_machine_info c = pd_machine_info d
    \<and> (\<forall>a. lookup h' (cd_page_table c) (path_of X a) = first_value (same_page X) a (parent_mappings d))"
proof -
  obtain p ps where av: "avail h = p # ps"
    using assms(5) by (cases "avail h") auto
  note new = rpt_new_ok [OF assms(4) av]
  let ?h = "h\<lparr>nodes := (nodes h)(p \<mapsto> table_default), avail := ps\<rparr>" and ?t = "\<lparr>l4_page_table = p, cnt = 0\<rparr>"
  have room: "rpt_room X (length (parent_mappings d) + 0) (?t, ?h)"
    using new(2,3) assms(3,5) av by (simp add: rpt_room_def table_ok_def)
  have empty: "rpt_lkp X (?t, ?h) a = 0" for a
    using new(5) by (simp add: rpt_lkp_def lookup_def path_of_def split: prod.splits)
  obtain s' where s': "ins_all (rpt_ins X) (?t, ?h) (parent_mappings d) = Some s'" "rpt_room X 0 s'"
    "\<And>q. rpt_lkp X s' q = first_value (same_page X) q (parent_mappings d)"
    using rpt.ins_all_ok [OF room] empty by auto
  obtain t' h' where t': "s' = (t', h')"
    by fastforce
  have len: "length (pd_vma d) = length (pd_page_table d)"
    using assms(1) by (simp add: parent_valid_def)
  have "map_areas C X (pd_page_table d) (pd_vma d) (?t, ?h) = Some (t', h')"
    using map_areas_ins [OF len, of C X "(?t, ?h)"] assms(2) s'(1)
    by (simp add: addressable_def parent_areas_def parent_mappings_def t')
  then show ?thesis
    using new(1) s'(2,3) by (simp add: to_descriptor_def rpt_room_def rpt_lkp_def t')
qed

lemma child_view_has:
  assumes "parent_valid L d" "parent_buf_len L d \<le> bm_len b" "mem_has m (bm_ptr b) (parent_wire L d)"
    and "addressable C d" "indices_in_range X" "heap_ok h"
    and "3 * length (parent_mappings d) + 1 \<le> length (avail h)"
  shows "\<exists>c h'. child_deserialize L C X h m b = Some (Some (c, h')) \<and> table_ok h' (cd_page_table c)
    \<and> cd_regs c = pd_regs d \<and> cd_vma c = pd_vma d \<and> cd_machine_info c = pd_machine_info d
    \<and> (\<forall>a. C a \<longrightarrow> lookup_pg_table C X h' c a =
          Some (let w = first_value (same_page X) a (parent_mappings d) in if w = 0 then None else Some w))"
proof -
  obtain c h' where c: "to_descriptor C X h d = Some (c, h')" "table_ok h' (cd_page_table c)"
    "cd_regs c = pd_regs d" "cd_vma c = pd_vma d" "cd_machine_info c = pd_machine_info d"
    "\<forall>a. lookup h' (cd_page_table c) (path_of X a) = first_value (same_page X) a (parent_mappings d)"
    using to_descriptor_maps [OF assms(1,4-7)] by blast
  have "child_deserialize L C X h m b = Some (Some (c, h'))"
    using child_deserialize_has [OF assms(1,2), of m] assms(3) c(1) by simp
  then show ?thesis
    using c(2-6) by (auto simp: lookup_pg_table_def translate_lookup [OF c(2) assms(5)])
qed

lemma child_view:
  assumes "parent_valid L d" "parent_buf_len L d \<le> bm_len b" "parent_serialize L m b d = Some (m', ok)"
    and "addressable C d" "indices_in_range X" "heap_ok h"
    and "3 * length (parent_mappings d) + 1 \<le> length (avail h)"
  shows "\<exists>c h'. child_deserialize L C X h m' b = Some (Some (c, h'))
    \<and> cd_regs c = pd_regs d \<and> cd_vma c = pd_vma d \<and> cd_machine_info c = pd_machine_info d
    \<and> (\<forall>a. C a \<longrightarrow> lookup_pg_table C X h' c a =
          Some (let w = first_value (same_page X) a (parent_mappings d) in if w = 0 then None else Some w))"
proof -
  have "mem_has m' (bm_ptr b) (parent_wire L d)"
    using parent_serialize_adv [OF assms(1,2), of m] assms(3) by auto
  from child_view_has [OF assms(1,2) this assms(4-7)] show ?thesis
    by blast
qed

section \<open>Properties\<close>

text \<open>C21: Deserialising at the child is the conversion of the parent's descriptor: on a buffer that the
  parent serialised, \<open>ChildDescriptor::deserialize\<close>, which fills the page table while it parses,
  returns exactly what \<open>to_descriptor\<close> builds from the descriptor in memory, in the same heap, and panics
  exactly when the conversion does.\<close>

theorem child_deserialize_equiv:
  assumes "parent_valid L d" "parent_buf_len L d \<le> bm_len b" "parent_serialize L m b d = Some (m', ok)"
  shows "child_deserialize L C X h m' b = map_option Some (to_descriptor C X h d)"
  using child_deserialize_has [OF assms(1,2), of m'] parent_serialize_adv [OF assms(1,2), of m] assms(3)
  by simp

theorem child_deserialize_equiv_witness:
  "child_deserialize packed_layouts (\<lambda>_. True) four_level_indices (empty_heap 16)
     (fst (the (parent_serialize packed_layouts (\<lambda>_. 0) (from_raw 4096 200) sample_parent))) (from_raw 4096 200) =
   map_option Some (to_descriptor (\<lambda>_. True) four_level_indices (empty_heap 16) sample_parent)"
proof -
  have len: "parent_buf_len packed_layouts sample_parent \<le> bm_len (from_raw 4096 200)"
    by (simp add: sample_parent_len from_raw_def)
  show ?thesis
    using parent_serialize_adv [OF sample_parent_valid len, of "\<lambda>_. 0"]
    by (intro child_deserialize_equiv [OF sample_parent_valid len, of "\<lambda>_. 0" _ True]) simp
qed

text \<open>C11: The fork is faithful: a child that deserialises its parent's buffer gets the parent's registers,
  areas and machine information, and its page table translates every address to the physical address
  the parent's descriptor lists first for the page of that address, and to nothing when none is listed.\<close>

theorem child_sees_parent_pages:
  assumes "parent_valid L d" "parent_buf_len L d \<le> bm_len b" "parent_serialize L m b d = Some (m', ok)"
    and "addressable C d" "indices_in_range X" "heap_ok h"
    and "3 * length (parent_mappings d) + 1 \<le> length (avail h)"
  shows "\<exists>c h'. child_deserialize L C X h m' b = Some (Some (c, h'))
    \<and> cd_regs c = pd_regs d \<and> cd_vma c = pd_vma d \<and> cd_machine_info c = pd_machine_info d
    \<and> (\<forall>a. C a \<longrightarrow> lookup_pg_table C X h' c a =
          Some (let w = first_value (same_page X) a (parent_mappings d) in if w = 0 then None else Some w))"
  using assms by (rule child_view)

theorem child_sees_parent_pages_witness:
  "\<exists>m' c h'. parent_serialize packed_layouts (\<lambda>_. 0) (from_raw 4096 200) sample_parent = Some (m', True)
     \<and> child_deserialize packed_layouts (\<lambda>_. True) four_level_indices (empty_heap 16) m' (from_raw 4096 200) = Some (Some (c, h'))
     \<and> cd_vma c = [sample_vma]
     \<and> lookup_pg_table (\<lambda>_. True) four_level_indices h' c 0x402abc = Some (Some 0x9004)
     \<and> lookup_pg_table (\<lambda>_. True) four_level_indices h' c 0x403000 = Some None"
proof -
  let ?X = four_level_indices
  have len: "parent_buf_len packed_layouts sample_parent \<le> bm_len (from_raw 4096 200)"
    by (simp add: sample_parent_len from_raw_def)
  obtain m' where m': "parent_serialize packed_layouts (\<lambda>_. 0) (from_raw 4096 200) sample_parent = Some (m', True)"
    using parent_serialize_adv [OF sample_parent_valid len] by blast
  have maps: "parent_mappings sample_parent = [(0x400000, 0x7000), (0x402000, 0x9004), (0x401000, 0x8000)]"
    by (simp add: parent_mappings_def parent_areas_def sample_parent_def sample_vma_def area_mappings_def get_start_def)
  have ok: "addressable (\<lambda>_. True) sample_parent"
    by (simp add: addressable_def parent_areas_def sample_parent_def sample_vma_def entry_ok_def get_start_def)
  have room: "3 * length (parent_mappings sample_parent) + 1 \<le> length (avail (empty_heap 16))"
    by (simp add: maps empty_heap_def)
  have heap: "heap_ok (empty_heap 16)"
    by (rule empty_heap_ok) simp
  obtain c h' where c: "child_deserialize packed_layouts (\<lambda>_. True) ?X (empty_heap 16) m' (from_raw 4096 200) = Some (Some (c, h'))"
    "cd_vma c = pd_vma sample_parent"
    "\<forall>a. True \<longrightarrow> lookup_pg_table (\<lambda>_. True) ?X h' c a =
        Some (let w = first_value (same_page ?X) a (parent_mappings sample_parent) in if w = 0 then None else Some w)"
    using child_sees_parent_pages [OF sample_parent_valid len m' ok four_level_in_range heap room] by blast
  have "lookup_pg_table (\<lambda>_. True) ?X h' c 0x402abc = Some (Some 0x9004)"
    "lookup_pg_table (\<lambda>_. True) ?X h' c 0x403000 = Some None"
    by (simp_all add: c(3) maps same_page_def path_of_def four_level_indices_def)
  then show ?thesis
    using m' c(1,2) by (simp add: sample_parent_def)
qed

end
