(* ===== verification/Kern_Wrappers.thy ===== *)
theory Kern_Wrappers
  imports Descriptors Phys_Addr
begin

text \<open>
  The wrappers over kernel structures (mitosis/src/kern_wrappers) and the C helpers they call
  (mitosis/src/native/kernel_helper.c): page table entries, memory areas, the list of the areas of
  a process, the page table walkers, kernel pages and the task. The kernel is outside: its
  constants are the record \<open>kconsts\<close>, and what its functions answer (which addresses a page walk
  visits, the page of an entry, the result of a mapping) are arguments.
\<close>

section \<open>Kernel state\<close>

record kconsts =
  PAGE_RW :: u64
  VM_READ :: u64
  VM_WRITE :: u64
  VM_MAYWRITE :: u64
  VM_EXEC :: u64
  VM_STACK :: u64
  VM_DONTEXPAND :: u64
  VM_MIXEDMAP :: u64
  PROT_READ :: u64
  PROT_WRITE :: u64
  PROT_EXEC :: u64
  PROT_GROWSUP :: u64

record vm_area =
  vm_start :: u64
  vm_end :: u64
  area_flags :: u64
  vm_page_prot :: u64
  vm_ops :: u64
  vm_file :: u64

text \<open>
  The part of the kernel's state the module changes: the page table entries of the process (by
  user address), the reference and mapping counts of pages and the reference counts of files (by
  their address), the contents of pages, and the pages the allocator will hand out (0: it fails).
\<close>

record kstate =
  ptes :: "u64 \<Rightarrow> u64"
  page_refs :: "u64 \<Rightarrow> int"
  map_counts :: "u64 \<Rightarrow> int"
  file_refs :: "u64 \<Rightarrow> int"
  page_data :: "u64 \<Rightarrow> u8 list"
  alloc_queue :: "u64 list"
  freed :: "u64 list"

definition flags_contain :: "u64 \<Rightarrow> u64 \<Rightarrow> bool" where
  "flags_contain f c \<longleftrightarrow> f AND c = c"

text \<open>The reserve flag of kernel_helper.h.\<close>

definition VM_ALLOC :: u64 where
  "VM_ALLOC = 0"

section \<open>Page table entries\<close>

definition PTE_HIGHER_BIT_MASK :: u64 where
  "PTE_HIGHER_BIT_MASK = NOT (signed_drop_bit 11 (push_bit 63 1))"

definition PAGE_MASK :: u64 where
  "PAGE_MASK = NOT 0xFFF"

definition pmem_get_phy_from_pte :: "u64 \<Rightarrow> u64" where
  "pmem_get_phy_from_pte pte = pte AND PAGE_MASK AND PTE_HIGHER_BIT_MASK"

definition pmem_clear_pte_write :: "kconsts \<Rightarrow> u64 \<Rightarrow> kstate \<Rightarrow> kstate" where
  "pmem_clear_pte_write K a s = s\<lparr>ptes := (ptes s)(a := ptes s a AND NOT (PAGE_RW K))\<rparr>"

definition pmem_set_pte_write :: "kconsts \<Rightarrow> u64 \<Rightarrow> kstate \<Rightarrow> kstate" where
  "pmem_set_pte_write K a s = s\<lparr>ptes := (ptes s)(a := ptes s a OR PAGE_RW K)\<rparr>"

definition pmem_check_pte_write :: "kconsts \<Rightarrow> u64 \<Rightarrow> kstate \<Rightarrow> u64" where
  "pmem_check_pte_write K a s = ptes s a AND PAGE_RW K"

definition pmem_get_page :: "u64 \<Rightarrow> kstate \<Rightarrow> kstate" where
  "pmem_get_page p s = s\<lparr>page_refs := (page_refs s)(p := page_refs s p + 1)\<rparr>"

definition pmem_put_page :: "u64 \<Rightarrow> kstate \<Rightarrow> kstate" where
  "pmem_put_page p s = s\<lparr>page_refs := (page_refs s)(p := page_refs s p - 1)\<rparr>"

definition pmem_page_dup_rmap :: "u64 \<Rightarrow> kstate \<Rightarrow> kstate" where
  "pmem_page_dup_rmap p s = s\<lparr>map_counts := (map_counts s)(p := map_counts s p + 1)\<rparr>"

definition pmem_page_free_rmap :: "u64 \<Rightarrow> kstate \<Rightarrow> kstate" where
  "pmem_page_free_rmap p s = s\<lparr>map_counts := (map_counts s)(p := map_counts s p - 1)\<rparr>"

definition pmem_get_file :: "u64 \<Rightarrow> kstate \<Rightarrow> kstate" where
  "pmem_get_file f s = s\<lparr>file_refs := (file_refs s)(f := file_refs s f + 1)\<rparr>"

definition pmem_put_file :: "u64 \<Rightarrow> kstate \<Rightarrow> kstate" where
  "pmem_put_file f s = s\<lparr>file_refs := (file_refs s)(f := file_refs s f - 1)\<rparr>"

definition pmem_alloc_page :: "kstate \<Rightarrow> u64 \<times> kstate" where
  "pmem_alloc_page s = (case alloc_queue s of [] \<Rightarrow> (0, s) | p # ps \<Rightarrow> (p, s\<lparr>alloc_queue := ps\<rparr>))"

definition pmem_free_page :: "u64 \<Rightarrow> kstate \<Rightarrow> kstate" where
  "pmem_free_page p s = s\<lparr>freed := freed s @ [p]\<rparr>"

section \<open>Memory areas\<close>

definition area_is_anonymous :: "vm_area \<Rightarrow> bool" where
  "area_is_anonymous v \<longleftrightarrow> vm_ops v = 0"

definition generate_descriptor :: "vm_area \<Rightarrow> VMADescriptor" where
  "generate_descriptor v =
     \<lparr>vm_range = (vm_start v, vm_end v), vm_flags = area_flags v, vm_prot = vm_page_prot v,
      vm_is_anonymous = area_is_anonymous v\<rparr>"

definition area_get_sz :: "vm_area \<Rightarrow> u64 option" where
  "area_get_sz v = checked_sub (vm_end v) (vm_start v)"

definition set_alloc :: "vm_area \<Rightarrow> vm_area" where
  "set_alloc v = v\<lparr>area_flags := area_flags v OR VM_ALLOC\<rparr>"

definition clear_alloc :: "vm_area \<Rightarrow> vm_area" where
  "clear_alloc v = v\<lparr>area_flags := area_flags v AND NOT VM_ALLOC\<rparr>"

definition mmap_flags_of :: "kconsts \<Rightarrow> u64 \<Rightarrow> u64" where
  "mmap_flags_of K f =
     (let ret = 0;
          ret = (if flags_contain f (VM_READ K) then ret OR PROT_READ K else ret);
          ret = (if flags_contain f (VM_WRITE K) then ret OR PROT_WRITE K else ret);
          ret = (if flags_contain f (VM_EXEC K) then ret OR PROT_EXEC K else ret)
      in if flags_contain f (VM_STACK K) then ret OR PROT_GROWSUP K else ret)"

definition area_get_mmap_flags :: "kconsts \<Rightarrow> vm_area \<Rightarrow> u64" where
  "area_get_mmap_flags K v = mmap_flags_of K (area_flags v)"

definition is_stack :: "kconsts \<Rightarrow> VMADescriptor \<Rightarrow> bool" where
  "is_stack K v \<longleftrightarrow> flags_contain (vm_flags v) (VM_STACK K)"

definition get_mmap_flags :: "kconsts \<Rightarrow> VMADescriptor \<Rightarrow> u64" where
  "get_mmap_flags K v = mmap_flags_of K (vm_flags v)"

text \<open>
  The areas of a process are a null-terminated linked list. \<open>get_vma_area\<close> follows \<open>idx\<close> links; it
  dereferences the null link when the list is shorter.
\<close>

fun get_vma_area :: "vm_area list \<Rightarrow> nat \<Rightarrow> vm_area option option" where
  "get_vma_area [] 0 = Some None"
| "get_vma_area (v # vs) 0 = Some (Some v)"
| "get_vma_area [] (Suc idx) = None"
| "get_vma_area (v # vs) (Suc idx) = get_vma_area vs idx"

definition vma_iter_next :: "vm_area list \<Rightarrow> vm_area option \<times> vm_area list" where
  "vma_iter_next cur = (case cur of [] \<Rightarrow> (None, []) | v # vs \<Rightarrow> (Some v, vs))"

section \<open>Page table walkers\<close>

definition dump_pte_entry :: "kstate \<Rightarrow> u64 \<Rightarrow> FlatPageTable \<times> nat \<Rightarrow> FlatPageTable \<times> nat" where
  "dump_pte_entry s addr st =
     (case st of (pt, count) \<Rightarrow>
       (let phy_addr = pmem_get_phy_from_pte (ptes s addr)
        in (if phy_addr > 0 then flat_add_one pt addr phy_addr else pt, count + 1)))"

definition dump_execute :: "(vm_area \<Rightarrow> u64 list) \<Rightarrow> kstate \<Rightarrow> vm_area \<Rightarrow> FlatPageTable \<Rightarrow> FlatPageTable \<times> nat" where
  "dump_execute walk_range s v pt = fold (dump_pte_entry s) (walk_range v) (pt, 0)"

definition traverse_execute :: "(vm_area \<Rightarrow> u64 list) \<Rightarrow> kstate \<Rightarrow> vm_area \<Rightarrow> (u64 \<times> u64) list" where
  "traverse_execute walk_range s v = map (\<lambda>addr. (addr, pmem_get_phy_from_pte (ptes s addr))) (walk_range v)"

fun generate_mm :: "(vm_area \<Rightarrow> u64 list) \<Rightarrow> kstate \<Rightarrow> vm_area list \<Rightarrow> FlatPageTable \<Rightarrow> VMADescriptor list \<times> FlatPageTable" where
  "generate_mm walk_range s [] pt = ([], pt)"
| "generate_mm walk_range s (v # vs) pt =
     (let (pt, count) = dump_execute walk_range s v pt;
          (ds, pt) = generate_mm walk_range s vs pt
      in (generate_descriptor v # ds, pt))"

section \<open>Kernel pages\<close>

record Page =
  page_p :: u64
  raw :: bool

text \<open>\<open>user\<close> gives the 4096 bytes at a user address, or None when copying from there fails.\<close>

definition page_new_from_upage :: "(u64 \<Rightarrow> u8 list option) \<Rightarrow> u64 \<Rightarrow> kstate \<Rightarrow> Page option \<times> kstate" where
  "page_new_from_upage user va s =
     (case pmem_alloc_page s of
        (p, s) \<Rightarrow>
          if p = 0 then (None, s)
          else (case user va of
                  None \<Rightarrow> (None, pmem_free_page p s)
                | Some bs \<Rightarrow> (Some \<lparr>page_p = p, raw = False\<rparr>, s\<lparr>page_data := (page_data s)(p := bs)\<rparr>)))"

definition page_clone :: "Page \<Rightarrow> Page" where
  "page_clone p = \<lparr>page_p = page_p p, raw = raw p\<rparr>"

definition page_drop :: "Page \<Rightarrow> kstate \<Rightarrow> kstate" where
  "page_drop p s = (if \<not> raw p then pmem_free_page (page_p p) s else s)"

definition increase_ref_count :: "Page \<Rightarrow> kstate \<Rightarrow> kstate" where
  "increase_ref_count p s = pmem_page_dup_rmap (page_p p) (pmem_get_page (page_p p) s)"

definition copy_page_content_4k :: "u64 \<Rightarrow> u64 \<Rightarrow> kstate \<Rightarrow> kstate" where
  "copy_page_content_4k dst src s = s\<lparr>page_data := (page_data s)(dst := page_data s src)\<rparr>"

section \<open>Mapping the child's areas\<close>

text \<open>The size \<open>map_one_region\<close> asks for: an anonymous area is extended towards the next one, by 1 GiB at most.\<close>

definition extended_map_area_sz :: "VMADescriptor \<Rightarrow> VMADescriptor option \<Rightarrow> u64 option" where
  "extended_map_area_sz v next_vma =
     (case next_vma of
        None \<Rightarrow> Some 0
      | Some n \<Rightarrow>
          do { require (get_start n \<ge> get_end v);
               gap \<leftarrow> checked_sub (get_start n) (get_end v);
               Some (min (1024 * 1024 * 1024) gap) })"

definition region_len :: "VMADescriptor \<Rightarrow> VMADescriptor option \<Rightarrow> u64 option" where
  "region_len v next_vma =
     do { ext \<leftarrow> extended_map_area_sz v next_vma;
          sz \<leftarrow> get_sz v;
          if vm_is_anonymous v then checked_add sz ext else Some sz }"

text \<open>
  \<open>mmap start len prot\<close> is the kernel's answer to a private mapping and the areas after it. A mapping
  elsewhere than asked for gives None; the area that \<open>find_vma\<close> then finds gets its flags.
\<close>

definition map_one_region ::
  "kconsts \<Rightarrow> (u64 \<Rightarrow> u64 \<Rightarrow> u64 \<Rightarrow> u64 \<times> vm_area list) \<Rightarrow> (vm_area list \<Rightarrow> u64 \<Rightarrow> vm_area option) \<Rightarrow> bool \<Rightarrow>
    VMADescriptor \<Rightarrow> VMADescriptor option \<Rightarrow> vm_area option option" where
  "map_one_region K mmap find_vma eager v next_vma =
     do { len \<leftarrow> region_len v next_vma;
          (case mmap (get_start v) len (get_mmap_flags K v) of
             (ret, areas) \<Rightarrow>
               if ret \<noteq> get_start v then Some None
               else do {
                 area \<leftarrow> find_vma areas (get_start v);
                 let f = (if is_stack K v then area_flags area OR VM_STACK K
                          else area_flags area OR VM_DONTEXPAND K);
                 Some (Some (area\<lparr>area_flags := (if eager then f OR VM_MIXEDMAP K else f)\<rparr>)) }) }"

section \<open>Lemmas\<close>

lemma get_vma_area_nth: "get_vma_area vs idx = (if idx < length vs then Some (Some (vs ! idx)) else if idx = length vs then Some None else None)"
  by (induction vs idx rule: get_vma_area.induct) auto

definition present_phys :: "kstate \<Rightarrow> u64 \<Rightarrow> u64 option" where
  "present_phys s a = (if pmem_get_phy_from_pte (ptes s a) > 0 then Some (pmem_get_phy_from_pte (ptes s a)) else None)"

lemma dump_walk:
  "fold (dump_pte_entry s) xs (pt, n) =
    ((\<lambda>a. if a \<in> set xs \<and> present_phys s a \<noteq> None then present_phys s a else pt a), n + length xs)"
  by (induction xs arbitrary: pt n)
    (auto simp: dump_pte_entry_def flat_add_one_def present_phys_def Let_def fun_eq_iff)

lemma generate_mm_table:
  "snd (generate_mm walk_range s vs pt) =
    (\<lambda>a. if (\<exists>v \<in> set vs. a \<in> set (walk_range v)) \<and> present_phys s a \<noteq> None then present_phys s a else pt a)"
  by (induction vs arbitrary: pt)
    (simp_all add: dump_execute_def dump_walk case_prod_beta Let_def fun_eq_iff)

lemma generate_mm_areas: "fst (generate_mm walk_range s vs pt) = map generate_descriptor vs"
  by (induction vs arbitrary: pt) (simp_all add: case_prod_beta Let_def)

lemma region_len_gap:
  assumes "get_start v \<le> get_end v" "get_end v \<le> get_start n"
  shows "\<exists>len. region_len v (Some n) = Some len
    \<and> unat (get_end v) \<le> unat (get_start v) + unat len
    \<and> unat (get_start v) + unat len \<le> unat (get_start n)
    \<and> unat (get_start v) + unat len \<le> unat (get_end v) + 2 ^ 30
    \<and> (\<not> vm_is_anonymous v \<longrightarrow> unat (get_start v) + unat len = unat (get_end v))
    \<and> region_len v None = Some (get_end v - get_start v)"
proof -
  let ?gap = "get_start n - get_end v" and ?sz = "get_end v - get_start v"
  let ?ext = "min 0x40000000 ?gap"
  have sz: "unat ?sz = unat (get_end v) - unat (get_start v)" and gap: "unat ?gap = unat (get_start n) - unat (get_end v)"
    using assms by (simp_all add: unat_sub)
  have le: "unat (get_start v) \<le> unat (get_end v)" "unat (get_end v) \<le> unat (get_start n)"
    using assms by (simp_all add: word_le_nat_alt)
  have ext: "unat ?ext \<le> unat ?gap" "unat ?ext \<le> 2 ^ 30"
    by (simp_all add: min_def word_le_nat_alt)
  have "unat ?sz + unat ?ext < 2 ^ 64"
    using ext(1) sz gap le unsigned_less [of "get_start n", where ?'a = nat] by simp
  then have add: "checked_add ?sz ?ext = Some (?sz + ?ext)" "unat (?sz + ?ext) = unat ?sz + unat ?ext"
    by (simp_all add: checked_add_def unat_word_ariths)
  have "region_len v (Some n) = Some (if vm_is_anonymous v then ?sz + ?ext else ?sz)" "region_len v None = Some ?sz"
    using assms add(1) unsigned_less [of ?sz, where ?'a = nat]
    by (simp_all add: region_len_def extended_map_area_sz_def get_sz_def checked_sub_def get_start_def get_end_def)
      (simp add: checked_add_def)
  moreover have "unat (get_end v) + unat ?ext \<le> unat (get_start n)"
    using ext(1) gap le by linarith
  ultimately show ?thesis
    using sz le ext(2) add(2) by simp
qed

section \<open>Properties\<close>

text \<open>C39: Mapping the child's areas never overlaps them: for areas in ascending order the length that
  \<open>map_one_region\<close> requests is computed without overflow, covers the area, ends before the next area
  starts, and exceeds the area by 1 GiB at most; only anonymous areas with a successor are extended.\<close>

theorem region_fits_gap:
  assumes "get_start v \<le> get_end v" "get_end v \<le> get_start n"
  shows "\<exists>len. region_len v (Some n) = Some len
    \<and> unat (get_end v) \<le> unat (get_start v) + unat len
    \<and> unat (get_start v) + unat len \<le> unat (get_start n)
    \<and> unat (get_start v) + unat len \<le> unat (get_end v) + 2 ^ 30
    \<and> (\<not> vm_is_anonymous v \<longrightarrow> unat (get_start v) + unat len = unat (get_end v))
    \<and> region_len v None = Some (get_end v - get_start v)"
  by (rule region_len_gap [OF assms])

theorem region_fits_gap_witness:
  "\<exists>len. region_len \<lparr>vm_range = (0x600000, 0x603000), vm_flags = 0x23, vm_prot = 0x27, vm_is_anonymous = True\<rparr>
      (Some \<lparr>vm_range = (0x700000, 0x704000), vm_flags = 0x23, vm_prot = 0x27, vm_is_anonymous = True\<rparr>) = Some len
    \<and> 0x600000 + unat len \<le> 0x700000"
  using region_fits_gap [of "\<lparr>vm_range = (0x600000, 0x603000), vm_flags = 0x23, vm_prot = 0x27, vm_is_anonymous = True\<rparr>"
      "\<lparr>vm_range = (0x700000, 0x704000), vm_flags = 0x23, vm_prot = 0x27, vm_is_anonymous = True\<rparr>"]
  by (auto simp: get_start_def get_end_def)

text \<open>Dumping a process gives the descriptors of its areas in order and a page table that has, for every
  address the walks visit, the physical address when there is one, and nothing else.\<close>

theorem generate_mm_dumps:
  "generate_mm walk_range s vs flat_new =
    (map generate_descriptor vs,
     \<lambda>a. if (\<exists>v \<in> set vs. a \<in> set (walk_range v)) \<and> pmem_get_phy_from_pte (ptes s a) \<noteq> 0
         then Some (pmem_get_phy_from_pte (ptes s a)) else None)"
  by (rule prod_eqI) (auto simp: generate_mm_table generate_mm_areas flat_new_def present_phys_def fun_eq_iff word_gt_0)

end
