(* ===== verification/Shadow_Process.thy ===== *)
theory Shadow_Process
  imports Kern_Wrappers
begin

text \<open>
  The shadow of a forked process (mitosis/src/shadow_process.rs and shadow_process/): the areas are
  described, their pages are either marked copy-on-write or copied, and both are recorded in the
  descriptor that children read. \<open>walk_range v\<close> is the list of the addresses at which the kernel's
  walk over the area \<open>v\<close> calls back, \<open>pte_page\<close> the page a page table entry points to, \<open>page_to_phy\<close>
  the physical address of a page.
\<close>

section \<open>Shadow areas and shadow pages\<close>

record ShadowVMA =
  vma_inner :: vm_area
  shadow_file :: u64
  is_cow :: bool

definition shadow_vma_new :: "vm_area \<Rightarrow> bool \<Rightarrow> kstate \<Rightarrow> ShadowVMA \<times> kstate" where
  "shadow_vma_new v cow s =
     (let file = vm_file v;
          s = (if file \<noteq> 0 \<and> cow then pmem_get_file file s else s)
      in (\<lparr>vma_inner = v, shadow_file = file, is_cow = cow\<rparr>, s))"

definition backed_by_file :: "ShadowVMA \<Rightarrow> bool" where
  "backed_by_file sv \<longleftrightarrow> shadow_file sv \<noteq> 0"

definition has_write_permission :: "kconsts \<Rightarrow> ShadowVMA \<Rightarrow> bool" where
  "has_write_permission K sv \<longleftrightarrow>
     flags_contain (area_flags (vma_inner sv)) (VM_WRITE K)
     \<or> flags_contain (area_flags (vma_inner sv)) (VM_MAYWRITE K)"

definition shadow_vma_drop :: "ShadowVMA \<Rightarrow> kstate \<Rightarrow> kstate" where
  "shadow_vma_drop sv s = (if shadow_file sv \<noteq> 0 \<and> is_cow sv then pmem_put_file (shadow_file sv) s else s)"

text \<open>\<open>Copy4KPage::new\<close>: None outside is the panic of a failed copy, None inside a failed allocation.\<close>

definition copy_page_new :: "(u64 \<Rightarrow> u8 list option) \<Rightarrow> u64 \<Rightarrow> kstate \<Rightarrow> (u64 option \<times> kstate) option" where
  "copy_page_new user va s =
     (case pmem_alloc_page s of
        (p, s) \<Rightarrow>
          if p = 0 then Some (None, s)
          else do { bs \<leftarrow> user va;
                    Some (Some p, s\<lparr>page_data := (page_data s)(p := bs)\<rparr>) })"

definition copy_page_drop :: "u64 \<Rightarrow> kstate \<Rightarrow> kstate" where
  "copy_page_drop p s = (if p \<noteq> 0 then pmem_free_page p s else s)"

definition cow_page_new :: "u64 \<Rightarrow> kstate \<Rightarrow> u64 \<times> kstate" where
  "cow_page_new p s = (p, pmem_page_dup_rmap p (pmem_get_page p s))"

definition cow_page_drop :: "u64 \<Rightarrow> kstate \<Rightarrow> kstate" where
  "cow_page_drop p s = pmem_page_free_rmap p (pmem_put_page p s)"

type_synonym ShadowPageTable = "u64 list"

definition add_page :: "ShadowPageTable \<Rightarrow> u64 \<Rightarrow> ShadowPageTable" where
  "add_page t p = t @ [p]"

definition shadow_len :: "ShadowPageTable \<Rightarrow> nat" where
  "shadow_len t = length t"

section \<open>Generating the page tables\<close>

type_synonym gen_state = "kstate \<times> ShadowPageTable \<times> CompactPageTable"

definition copy_pte_entry ::
  "(u64 \<Rightarrow> u8 list option) \<Rightarrow> (u64 \<Rightarrow> u64) \<Rightarrow> ShadowVMA \<Rightarrow> u64 \<Rightarrow> gen_state \<Rightarrow> gen_state option" where
  "copy_pte_entry user page_to_phy sv addr st =
     (case st of (s, inner, flat) \<Rightarrow>
        let phy_addr = pmem_get_phy_from_pte (ptes s addr)
        in if phy_addr > 0 then
             do { (r, s) \<leftarrow> copy_page_new user addr s;
                  copied_page \<leftarrow> r;
                  off \<leftarrow> checked_sub addr (vm_start (vma_inner sv));
                  let flat = cpt_add_one flat (ucast off) (page_to_phy copied_page);
                  Some (s, add_page inner copied_page, flat) }
           else Some (s, inner, flat))"

definition cow_pte_entry :: "kconsts \<Rightarrow> (u64 \<Rightarrow> u64) \<Rightarrow> ShadowVMA \<Rightarrow> u64 \<Rightarrow> gen_state \<Rightarrow> gen_state option" where
  "cow_pte_entry K pte_page sv addr st =
     (case st of (s, inner, flat) \<Rightarrow>
        let phy_addr = pmem_get_phy_from_pte (ptes s addr)
        in if phy_addr > 0 then
             do { let (s, inner) =
                    (if has_write_permission K sv
                     then let (p, s) = cow_page_new (pte_page (ptes s addr)) s
                          in (pmem_clear_pte_write K addr s, add_page inner p)
                     else (s, inner));
                  let phy_addr =
                    (if pmem_check_pte_write K addr s = 0 then encode phy_addr (flag_bits ReadOnly) else phy_addr);
                  off \<leftarrow> checked_sub addr (vm_start (vma_inner sv));
                  Some (s, inner, cpt_add_one flat (ucast off) phy_addr) }
           else Some (s, inner, flat))"

definition copy_generate ::
  "(u64 \<Rightarrow> u8 list option) \<Rightarrow> (u64 \<Rightarrow> u64) \<Rightarrow> (vm_area \<Rightarrow> u64 list) \<Rightarrow> ShadowVMA \<Rightarrow> gen_state \<Rightarrow> gen_state option" where
  "copy_generate user page_to_phy walk_range sv st =
     foldo (copy_pte_entry user page_to_phy sv) (walk_range (vma_inner sv)) st"

definition cow_generate ::
  "kconsts \<Rightarrow> (u64 \<Rightarrow> u64) \<Rightarrow> (vm_area \<Rightarrow> u64 list) \<Rightarrow> ShadowVMA \<Rightarrow> gen_state \<Rightarrow> gen_state option" where
  "cow_generate K pte_page walk_range sv st =
     foldo (cow_pte_entry K pte_page sv) (walk_range (vma_inner sv)) st"

section \<open>The shadow process\<close>

record 'r ShadowProcess =
  descriptor :: "'r ParentDescriptor"
  shadow_vmas :: "ShadowVMA list"
  copy_shadow_pagetable :: "ShadowPageTable option"
  cow_shadow_pagetable :: "ShadowPageTable option"

definition shadow_area ::
  "bool \<Rightarrow> vm_area \<Rightarrow> kstate \<times> ShadowVMA list \<times> VMADescriptor list \<Rightarrow> kstate \<times> ShadowVMA list \<times> VMADescriptor list" where
  "shadow_area cow v st =
     (case st of (s, svs, ds) \<Rightarrow>
        let (sv, s') = shadow_vma_new v cow s in (s', svs @ [sv], ds @ [generate_descriptor v]))"

definition generate_table ::
  "(ShadowVMA \<Rightarrow> gen_state \<Rightarrow> gen_state option) \<Rightarrow> ShadowVMA \<Rightarrow> kstate \<times> ShadowPageTable \<times> CompactPageTable list \<Rightarrow>
    (kstate \<times> ShadowPageTable \<times> CompactPageTable list) option" where
  "generate_table gen sv st =
     (case st of (s, shadow_pt, ts) \<Rightarrow>
        do { (s, shadow_pt, t) \<leftarrow> gen sv (s, shadow_pt, []); Some (s, shadow_pt, ts @ [t]) })"

definition new_cow ::
  "kconsts \<Rightarrow> (u64 \<Rightarrow> u64) \<Rightarrow> (vm_area \<Rightarrow> u64 list) \<Rightarrow> 'r RegDescriptor \<Rightarrow> RDMADescriptor \<Rightarrow> vm_area list \<Rightarrow> kstate \<Rightarrow>
    ('r ShadowProcess \<times> kstate) option" where
  "new_cow K pte_page walk_range regs rdma vmas s =
     (case fold (shadow_area True) vmas (s, [], []) of
        (s, svs, ds) \<Rightarrow>
          do { (s, shadow_pt, ts) \<leftarrow> foldo (generate_table (cow_generate K pte_page walk_range)) svs (s, [], []);
               Some (\<lparr>descriptor = \<lparr>pd_regs = regs, pd_page_table = ts, pd_vma = ds, pd_machine_info = rdma\<rparr>,
                      shadow_vmas = svs, copy_shadow_pagetable = None, cow_shadow_pagetable = Some shadow_pt\<rparr>, s) })"

definition new_copy ::
  "(u64 \<Rightarrow> u8 list option) \<Rightarrow> (u64 \<Rightarrow> u64) \<Rightarrow> (vm_area \<Rightarrow> u64 list) \<Rightarrow> 'r RegDescriptor \<Rightarrow> RDMADescriptor \<Rightarrow> vm_area list \<Rightarrow>
    kstate \<Rightarrow> ('r ShadowProcess \<times> kstate) option" where
  "new_copy user page_to_phy walk_range regs rdma vmas s =
     (case fold (shadow_area False) vmas (s, [], []) of
        (s, svs, ds) \<Rightarrow>
          do { (s, shadow_pt, ts) \<leftarrow> foldo (generate_table (copy_generate user page_to_phy walk_range)) svs (s, [], []);
               Some (\<lparr>descriptor = \<lparr>pd_regs = regs, pd_page_table = ts, pd_vma = ds, pd_machine_info = rdma\<rparr>,
                      shadow_vmas = svs, copy_shadow_pagetable = Some shadow_pt, cow_shadow_pagetable = None\<rparr>, s) })"

text \<open>Dropping a shadow process drops its fields in the order of their declaration.\<close>

definition shadow_drop :: "'r ShadowProcess \<Rightarrow> kstate \<Rightarrow> kstate" where
  "shadow_drop shadow s =
     (let s = fold shadow_vma_drop (shadow_vmas shadow) s;
          s = (case copy_shadow_pagetable shadow of None \<Rightarrow> s | Some t \<Rightarrow> fold copy_page_drop t s)
      in case cow_shadow_pagetable shadow of None \<Rightarrow> s | Some t \<Rightarrow> fold cow_page_drop t s)"

section \<open>What the generation does\<close>

text \<open>
  The address bits of an entry do not depend on its write bit, which is one of the low 12 bits, and
  the walk visits each address of an area once.
\<close>

definition rw_low :: "kconsts \<Rightarrow> bool" where
  "rw_low K \<longleftrightarrow> PAGE_RW K AND PAGE_MASK = 0"

definition walks_areas :: "(vm_area \<Rightarrow> u64 list) \<Rightarrow> vm_area list \<Rightarrow> bool" where
  "walks_areas walk_range vs \<longleftrightarrow>
     distinct (concat (map walk_range vs)) \<and> (\<forall>v \<in> set vs. \<forall>a \<in> set (walk_range v). vm_start v \<le> a)"

definition present_in :: "kstate \<Rightarrow> u64 \<Rightarrow> bool" where
  "present_in s a \<longleftrightarrow> pmem_get_phy_from_pte (ptes s a) > 0"

definition writable_area :: "kconsts \<Rightarrow> vm_area \<Rightarrow> bool" where
  "writable_area K v \<longleftrightarrow> flags_contain (area_flags v) (VM_WRITE K) \<or> flags_contain (area_flags v) (VM_MAYWRITE K)"

lemma has_write_permission_area [simp]: "has_write_permission K sv = writable_area K (vma_inner sv)"
  by (simp add: has_write_permission_def writable_area_def)

definition cow_entry :: "kconsts \<Rightarrow> vm_area \<Rightarrow> kstate \<Rightarrow> u64 \<Rightarrow> u32 \<times> u64" where
  "cow_entry K v s a =
     (ucast (a - vm_start v),
      let phy = pmem_get_phy_from_pte (ptes s a)
      in if writable_area K v \<or> ptes s a AND PAGE_RW K = 0 then encode phy (flag_bits ReadOnly) else phy)"

text \<open>The addresses that the generation protects, their pages, and the state it leaves.\<close>

definition cow_addrs :: "kconsts \<Rightarrow> (vm_area \<Rightarrow> u64 list) \<Rightarrow> kstate \<Rightarrow> vm_area list \<Rightarrow> u64 list" where
  "cow_addrs K walk_range s vs = concat (map (\<lambda>v. if writable_area K v then filter (present_in s) (walk_range v) else []) vs)"

definition protect :: "kconsts \<Rightarrow> u64 list \<Rightarrow> (u64 \<Rightarrow> u64) \<Rightarrow> u64 \<Rightarrow> u64" where
  "protect K as p = (\<lambda>a. if a \<in> set as then p a AND NOT (PAGE_RW K) else p a)"

definition count_up :: "(u64 \<Rightarrow> int) \<Rightarrow> u64 list \<Rightarrow> u64 \<Rightarrow> int" where
  "count_up c ps = (\<lambda>p. c p + int (count_list ps p))"

definition cow_state :: "kconsts \<Rightarrow> (u64 \<Rightarrow> u64) \<Rightarrow> u64 list \<Rightarrow> kstate \<Rightarrow> kstate" where
  "cow_state K pte_page as s =
     s\<lparr>ptes := protect K as (ptes s),
       page_refs := count_up (page_refs s) (map (\<lambda>a. pte_page (ptes s a)) as),
       map_counts := count_up (map_counts s) (map (\<lambda>a. pte_page (ptes s a)) as)\<rparr>"

lemma get_phy_protected [simp]:
  assumes "rw_low K"
  shows "pmem_get_phy_from_pte (w AND NOT (PAGE_RW K)) = pmem_get_phy_from_pte w"
proof -
  have "\<not> (bit (PAGE_RW K) n \<and> bit PAGE_MASK n)" for n
    using assms bit_imp_le_length [of "PAGE_RW K" n] by (auto simp: rw_low_def bit_eq_iff bit_and_iff)
  then show ?thesis
    by (auto simp: pmem_get_phy_from_pte_def bit_eq_iff bit_and_iff bit_not_iff)
qed

lemma clear_check [simp]: "(w AND NOT m) AND m = (0 :: u64)"
  by (simp add: bit_eq_iff bit_and_iff bit_not_iff)

lemma checked_sub_ge: "(b :: u64) \<le> a \<Longrightarrow> checked_sub a b = Some (a - b)"
  by (simp add: checked_sub_def)

lemma protect_other [simp]: "a \<notin> set as \<Longrightarrow> protect K as p a = p a"
  by (simp add: protect_def)

lemma count_up_snoc: "(count_up c ps)(p := count_up c ps p + 1) = count_up c (ps @ [p])"
  by (auto simp: count_up_def fun_eq_iff)

lemma protect_snoc: "a \<notin> set as \<Longrightarrow> (protect K as p)(a := p a AND NOT (PAGE_RW K)) = protect K (as @ [a]) p"
  by (auto simp: protect_def fun_eq_iff)

lemma cow_page_state:
  assumes "a \<notin> set as"
  shows "pmem_clear_pte_write K a
      (pmem_page_dup_rmap (pte_page (ptes s a)) (pmem_get_page (pte_page (ptes s a)) (cow_state K pte_page as s))) =
    cow_state K pte_page (as @ [a]) s"
  using assms
  by (simp add: pmem_clear_pte_write_def pmem_page_dup_rmap_def pmem_get_page_def cow_state_def
      count_up_snoc protect_snoc)

lemma cow_pte_entry_spec:
  assumes "rw_low K" "a \<notin> set as" "vm_start (vma_inner sv) \<le> a"
  shows "cow_pte_entry K pte_page sv a (cow_state K pte_page as s, inner, flat) =
    Some (if present_in s a
          then (cow_state K pte_page (as @ (if writable_area K (vma_inner sv) then [a] else [])) s,
                inner @ (if writable_area K (vma_inner sv) then [pte_page (ptes s a)] else []),
                flat @ [cow_entry K (vma_inner sv) s a])
          else (cow_state K pte_page as s, inner, flat))"
proof -
  have pte: "ptes (cow_state K pte_page as s) a = ptes s a"
    using assms(2) by (simp add: cow_state_def)
  have off: "checked_sub a (vm_start (vma_inner sv)) = Some (a - vm_start (vma_inner sv))"
    using assms(3) by (rule checked_sub_ge)
  show ?thesis
  proof (cases "writable_area K (vma_inner sv)")
    case True
    have "pmem_check_pte_write K a (cow_state K pte_page (as @ [a]) s) = 0"
      by (simp add: pmem_check_pte_write_def cow_state_def protect_def)
    then show ?thesis
      using True by (simp add: cow_pte_entry_def cow_page_new_def pte off cow_page_state [OF assms(2)] cow_entry_def add_page_def cpt_add_one_def present_in_def Let_def)
  next
    case False
    then show ?thesis
      by (simp add: cow_pte_entry_def pte off pmem_check_pte_write_def cow_entry_def cpt_add_one_def present_in_def Let_def)
  qed
qed

lemma cow_walk:
  assumes "rw_low K" "distinct xs" "set as \<inter> set xs = {}" "\<forall>a \<in> set xs. vm_start (vma_inner sv) \<le> a"
  shows "foldo (cow_pte_entry K pte_page sv) xs (cow_state K pte_page as s, inner, flat) =
    (let w = (if writable_area K (vma_inner sv) then filter (present_in s) xs else [])
     in Some (cow_state K pte_page (as @ w) s, inner @ map (\<lambda>a. pte_page (ptes s a)) w,
              flat @ map (cow_entry K (vma_inner sv) s) (filter (present_in s) xs)))"
  using assms(2-4)
proof (induction xs rule: rev_induct)
  case (snoc x xs)
  have IH: "foldo (cow_pte_entry K pte_page sv) xs (cow_state K pte_page as s, inner, flat) =
    (let w = (if writable_area K (vma_inner sv) then filter (present_in s) xs else [])
     in Some (cow_state K pte_page (as @ w) s, inner @ map (\<lambda>a. pte_page (ptes s a)) w,
              flat @ map (cow_entry K (vma_inner sv) s) (filter (present_in s) xs)))"
    using snoc by auto
  have x: "x \<notin> set (as @ (if writable_area K (vma_inner sv) then filter (present_in s) xs else []))"
    "vm_start (vma_inner sv) \<le> x"
    using snoc.prems by auto
  show ?case
    using cow_pte_entry_spec [OF assms(1) x, of pte_page s] by (simp add: IH Let_def)
qed simp

definition cow_table :: "kconsts \<Rightarrow> (vm_area \<Rightarrow> u64 list) \<Rightarrow> kstate \<Rightarrow> vm_area \<Rightarrow> CompactPageTable" where
  "cow_table K walk_range s v = map (cow_entry K v s) (filter (present_in s) (walk_range v))"

lemma generate_table_apply:
  "generate_table gen sv (s, pt, ts) =
    do { (s, pt, t) \<leftarrow> gen sv (s, pt, []); Some (s, pt, ts @ [t]) }"
  by (simp add: generate_table_def)

lemma cow_tables:
  assumes "rw_low K" "walks_areas walk_range (map vma_inner svs)"
  shows "foldo (generate_table (cow_generate K pte_page walk_range)) svs (s, [], []) =
    (let w = cow_addrs K walk_range s (map vma_inner svs)
     in Some (cow_state K pte_page w s, map (\<lambda>a. pte_page (ptes s a)) w, map (cow_table K walk_range s) (map vma_inner svs)))"
  using assms(2)
proof (induction svs rule: rev_induct)
  case Nil
  then show ?case
    by (simp add: cow_addrs_def cow_state_def protect_def count_up_def)
next
  case (snoc sv svs)
  let ?w = "cow_addrs K walk_range s (map vma_inner svs)" and ?xs = "walk_range (vma_inner sv)"
  have "walks_areas walk_range (map vma_inner svs)"
    using snoc.prems by (auto simp: walks_areas_def)
  note IH = snoc.IH [OF this]
  have "set ?w \<inter> set ?xs = {}" "distinct ?xs" "\<forall>a \<in> set ?xs. vm_start (vma_inner sv) \<le> a"
    using snoc.prems by (auto simp: walks_areas_def cow_addrs_def split: if_splits)
  note cow_walk [OF assms(1) this(2,1,3), of pte_page s "map (\<lambda>a. pte_page (ptes s a)) ?w" "[]"]
  then have "cow_generate K pte_page walk_range sv (cow_state K pte_page ?w s, map (\<lambda>a. pte_page (ptes s a)) ?w, []) =
    (let w = cow_addrs K walk_range s (map vma_inner (svs @ [sv]))
     in Some (cow_state K pte_page w s, map (\<lambda>a. pte_page (ptes s a)) w, cow_table K walk_range s (vma_inner sv)))"
    by (simp add: cow_generate_def cow_table_def cow_addrs_def Let_def)
  then show ?case
    by (simp add: IH Let_def generate_table_apply)
qed

text \<open>The first loop only counts the files of the areas up.\<close>

definition area_files :: "vm_area list \<Rightarrow> u64 list" where
  "area_files vs = filter (\<lambda>f. f \<noteq> 0) (map vm_file vs)"

definition shadow_of :: "bool \<Rightarrow> vm_area \<Rightarrow> ShadowVMA" where
  "shadow_of cow v = \<lparr>vma_inner = v, shadow_file = vm_file v, is_cow = cow\<rparr>"

lemma vma_inner_shadow_of [simp]: "vma_inner (shadow_of cow v) = v"
  by (simp add: shadow_of_def)

lemma shadow_areas:
  "fold (shadow_area cow) vs (s, [], []) =
    (if cow then s\<lparr>file_refs := count_up (file_refs s) (area_files vs)\<rparr> else s,
     map (shadow_of cow) vs, map generate_descriptor vs)"
proof (induction vs rule: rev_induct)
  case Nil
  then show ?case
    by (simp add: area_files_def count_up_def)
next
  case (snoc v vs)
  then show ?case
    by (simp add: shadow_area_def shadow_vma_new_def pmem_get_file_def area_files_def shadow_of_def count_up_snoc Let_def)
qed

lemma new_cow_spec:
  fixes s :: kstate
  assumes "rw_low K" "walks_areas walk_range vs"
  defines "w \<equiv> cow_addrs K walk_range s vs"
  shows "new_cow K pte_page walk_range regs rdma vs s =
    Some (\<lparr>descriptor = \<lparr>pd_regs = regs, pd_page_table = map (cow_table K walk_range s) vs,
                          pd_vma = map generate_descriptor vs, pd_machine_info = rdma\<rparr>,
           shadow_vmas = map (shadow_of True) vs, copy_shadow_pagetable = None,
           cow_shadow_pagetable = Some (map (\<lambda>a. pte_page (ptes s a)) w)\<rparr>,
          cow_state K pte_page w (s\<lparr>file_refs := count_up (file_refs s) (area_files vs)\<rparr>))"
proof -
  let ?s = "s\<lparr>file_refs := count_up (file_refs s) (area_files vs)\<rparr>"
  have eq: "present_in ?s = present_in s" "cow_entry K v ?s = cow_entry K v s" for v
    by (simp_all add: fun_eq_iff present_in_def cow_entry_def)
  have tab: "cow_table K walk_range ?s = cow_table K walk_range s"
    by (rule ext) (simp only: cow_table_def eq)
  have w: "cow_addrs K walk_range ?s vs = w"
    by (simp only: cow_addrs_def eq w_def)
  have map: "map vma_inner (map (shadow_of True) vs) = vs"
    by (simp add: comp_def)
  show ?thesis
    using cow_tables [OF assms(1), of walk_range "map (shadow_of True) vs" pte_page ?s] assms(2)
    by (simp only: new_cow_def shadow_areas map w tab Let_def if_True prod.case Option.bind.simps) simp
qed

text \<open>Dropping.\<close>

definition count_down :: "(u64 \<Rightarrow> int) \<Rightarrow> u64 list \<Rightarrow> u64 \<Rightarrow> int" where
  "count_down c ps = (\<lambda>p. c p - int (count_list ps p))"

lemma count_down_up [simp]: "count_down (count_up c ps) ps = c"
  by (simp add: count_down_def count_up_def)

lemma count_down_snoc: "(count_down c ps)(p := count_down c ps p - 1) = count_down c (ps @ [p])"
  by (auto simp: count_down_def fun_eq_iff)

lemma cow_pages_drop:
  "fold cow_page_drop ps s =
    s\<lparr>page_refs := count_down (page_refs s) ps, map_counts := count_down (map_counts s) ps\<rparr>"
proof (induction ps rule: rev_induct)
  case Nil
  then show ?case
    by (simp add: count_down_def)
next
  case (snoc p ps)
  then show ?case
    by (simp add: cow_page_drop_def pmem_page_free_rmap_def pmem_put_page_def count_down_snoc)
qed

lemma shadow_vma_drop_of:
  "shadow_vma_drop (shadow_of cow v) s =
    (if vm_file v \<noteq> 0 \<and> cow then s\<lparr>file_refs := (file_refs s)(vm_file v := file_refs s (vm_file v) - 1)\<rparr> else s)"
  by (simp add: shadow_vma_drop_def shadow_of_def pmem_put_file_def)

lemma shadow_vmas_drop:
  "fold shadow_vma_drop (map (shadow_of cow) vs) s =
    (if cow then s\<lparr>file_refs := count_down (file_refs s) (area_files vs)\<rparr> else s)"
proof (induction vs rule: rev_induct)
  case Nil
  then show ?case
    by (simp add: area_files_def count_down_def)
next
  case (snoc v vs)
  then show ?case
    by (simp add: shadow_vma_drop_of area_files_def count_down_snoc)
qed

section \<open>Copying\<close>

text \<open>
  The addresses whose pages are copied, with the pages they are copied to: the allocator hands out
  one page per present address.
\<close>

definition copy_addrs :: "(vm_area \<Rightarrow> u64 list) \<Rightarrow> kstate \<Rightarrow> vm_area list \<Rightarrow> u64 list" where
  "copy_addrs walk_range s vs = filter (present_in s) (concat (map walk_range vs))"

fun copied_data :: "(u64 \<Rightarrow> u8 list option) \<Rightarrow> (u64 \<times> u64) list \<Rightarrow> (u64 \<Rightarrow> u8 list) \<Rightarrow> u64 \<Rightarrow> u8 list" where
  "copied_data user [] d = d"
| "copied_data user ((a, p) # xs) d = copied_data user xs (d(p := the (user a)))"

definition copy_state :: "(u64 \<Rightarrow> u8 list option) \<Rightarrow> u64 list \<Rightarrow> kstate \<Rightarrow> kstate" where
  "copy_state user as s =
     s\<lparr>page_data := copied_data user (zip as (alloc_queue s)) (page_data s),
       alloc_queue := drop (length as) (alloc_queue s)\<rparr>"

lemma copied_data_append [simp]: "copied_data user (xs @ ys) d = copied_data user ys (copied_data user xs d)"
  by (induction xs arbitrary: d) auto

lemma zip_snoc_drop: "length xs < length ys \<Longrightarrow> zip (xs @ [x]) ys = zip xs ys @ [(x, ys ! length xs)]"
proof (induction xs arbitrary: ys)
  case Nil
  then show ?case
    by (cases ys) auto
next
  case (Cons z xs)
  then show ?case
    by (cases ys) auto
qed

lemma copied_data_at:
  assumes "distinct (map snd xs)" "(a, p) \<in> set xs"
  shows "copied_data user xs d p = the (user a)"
proof -
  have other: "copied_data user ys d p = d p" if "p \<notin> snd ` set ys" for ys d
    using that by (induction ys arbitrary: d) auto
  show ?thesis
    using assms
  proof (induction xs arbitrary: d)
    case (Cons x xs)
    then show ?case
      by (cases x) (auto simp: other)
  qed simp
qed

lemma copy_pte_entry_spec:
  assumes "length as < length (alloc_queue s)" "alloc_queue s ! length as \<noteq> 0" "user a \<noteq> None"
    and "vm_start (vma_inner sv) \<le> a"
  shows "copy_pte_entry user page_to_phy sv a (copy_state user as s, inner, flat) =
    Some (if present_in s a
          then (copy_state user (as @ [a]) s, inner @ [alloc_queue s ! length as],
                flat @ [(ucast (a - vm_start (vma_inner sv)), page_to_phy (alloc_queue s ! length as))])
          else (copy_state user as s, inner, flat))"
proof -
  obtain bs where bs: "user a = Some bs"
    using assms(3) by blast
  have q: "drop (length as) (alloc_queue s) = alloc_queue s ! length as # drop (Suc (length as)) (alloc_queue s)"
    using assms(1) by (simp add: Cons_nth_drop_Suc)
  show ?thesis
    using assms(2) bs
    by (simp add: copy_pte_entry_def copy_page_new_def pmem_alloc_page_def copy_state_def q
        checked_sub_ge [OF assms(4)] present_in_def zip_snoc_drop [OF assms(1)] cpt_add_one_def add_page_def Let_def)
qed

definition copy_room :: "(u64 \<Rightarrow> u8 list option) \<Rightarrow> kstate \<Rightarrow> u64 list \<Rightarrow> bool" where
  "copy_room user s as \<longleftrightarrow>
     length as \<le> length (alloc_queue s) \<and> 0 \<notin> set (alloc_queue s) \<and> (\<forall>a \<in> set as. user a \<noteq> None)"

definition copy_table :: "(u64 \<Rightarrow> u64) \<Rightarrow> (vm_area \<Rightarrow> u64 list) \<Rightarrow> kstate \<Rightarrow> nat \<Rightarrow> vm_area \<Rightarrow> CompactPageTable" where
  "copy_table page_to_phy walk_range s n v =
     map (\<lambda>(a, p). (ucast (a - vm_start v), page_to_phy p))
       (zip (filter (present_in s) (walk_range v)) (drop n (alloc_queue s)))"

definition copy_table_at :: "(u64 \<Rightarrow> u64) \<Rightarrow> (vm_area \<Rightarrow> u64 list) \<Rightarrow> kstate \<Rightarrow> vm_area list \<Rightarrow> nat \<Rightarrow> CompactPageTable" where
  "copy_table_at page_to_phy walk_range s vs i =
     copy_table page_to_phy walk_range s (length (copy_addrs walk_range s (take i vs))) (vs ! i)"

lemma copy_addrs_split:
  assumes "i < length vs"
  shows "copy_addrs walk_range s vs =
    copy_addrs walk_range s (take i vs) @ filter (present_in s) (walk_range (vs ! i)) @ copy_addrs walk_range s (drop (Suc i) vs)"
  by (subst id_take_nth_drop [OF assms]) (simp add: copy_addrs_def)

lemma copy_pte_absent: "\<not> present_in s a \<Longrightarrow> copy_pte_entry user page_to_phy sv a (copy_state user as s, inner, flat) = Some (copy_state user as s, inner, flat)"
  by (simp add: copy_pte_entry_def copy_state_def present_in_def)

lemma copy_walk:
  assumes "copy_room user s (as @ filter (present_in s) xs)" "\<forall>a \<in> set xs. vm_start (vma_inner sv) \<le> a"
  shows "foldo (copy_pte_entry user page_to_phy sv) xs (copy_state user as s, inner, flat) =
    Some (copy_state user (as @ filter (present_in s) xs) s,
          inner @ take (length (filter (present_in s) xs)) (drop (length as) (alloc_queue s)),
          flat @ map (\<lambda>(a, p). (ucast (a - vm_start (vma_inner sv)), page_to_phy p))
            (zip (filter (present_in s) xs) (drop (length as) (alloc_queue s))))"
  using assms
proof (induction xs rule: rev_induct)
  case (snoc x xs)
  let ?ys = "filter (present_in s) xs"
  have IH: "foldo (copy_pte_entry user page_to_phy sv) xs (copy_state user as s, inner, flat) =
    Some (copy_state user (as @ ?ys) s, inner @ take (length ?ys) (drop (length as) (alloc_queue s)),
      flat @ map (\<lambda>(a, p). (ucast (a - vm_start (vma_inner sv)), page_to_phy p)) (zip ?ys (drop (length as) (alloc_queue s))))"
    using snoc by (auto simp: copy_room_def)
  show ?case
  proof (cases "present_in s x")
    case True
    have len: "length (as @ ?ys) < length (alloc_queue s)" "user x \<noteq> None"
      using snoc.prems(1) True by (simp_all add: copy_room_def)
    then have nz: "alloc_queue s ! length (as @ ?ys) \<noteq> 0"
      using snoc.prems(1) nth_mem by (fastforce simp: copy_room_def)
    have ys: "length ?ys < length (drop (length as) (alloc_queue s))"
      using len(1) by simp
    have "vm_start (vma_inner sv) \<le> x"
      using snoc.prems(2) by simp
    note step = copy_pte_entry_spec [where user = user, OF len(1) nz len(2) this]
    show ?thesis
      using True ys step by (simp add: IH zip_snoc_drop [OF ys] take_Suc_conv_app_nth nth_append)
  qed (simp add: IH copy_pte_absent)
qed simp

lemma copy_tables:
  assumes "copy_room user s (copy_addrs walk_range s (map vma_inner svs))" "walks_areas walk_range (map vma_inner svs)"
  shows "foldo (generate_table (copy_generate user page_to_phy walk_range)) svs (s, [], []) =
    (let vs = map vma_inner svs; as = copy_addrs walk_range s vs
     in Some (copy_state user as s, take (length as) (alloc_queue s),
              map (copy_table_at page_to_phy walk_range s vs) [0..<length vs]))"
  using assms
proof (induction svs rule: rev_induct)
  case Nil
  then show ?case
    by (simp add: copy_addrs_def copy_state_def)
next
  case (snoc sv svs)
  let ?vs = "map vma_inner svs" and ?v = "vma_inner sv"
  let ?as = "copy_addrs walk_range s ?vs"
  have as: "copy_addrs walk_range s (?vs @ [?v]) = ?as @ filter (present_in s) (walk_range ?v)"
    by (simp add: copy_addrs_def)
  have room: "copy_room user s ?as" "walks_areas walk_range ?vs"
    using snoc.prems as by (auto simp: copy_room_def walks_areas_def)
  have "copy_room user s (?as @ filter (present_in s) (walk_range ?v))" "\<forall>a \<in> set (walk_range ?v). vm_start ?v \<le> a"
    using snoc.prems as by (auto simp: walks_areas_def)
  note step = copy_walk [OF this, of page_to_phy "take (length ?as) (alloc_queue s)" "[]"]
  have cong: "map (copy_table_at page_to_phy walk_range s (?vs @ [?v])) [0..<length svs] =
    map (copy_table_at page_to_phy walk_range s ?vs) [0..<length svs]"
    by (rule map_cong) (simp_all add: copy_table_at_def nth_append)
  show ?case
    using step snoc.IH [OF room]
    by (simp add: generate_table_apply copy_generate_def as cong Let_def take_add
        copy_table_at_def copy_table_def nth_append)
qed

lemma new_copy_spec:
  assumes "copy_room user s (copy_addrs walk_range s vs)" "walks_areas walk_range vs"
  shows "new_copy user page_to_phy walk_range regs rdma vs s =
    (let as = copy_addrs walk_range s vs
     in Some (\<lparr>descriptor = \<lparr>pd_regs = regs, pd_page_table = map (copy_table_at page_to_phy walk_range s vs) [0..<length vs],
                             pd_vma = map generate_descriptor vs, pd_machine_info = rdma\<rparr>,
              shadow_vmas = map (shadow_of False) vs, copy_shadow_pagetable = Some (take (length as) (alloc_queue s)),
              cow_shadow_pagetable = None\<rparr>, copy_state user as s))"
proof -
  have "map vma_inner (map (shadow_of False) vs) = vs"
    by (simp add: comp_def)
  then show ?thesis
    using copy_tables [of user s walk_range "map (shadow_of False) vs" page_to_phy] assms
    by (simp add: new_copy_def shadow_areas Let_def)
qed

lemma copy_pages_drop: "0 \<notin> set ps \<Longrightarrow> fold copy_page_drop ps s = s\<lparr>freed := freed s @ ps\<rparr>"
  by (induction ps arbitrary: s) (simp_all add: copy_page_drop_def pmem_free_page_def)

section \<open>Facts about the entries\<close>

lemma bit_pmem_phy: "bit (pmem_get_phy_from_pte w) n \<longleftrightarrow> bit w n \<and> 12 \<le> n \<and> n < 52"
proof -
  have low: "PAGE_MASK = NOT (mask 12)"
    by (simp add: PAGE_MASK_def mask_eq_exp_minus_1)
  have high: "PTE_HIGHER_BIT_MASK = mask 52"
    by (simp add: PTE_HIGHER_BIT_MASK_def mask_eq_exp_minus_1)
  show ?thesis
    using bit_imp_le_length [of w n]
    by (auto simp: pmem_get_phy_from_pte_def low high bit_and_iff bit_not_iff bit_mask_iff)
qed

lemma decode_pmem_phy [simp]: "decode (pmem_get_phy_from_pte w) = pmem_get_phy_from_pte w"
  by (auto simp: bit_eq_iff bit_decode bit_pmem_phy)

lemma decode_cow_entry: "decode (snd (cow_entry K v s a)) = pmem_get_phy_from_pte (ptes s a)"
  by (simp add: cow_entry_def Let_def)

lemma cow_entry_nonzero: "present_in s a \<Longrightarrow> snd (cow_entry K v s a) \<noteq> 0"
  using decode_cow_entry [of K v s a] by (auto simp: present_in_def decode_def)

lemma is_ro_encode_ro: "is_ro (encode a 4)"
  by (simp add: is_ro_bit bit_encode bit_numeral_rec)

lemma is_ro_cow_entry: "writable_area K v \<Longrightarrow> is_ro (snd (cow_entry K v s a))"
  by (simp add: cow_entry_def Let_def is_ro_encode_ro)

lemma ucast_offset:
  fixes a start :: u64
  assumes "start \<le> a" "unat a < unat start + 2 ^ 32"
  shows "(ucast (ucast (a - start) :: u32) :: u64) + start = a"
proof -
  have "unat (a - start) < 2 ^ 32"
    using assms by (simp add: unat_sub)
  then have "(ucast (ucast (a - start) :: u32) :: u64) = a - start"
    by (simp add: word_unat_eq_iff unsigned_ucast_eq unsigned_take_bit_eq take_bit_nat_eq_self)
  then show ?thesis
    by simp
qed

lemma ucast_offset_alias: "(ucast (a + 0x100000000 - start :: u64) :: u32) = ucast (a - start)"
proof -
  have "(ucast (x + 0x100000000 :: u64) :: u32) = ucast x" for x
    by (simp add: word_unat_eq_iff unsigned_ucast_eq unsigned_take_bit_eq take_bit_eq_mod unat_word_ariths mod_mod_cancel)
  from this [of "a - start"] show ?thesis
    by (simp add: algebra_simps)
qed

lemma copy_table_data:
  assumes "copy_room user s (copy_addrs walk_range s vs)" "distinct (alloc_queue s)"
    and i: "i < length vs" and as: "as = filter (present_in s) (walk_range (vs ! i))"
  shows "length (copy_table_at page_to_phy walk_range s vs i) = length as
    \<and> (\<forall>j < length as. \<exists>p. p \<in> set (alloc_queue s)
        \<and> copy_table_at page_to_phy walk_range s vs i ! j = (ucast (as ! j - vm_start (vs ! i)), page_to_phy p)
        \<and> Some (page_data (copy_state user (copy_addrs walk_range s vs) s) p) = user (as ! j))"
proof -
  let ?as = "copy_addrs walk_range s vs" and ?q = "alloc_queue s"
  let ?n = "length (copy_addrs walk_range s (take i vs))"
  have split: "?as = copy_addrs walk_range s (take i vs) @ as @ copy_addrs walk_range s (drop (Suc i) vs)"
    unfolding as by (rule copy_addrs_split [OF i])
  have "length ?as \<le> length ?q"
    using assms(1) by (simp add: copy_room_def)
  then have len: "?n + length as \<le> length ?q"
    unfolding split by simp
  have "(as ! j, ?q ! (?n + j)) \<in> set (zip ?as ?q)" if "j < length as" for j
  proof -
    have "?n + j < length (zip ?as ?q)"
      using that len unfolding split by simp
    moreover from this have "zip ?as ?q ! (?n + j) = (as ! j, ?q ! (?n + j))"
      using that unfolding split by (simp add: nth_append)
    ultimately show ?thesis
      by (metis nth_mem)
  qed
  moreover have "distinct (map snd (zip ?as ?q))"
    using assms(2) by (simp add: map_snd_zip_take)
  ultimately have data: "page_data (copy_state user ?as s) (?q ! (?n + j)) = the (user (as ! j))" if "j < length as" for j
    using that copied_data_at by (simp add: copy_state_def)
  moreover have "user (as ! j) \<noteq> None" if "j < length as" for j
  proof -
    have "as ! j \<in> set ?as"
      using nth_mem [OF that] unfolding split by simp
    then show ?thesis
      using assms(1) unfolding copy_room_def by blast
  qed
  moreover have "?q ! (?n + j) \<in> set ?q" if "j < length as" for j
    using that len by simp
  ultimately have "\<forall>j < length as. ?q ! (?n + j) \<in> set ?q \<and> Some (page_data (copy_state user ?as s) (?q ! (?n + j))) = user (as ! j)"
    by auto
  moreover have "copy_table_at page_to_phy walk_range s vs i ! j = (ucast (as ! j - vm_start (vs ! i)), page_to_phy (?q ! (?n + j)))"
    if "j < length as" for j
    using that len by (simp add: copy_table_at_def copy_table_def as [symmetric])
  moreover have "length (copy_table_at page_to_phy walk_range s vs i) = length as"
    using len by (simp add: copy_table_at_def copy_table_def as [symmetric])
  ultimately show ?thesis
    by blast
qed

section \<open>A concrete process\<close>

definition x86_consts :: kconsts where
  "x86_consts =
     \<lparr>PAGE_RW = 2, VM_READ = 1, VM_WRITE = 2, VM_MAYWRITE = 0x20, VM_EXEC = 4, VM_STACK = 0x100,
      VM_DONTEXPAND = 0x40000, VM_MIXEDMAP = 0x10000000,
      PROT_READ = 1, PROT_WRITE = 2, PROT_EXEC = 4, PROT_GROWSUP = 0x02000000\<rparr>"

definition text_area :: vm_area where
  "text_area = \<lparr>vm_start = 0x400000, vm_end = 0x402000, area_flags = 5, vm_page_prot = 0x25, vm_ops = 1, vm_file = 0x77\<rparr>"

definition heap_area :: vm_area where
  "heap_area = \<lparr>vm_start = 0x600000, vm_end = 0x603000, area_flags = 0x23, vm_page_prot = 0x27, vm_ops = 0, vm_file = 0\<rparr>"

definition pages_between :: "vm_area \<Rightarrow> u64 list" where
  "pages_between v = map (\<lambda>i. vm_start v + of_nat i * 4096) [0..<(unat (vm_end v) - unat (vm_start v)) div 4096]"

definition sample_kstate :: kstate where
  "sample_kstate =
     \<lparr>ptes = (\<lambda>a. if a = 0x400000 then 0x9025 else if a = 0x600000 then 0xA067 else if a = 0x602000 then 0x800000000000B067 else 0),
      page_refs = (\<lambda>_. 1), map_counts = (\<lambda>_. 1), file_refs = (\<lambda>_. 1), page_data = (\<lambda>_. []),
      alloc_queue = [0x11, 0x12, 0x13, 0x14], freed = []\<rparr>"

lemma x86_rw_low: "rw_low x86_consts"
  by (simp add: rw_low_def x86_consts_def PAGE_MASK_def)

lemma sample_pages [simp]:
  "pages_between text_area = [0x400000, 0x401000]" "pages_between heap_area = [0x600000, 0x601000, 0x602000]"
  by (simp_all add: pages_between_def text_area_def heap_area_def upt_rec)

lemma sample_walks: "walks_areas pages_between [text_area, heap_area]"
  by (simp add: walks_areas_def) (simp add: text_area_def heap_area_def)

lemma sample_present:
  "present_in sample_kstate 0x400000" "\<not> present_in sample_kstate 0x401000" "present_in sample_kstate 0x600000"
  "\<not> present_in sample_kstate 0x601000" "present_in sample_kstate 0x602000"
  by (simp_all add: present_in_def sample_kstate_def pmem_get_phy_from_pte_def PAGE_MASK_def PTE_HIGHER_BIT_MASK_def)

lemma sample_writable: "\<not> writable_area x86_consts text_area" "writable_area x86_consts heap_area"
  by (simp_all add: writable_area_def flags_contain_def x86_consts_def text_area_def heap_area_def)

section \<open>Properties\<close>

text \<open>C2: Preparing a copy-on-write fork always succeeds and isolates the snapshot: afterwards no present
  page of an area that is or may become writable can be written without a fault, each of them is held by
  the shadow process, no page moved, and the entries of the other areas are as before.\<close>

theorem cow_isolates_snapshot:
  assumes "rw_low K" "walks_areas walk_range vs"
  shows "\<exists>shadow s' pages. new_cow K pte_page walk_range regs rdma vs s = Some (shadow, s')
    \<and> cow_shadow_pagetable shadow = Some pages
    \<and> (\<forall>v \<in> set vs. \<forall>a \<in> set (walk_range v). writable_area K v \<and> pmem_get_phy_from_pte (ptes s a) > 0 \<longrightarrow>
         pmem_check_pte_write K a s' = 0 \<and> pte_page (ptes s a) \<in> set pages)
    \<and> (\<forall>a. pmem_get_phy_from_pte (ptes s' a) = pmem_get_phy_from_pte (ptes s a))
    \<and> (\<forall>a. (\<forall>v \<in> set vs. writable_area K v \<longrightarrow> a \<notin> set (walk_range v)) \<longrightarrow> ptes s' a = ptes s a)
    \<and> (\<forall>p. page_refs s' p = page_refs s p + int (count_list pages p) \<and> map_counts s' p = map_counts s p + int (count_list pages p))"
proof -
  let ?w = "cow_addrs K walk_range s vs"
  have mem: "a \<in> set ?w \<longleftrightarrow> (\<exists>v \<in> set vs. writable_area K v \<and> a \<in> set (walk_range v) \<and> present_in s a)" for a
    by (auto simp: cow_addrs_def split: if_splits)
  show ?thesis
    using assms(1) mem unfolding new_cow_spec [OF assms]
    by (auto simp: cow_state_def protect_def pmem_check_pte_write_def count_up_def present_in_def)
qed

theorem cow_isolates_snapshot_witness:
  "\<exists>shadow s'. new_cow x86_consts (\<lambda>p. p) pages_between (pd_regs sample_parent) (pd_machine_info sample_parent) [text_area, heap_area] sample_kstate = Some (shadow, s')
    \<and> pmem_check_pte_write x86_consts 0x602000 s' = 0 \<and> ptes s' 0x400000 = 0x9025"
proof -
  obtain shadow s' pages where
    s: "new_cow x86_consts (\<lambda>p. p) pages_between (pd_regs sample_parent) (pd_machine_info sample_parent) [text_area, heap_area] sample_kstate = Some (shadow, s')"
      "\<forall>v \<in> set [text_area, heap_area]. \<forall>a \<in> set (pages_between v).
         writable_area x86_consts v \<and> pmem_get_phy_from_pte (ptes sample_kstate a) > 0 \<longrightarrow>
         pmem_check_pte_write x86_consts a s' = 0 \<and> ptes sample_kstate a \<in> set pages"
      "\<forall>a. (\<forall>v \<in> set [text_area, heap_area]. writable_area x86_consts v \<longrightarrow> a \<notin> set (pages_between v)) \<longrightarrow>
         ptes s' a = ptes sample_kstate a"
    using cow_isolates_snapshot [OF x86_rw_low sample_walks, of "\<lambda>p. p" "pd_regs sample_parent" "pd_machine_info sample_parent" sample_kstate] by blast
  have "pmem_check_pte_write x86_consts 0x602000 s' = 0"
    using s(2) sample_writable(2) sample_present(5) by (simp add: present_in_def)
  moreover have "ptes s' 0x400000 = 0x9025"
    using s(3) sample_writable by (simp add: sample_kstate_def)
  ultimately show ?thesis
    using s(1) by blast
qed

text \<open>C36: The descriptor of a copy-on-write fork has one page table per area, which lists exactly the present
  pages of the area in the order of the walk: the distance from the start of the area, and the page's
  physical address. Every page of an area that is or may become writable is listed as read-only, also a
  page that was writable, because the write bit is tested only after it has been cleared.\<close>

theorem cow_descriptor_lists:
  assumes "rw_low K" "walks_areas walk_range vs" "i < length vs"
  shows "let as = filter (\<lambda>a. pmem_get_phy_from_pte (ptes s a) > 0) (walk_range (vs ! i)) in
    \<exists>shadow s' t. new_cow K pte_page walk_range regs rdma vs s = Some (shadow, s')
    \<and> length (pd_page_table (descriptor shadow)) = length (pd_vma (descriptor shadow))
    \<and> pd_vma (descriptor shadow) ! i = generate_descriptor (vs ! i)
    \<and> pd_page_table (descriptor shadow) ! i = t
    \<and> map fst t = map (\<lambda>a. ucast (a - vm_start (vs ! i))) as
    \<and> map (\<lambda>e. decode (snd e)) t = map (\<lambda>a. pmem_get_phy_from_pte (ptes s a)) as
    \<and> (writable_area K (vs ! i) \<longrightarrow> (\<forall>e \<in> set t. is_ro (snd e)))"
proof -
  have as: "(\<lambda>a. pmem_get_phy_from_pte (ptes s a) > 0) = present_in s"
    by (simp add: present_in_def fun_eq_iff)
  have "fst (cow_entry K v s a) = ucast (a - vm_start v)" for v a
    by (simp add: cow_entry_def)
  then show ?thesis
    using assms(3) unfolding new_cow_spec [OF assms(1,2)]
    by (auto simp: cow_table_def as decode_cow_entry is_ro_cow_entry comp_def Let_def)
qed

theorem cow_descriptor_lists_witness:
  "\<exists>shadow s'. new_cow x86_consts (\<lambda>p. p) pages_between (pd_regs sample_parent) (pd_machine_info sample_parent) [text_area, heap_area] sample_kstate = Some (shadow, s')
    \<and> map fst (pd_page_table (descriptor shadow) ! 1) = [0, 0x2000]
    \<and> (\<forall>e \<in> set (pd_page_table (descriptor shadow) ! 1). is_ro (snd e))"
proof -
  have f: "filter (\<lambda>a. pmem_get_phy_from_pte (ptes sample_kstate a) > 0) (pages_between heap_area) = [0x600000, 0x602000]"
    using sample_present by (simp add: present_in_def)
  have "1 < length [text_area, heap_area]"
    by simp
  from cow_descriptor_lists [OF x86_rw_low sample_walks this, of sample_kstate "\<lambda>p. p" "pd_regs sample_parent" "pd_machine_info sample_parent"]
  obtain shadow s' where "new_cow x86_consts (\<lambda>p. p) pages_between (pd_regs sample_parent) (pd_machine_info sample_parent) [text_area, heap_area] sample_kstate = Some (shadow, s')"
    "map fst (pd_page_table (descriptor shadow) ! 1) = map (\<lambda>a. ucast (a - vm_start heap_area)) [0x600000, 0x602000 :: u64]"
    "\<forall>e \<in> set (pd_page_table (descriptor shadow) ! 1). is_ro (snd e)"
    using f sample_writable(2) by (auto simp: Let_def)
  then show ?thesis
    by (simp add: heap_area_def)
qed

text \<open>C37: Dropping the shadow process of a copy-on-write fork gives back exactly what creating it took: all
  reference counts of pages and files are those before, only the write protection stays.\<close>

theorem cow_drop_restores:
  assumes "rw_low K" "walks_areas walk_range vs" "new_cow K pte_page walk_range regs rdma vs s = Some (shadow, s')"
  shows "shadow_drop shadow s' = s\<lparr>ptes := ptes s'\<rparr>"
proof -
  have "count_down (count_up c ps) ps = c" for c ps
    by simp
  moreover have "shadow_vmas shadow = map (shadow_of True) vs" "copy_shadow_pagetable shadow = None"
    "cow_shadow_pagetable shadow = Some (map (\<lambda>a. pte_page (ptes s a)) (cow_addrs K walk_range s vs))"
    "s' = cow_state K pte_page (cow_addrs K walk_range s vs) (s\<lparr>file_refs := count_up (file_refs s) (area_files vs)\<rparr>)"
    using assms(3) new_cow_spec [OF assms(1,2), of pte_page regs rdma s] by auto
  ultimately show ?thesis
    by (simp add: shadow_drop_def shadow_vmas_drop cow_pages_drop cow_state_def Let_def)
qed

theorem cow_drop_restores_witness:
  "shadow_drop (fst (the (new_cow x86_consts (\<lambda>p. p) pages_between (pd_regs sample_parent) (pd_machine_info sample_parent) [text_area, heap_area] sample_kstate)))
     (snd (the (new_cow x86_consts (\<lambda>p. p) pages_between (pd_regs sample_parent) (pd_machine_info sample_parent) [text_area, heap_area] sample_kstate))) =
   sample_kstate\<lparr>ptes := ptes (snd (the (new_cow x86_consts (\<lambda>p. p) pages_between (pd_regs sample_parent) (pd_machine_info sample_parent) [text_area, heap_area] sample_kstate)))\<rparr>"
  by (rule cow_drop_restores [OF x86_rw_low sample_walks, where pte_page = "\<lambda>p. p" and regs = "pd_regs sample_parent" and rdma = "pd_machine_info sample_parent"])
    (simp add: new_cow_spec [OF x86_rw_low sample_walks])

text \<open>C40: The offsets are 32 bits wide: in an area of more than 4 GiB, two present pages 4 GiB apart are
  listed at the same offset, so that a child cannot tell which of the two physical pages an address
  belongs to.\<close>

theorem offsets_wrap:
  assumes "rw_low K" "walks_areas walk_range vs" "i < length vs"
    and "a \<in> set (walk_range (vs ! i))" "a + 0x100000000 \<in> set (walk_range (vs ! i))"
    and "pmem_get_phy_from_pte (ptes s a) > 0" "pmem_get_phy_from_pte (ptes s (a + 0x100000000)) > 0"
  shows "\<exists>shadow s' off e e'. new_cow K pte_page walk_range regs rdma vs s = Some (shadow, s')
    \<and> (off, e) \<in> set (pd_page_table (descriptor shadow) ! i) \<and> (off, e') \<in> set (pd_page_table (descriptor shadow) ! i)
    \<and> decode e = pmem_get_phy_from_pte (ptes s a) \<and> decode e' = pmem_get_phy_from_pte (ptes s (a + 0x100000000))"
proof -
  let ?e = "cow_entry K (vs ! i) s a" and ?e' = "cow_entry K (vs ! i) s (a + 0x100000000)"
  have off: "fst ?e' = fst ?e"
    by (simp add: cow_entry_def ucast_offset_alias)
  have "?e \<in> set (cow_table K walk_range s (vs ! i))" "?e' \<in> set (cow_table K walk_range s (vs ! i))"
    using assms(4-7) by (simp_all add: cow_table_def present_in_def)
  then have "(fst ?e, snd ?e) \<in> set (cow_table K walk_range s (vs ! i))" "(fst ?e, snd ?e') \<in> set (cow_table K walk_range s (vs ! i))"
    using off by (metis prod.collapse)+
  then have "\<exists>off e e'. (off, e) \<in> set (cow_table K walk_range s (vs ! i)) \<and> (off, e') \<in> set (cow_table K walk_range s (vs ! i))
    \<and> decode e = pmem_get_phy_from_pte (ptes s a) \<and> decode e' = pmem_get_phy_from_pte (ptes s (a + 0x100000000))"
    using decode_cow_entry by blast
  then show ?thesis
    using assms(3) unfolding new_cow_spec [OF assms(1,2)] by simp
qed

theorem offsets_wrap_witness:
  "\<exists>shadow s' off e e'.
     new_cow x86_consts (\<lambda>p. p) (\<lambda>_. [0x10000000, 0x110000000]) (pd_regs sample_parent) (pd_machine_info sample_parent)
       [heap_area\<lparr>vm_start := 0x10000000, vm_end := 0x200000000\<rparr>]
       (sample_kstate\<lparr>ptes := (\<lambda>a. if a = 0x10000000 then 0xA067 else 0xB067)\<rparr>) = Some (shadow, s')
     \<and> (off, e) \<in> set (pd_page_table (descriptor shadow) ! 0) \<and> (off, e') \<in> set (pd_page_table (descriptor shadow) ! 0)
     \<and> decode e = 0xA000 \<and> decode e' = 0xB000"
proof -
  let ?v = "heap_area\<lparr>vm_start := 0x10000000, vm_end := 0x200000000\<rparr>" and ?w = "\<lambda>_ :: vm_area. [0x10000000, 0x110000000 :: u64]"
  let ?s = "sample_kstate\<lparr>ptes := (\<lambda>a. if a = 0x10000000 then 0xA067 else 0xB067)\<rparr>"
  have "walks_areas ?w [?v]" "0 < length [?v]"
    by (simp_all add: walks_areas_def)
  moreover have "0x10000000 \<in> set (?w ([?v] ! 0))" "0x10000000 + 0x100000000 \<in> set (?w ([?v] ! 0))"
    by simp_all
  moreover have phys: "pmem_get_phy_from_pte (ptes ?s 0x10000000) = 0xA000"
    "pmem_get_phy_from_pte (ptes ?s (0x10000000 + 0x100000000)) = 0xB000"
    by (simp_all add: pmem_get_phy_from_pte_def PAGE_MASK_def PTE_HIGHER_BIT_MASK_def)
  moreover have "pmem_get_phy_from_pte (ptes ?s 0x10000000) > 0" "pmem_get_phy_from_pte (ptes ?s (0x10000000 + 0x100000000)) > 0"
    unfolding phys by simp_all
  ultimately show ?thesis
    using offsets_wrap [OF x86_rw_low, of ?w "[?v]" 0 "0x10000000" ?s "\<lambda>p. p" "pd_regs sample_parent" "pd_machine_info sample_parent"] unfolding phys by blast
qed

text \<open>C38: A fork by copying takes a snapshot: with enough pages and readable memory it succeeds, and the
  entry for every present address names a fresh page that holds the bytes the process had there; the
  page table of the process is untouched. Dropping the shadow process frees exactly those pages, once.\<close>

theorem copy_takes_snapshot:
  assumes "copy_room user s (copy_addrs walk_range s vs)" "distinct (alloc_queue s)" "walks_areas walk_range vs"
  shows "\<exists>shadow s'. new_copy user page_to_phy walk_range regs rdma vs s = Some (shadow, s')
    \<and> ptes s' = ptes s
    \<and> (\<forall>i < length vs. let t = pd_page_table (descriptor shadow) ! i; as = filter (present_in s) (walk_range (vs ! i)) in
         length t = length as
         \<and> (\<forall>j < length as. \<exists>p. p \<in> set (alloc_queue s)
              \<and> t ! j = (ucast (as ! j - vm_start (vs ! i)), page_to_phy p) \<and> Some (page_data s' p) = user (as ! j)))
    \<and> freed (shadow_drop shadow s') = freed s @ take (length (copy_addrs walk_range s vs)) (alloc_queue s)"
proof -
  let ?as = "copy_addrs walk_range s vs" and ?q = "alloc_queue s"
  have "0 \<notin> set (take (length ?as) ?q)"
    using assms(1) by (meson copy_room_def in_set_takeD)
  then have "freed (shadow_drop \<lparr>descriptor = d, shadow_vmas = map (shadow_of False) vs,
      copy_shadow_pagetable = Some (take (length ?as) ?q), cow_shadow_pagetable = None\<rparr> (copy_state user ?as s)) =
    freed s @ take (length ?as) ?q" for d :: "'a ParentDescriptor"
    by (simp add: shadow_drop_def shadow_vmas_drop copy_pages_drop copy_state_def Let_def)
  moreover have "ptes (copy_state user ?as s) = ptes s"
    by (simp add: copy_state_def)
  ultimately show ?thesis
    using copy_table_data [OF assms(1,2)] by (simp add: new_copy_spec [OF assms(1,3)] Let_def)
qed

theorem copy_takes_snapshot_witness:
  "\<exists>shadow s'. new_copy (\<lambda>a. Some [ucast (drop_bit 12 a)]) (\<lambda>p. p * 4096) pages_between (pd_regs sample_parent) (pd_machine_info sample_parent) [text_area, heap_area] sample_kstate =
      Some (shadow, s')
    \<and> length (pd_page_table (descriptor shadow) ! 1) = 2 \<and> freed (shadow_drop shadow s') = [0x11, 0x12, 0x13]"
proof -
  let ?u = "\<lambda>a :: u64. Some [ucast (drop_bit 12 a) :: u8]"
  have as: "copy_addrs pages_between sample_kstate [text_area, heap_area] = [0x400000, 0x600000, 0x602000]"
    by (simp add: copy_addrs_def sample_present)
  then have room: "copy_room ?u sample_kstate (copy_addrs pages_between sample_kstate [text_area, heap_area])"
    by (simp add: copy_room_def sample_kstate_def)
  have "distinct (alloc_queue sample_kstate)"
    by (simp add: sample_kstate_def)
  note copy_takes_snapshot [OF room this sample_walks, of "\<lambda>p. p * 4096" "pd_regs sample_parent" "pd_machine_info sample_parent"]
  then obtain shadow s' where
    s: "new_copy ?u (\<lambda>p. p * 4096) pages_between (pd_regs sample_parent) (pd_machine_info sample_parent) [text_area, heap_area] sample_kstate = Some (shadow, s')"
      "\<forall>i < length [text_area, heap_area]. length (pd_page_table (descriptor shadow) ! i) =
         length (filter (present_in sample_kstate) (pages_between ([text_area, heap_area] ! i)))"
      "freed (shadow_drop shadow s') = freed sample_kstate @ take (length [0x400000, 0x600000, 0x602000 :: u64]) (alloc_queue sample_kstate)"
    unfolding as Let_def by auto
  have "length (pd_page_table (descriptor shadow) ! 1) = 2"
    using s(2) [rule_format, of 1] by (simp add: sample_present)
  moreover have "freed (shadow_drop shadow s') = [0x11, 0x12, 0x13]"
    using s(3) by (simp add: sample_kstate_def)
  ultimately show ?thesis
    using s(1) by blast
qed

end
