(* ===== verification/Remote_Fork.thy ===== *)
theory Remote_Fork
  imports Child_Descriptor Shadow_Process
begin

text \<open>
  The parent's and the child's side together: a copy-on-write shadow process is generated, its
  descriptor serialised, and a child deserialises the bytes and translates addresses with the
  page table it has built.
\<close>

lemma first_value_unique:
  assumes "(k, w) \<in> set kvs" "same q k" "w \<noteq> 0" "\<forall>(k', w') \<in> set kvs. same q k' \<longrightarrow> w' = w"
  shows "first_value same q kvs = w"
  using assms by (induction same q kvs rule: first_value.induct) auto

lemma first_value_none: "\<forall>(k', w') \<in> set kvs. \<not> same q k' \<Longrightarrow> first_value same q kvs = 0"
  by (induction same q kvs rule: first_value.induct) auto

lemma distinct_concat_unique:
  assumes "distinct (concat (map f xs))" "a \<in> set (f x)" "a \<in> set (f y)" "x \<in> set xs" "y \<in> set xs"
  shows "x = y"
  using assms by (induction xs) auto

text \<open>Every walked address is within 4 GiB of the start of its area.\<close>

definition offsets_fit :: "(vm_area \<Rightarrow> u64 list) \<Rightarrow> vm_area list \<Rightarrow> bool" where
  "offsets_fit walk_range vs \<longleftrightarrow> (\<forall>v \<in> set vs. \<forall>a \<in> set (walk_range v). unat a < unat (vm_start v) + 2 ^ 32)"

definition cow_descriptor ::
  "kconsts \<Rightarrow> (vm_area \<Rightarrow> u64 list) \<Rightarrow> 'r RegDescriptor \<Rightarrow> RDMADescriptor \<Rightarrow> vm_area list \<Rightarrow> kstate \<Rightarrow> 'r ParentDescriptor" where
  "cow_descriptor K walk_range regs rdma vs s =
     \<lparr>pd_regs = regs, pd_page_table = map (cow_table K walk_range s) vs, pd_vma = map generate_descriptor vs,
      pd_machine_info = rdma\<rparr>"

lemma get_start_generate [simp]: "get_start (generate_descriptor v) = vm_start v"
  by (simp add: get_start_def generate_descriptor_def)

lemma cow_areas:
  "parent_areas (cow_descriptor K walk_range regs rdma vs s) = map (\<lambda>v. (generate_descriptor v, cow_table K walk_range s v)) vs"
  by (simp add: parent_areas_def cow_descriptor_def zip_map_map zip_same_conv_map)

lemma cow_mapping:
  assumes "walks_areas walk_range vs" "offsets_fit walk_range vs" "v \<in> set vs" "a \<in> set (walk_range v)"
  shows "(ucast (fst (cow_entry K v s a)) :: u64) + vm_start v = a"
  using assms ucast_offset [of "vm_start v" a]
  by (auto simp: cow_entry_def walks_areas_def offsets_fit_def)

lemma cow_mappings:
  assumes "walks_areas walk_range vs" "offsets_fit walk_range vs"
  shows "parent_mappings (cow_descriptor K walk_range regs rdma vs s) =
    concat (map (\<lambda>v. map (\<lambda>a. (a, snd (cow_entry K v s a))) (filter (present_in s) (walk_range v))) vs)"
proof -
  have "area_mappings (generate_descriptor v, cow_table K walk_range s v) =
    map (\<lambda>a. (a, snd (cow_entry K v s a))) (filter (present_in s) (walk_range v))" if "v \<in> set vs" for v
    using cow_mapping [OF assms that] by (auto simp: area_mappings_def cow_table_def)
  then show ?thesis
    by (auto simp: parent_mappings_def cow_areas comp_def intro!: arg_cong [of _ _ concat])
qed

lemma cow_lookup:
  assumes "walks_areas walk_range vs" "offsets_fit walk_range vs" "inj_on (path_of X) (set (concat (map walk_range vs)))"
    and "v \<in> set vs" "a \<in> set (walk_range v)" "same_page X q a"
  shows "first_value (same_page X) q (parent_mappings (cow_descriptor K walk_range regs rdma vs s)) =
    (if present_in s a then snd (cow_entry K v s a) else 0)"
proof -
  let ?m = "parent_mappings (cow_descriptor K walk_range regs rdma vs s)"
  have mem: "(k, w) \<in> set ?m \<longleftrightarrow>
    (\<exists>u \<in> set vs. k \<in> set (walk_range u) \<and> present_in s k \<and> w = snd (cow_entry K u s k))" for k w
    unfolding cow_mappings [OF assms(1,2)] set_concat set_map by auto
  have same: "k = a" if "same_page X q k" "k \<in> set (walk_range u)" "u \<in> set vs" for k u
  proof (rule inj_onD [OF assms(3)])
    show "path_of X k = path_of X a"
      using that(1) assms(6) by (simp add: same_page_def)
    show "k \<in> set (concat (map walk_range vs))" "a \<in> set (concat (map walk_range vs))"
      using that(2,3) assms(4,5) unfolding set_concat set_map by blast+
  qed
  have area: "u = v" if "a \<in> set (walk_range u)" "u \<in> set vs" for u
    using distinct_concat_unique [of walk_range vs a u v] assms(1,4,5) that by (simp add: walks_areas_def)
  show ?thesis
  proof (cases "present_in s a")
    case True
    have uniq: "w = snd (cow_entry K v s a)" if kw: "(k, w) \<in> set ?m" "same_page X q k" for k w
    proof -
      obtain u where u: "u \<in> set vs" "k \<in> set (walk_range u)" "w = snd (cow_entry K u s k)"
        using kw(1) unfolding mem by blast
      moreover have "k = a"
        using same [OF kw(2) u(2,1)] .
      ultimately show ?thesis
        using area by simp
    qed
    have "(a, snd (cow_entry K v s a)) \<in> set ?m"
      unfolding mem using True assms(4,5) by blast
    from first_value_unique [where same = "same_page X" and q = q, OF this assms(6) cow_entry_nonzero [OF True]]
    have "first_value (same_page X) q ?m = snd (cow_entry K v s a)"
      using uniq by blast
    then show ?thesis
      using True by simp
  next
    case False
    have "\<not> same_page X q k" if "(k, w) \<in> set ?m" for k w
      using that same False unfolding mem by blast
    then have "first_value (same_page X) q ?m = 0"
      by (intro first_value_none) blast
    then show ?thesis
      using False by simp
  qed
qed

lemma cow_addressable:
  assumes "walks_areas walk_range vs" "offsets_fit walk_range vs" "\<forall>v \<in> set vs. \<forall>a \<in> set (walk_range v). C a"
  shows "addressable C (cow_descriptor K walk_range regs rdma vs s)"
proof -
  have "entry_ok C (vm_start v) (cow_entry K v s a)" if "v \<in> set vs" "a \<in> set (walk_range v)" for v a
  proof -
    let ?o = "ucast (fst (cow_entry K v s a)) :: u64"
    have eq: "?o + vm_start v = a" and le: "vm_start v \<le> a"
      using cow_mapping [OF assms(1,2) that, of K s] assms(1) that by (auto simp: walks_areas_def)
    then have "?o = a - vm_start v"
      by (simp add: eq_diff_eq)
    then have "unat ?o + unat (vm_start v) = unat a"
      using le by (simp add: unat_sub word_le_nat_alt)
    then show ?thesis
      using eq assms(3) that unsigned_less [of a, where ?'a = nat] by (simp add: entry_ok_def)
  qed
  then show ?thesis
    by (auto simp: addressable_def cow_areas cow_table_def)
qed

text \<open>What a child gets that has the bytes of a copy-on-write descriptor anywhere in its memory.\<close>

lemma cow_child_view:
  assumes "walks_areas walk_range vs" "offsets_fit walk_range vs"
    and "inj_on (path_of X) (set (concat (map walk_range vs)))" "\<forall>v \<in> set vs. \<forall>a \<in> set (walk_range v). C a"
    and "d = cow_descriptor K walk_range regs rdma vs s" "parent_valid L d"
    and "parent_buf_len L d \<le> bm_len b" "mem_has m (bm_ptr b) (parent_wire L d)"
    and "indices_in_range X" "heap_ok h" "3 * length (parent_mappings d) + 1 \<le> length (avail h)"
  shows "\<exists>c h'. child_deserialize L C X h m b = Some (Some (c, h')) \<and> table_ok h' (cd_page_table c)
    \<and> cd_regs c = regs \<and> cd_vma c = map generate_descriptor vs \<and> cd_machine_info c = rdma
    \<and> (\<forall>v \<in> set vs. \<forall>a \<in> set (walk_range v). \<forall>q. C q \<and> same_page X q a \<longrightarrow>
         map_option (map_option decode) (lookup_pg_table C X h' c q) =
         Some (let phys = pmem_get_phy_from_pte (ptes s a) in if phys = 0 then None else Some phys))"
proof -
  have "addressable C d"
    using cow_addressable [OF assms(1,2,4)] assms(5) by simp
  from child_view_has [OF assms(6-8) this assms(9-11)] obtain c h' where
    c: "child_deserialize L C X h m b = Some (Some (c, h'))" "table_ok h' (cd_page_table c)"
    "cd_regs c = pd_regs d" "cd_vma c = pd_vma d" "cd_machine_info c = pd_machine_info d"
    "\<forall>q. C q \<longrightarrow> lookup_pg_table C X h' c q =
      Some (let w = first_value (same_page X) q (parent_mappings d) in if w = 0 then None else Some w)"
    by blast
  have "map_option (map_option decode) (lookup_pg_table C X h' c q) =
      Some (let phys = pmem_get_phy_from_pte (ptes s a) in if phys = 0 then None else Some phys)"
    if "v \<in> set vs" "a \<in> set (walk_range v)" "C q" "same_page X q a" for v a q
    using c(6) that(3) cow_lookup [OF assms(1,2,3) that(1,2,4), of K regs rdma s] cow_entry_nonzero [of s a K v]
    by (auto simp: assms(5) Let_def decode_cow_entry present_in_def word_gt_0)
  then show ?thesis
    using c(1-5) by (auto simp: assms(5) cow_descriptor_def)
qed

section \<open>Properties\<close>


definition sample_fork :: "u64 ParentDescriptor" where
  "sample_fork = cow_descriptor x86_consts pages_between (pd_regs sample_parent) (pd_machine_info sample_parent)
     [text_area, heap_area] sample_kstate"

lemma sample_fork_tables:
  "map length (pd_page_table sample_fork) = [1, 2]" "length (pd_vma sample_fork) = 2"
  by (simp_all add: sample_fork_def cow_descriptor_def cow_table_def sample_present)

lemma sample_fork_valid: "parent_valid packed_layouts sample_fork"
  by (simp add: parent_valid_def wf_packed_layouts cpt_valid_def sample_fork_def cow_descriptor_def cow_table_def sample_present)

lemma sample_fork_len: "parent_buf_len packed_layouts sample_fork \<le> 400"
  by (simp add: parent_buf_len_def packed_layouts_def sample_fork_def cow_descriptor_def cow_table_def sample_present
      serialization_buf_len_default_def vma_pg_table_serialization_buf_len_def cpt_buf_len_def table_len_def
      struct_layout_def pair_layout_def word_layout_def bool_layout_def)

lemma sample_offsets_fit: "offsets_fit pages_between [text_area, heap_area]"
  by (simp add: offsets_fit_def)

lemma sample_mappings: "length (parent_mappings sample_fork) = 3"
  by (simp add: sample_fork_def cow_mappings [OF sample_walks sample_offsets_fit] sample_present)

lemma sample_pages_differ: "inj_on (path_of four_level_indices) (set (concat (map pages_between [text_area, heap_area])))"
  by (simp add: path_of_def four_level_indices_def)


end
