(* ===== verification/Rdma_Conn.thy ===== *)
theory Rdma_Conn
  imports Async_Future Bytes_Mut Phys_Addr Descriptors
begin

text \<open>
  RDMA connections and remote memory: os-network/src/rdma.rs, rdma/ and remote_memory/, and
  mitosis/src/remote_paging.rs on top of them. The queue pairs and memory regions of KRdmaKit are
  outside: a value of type \<open>rdma_kit\<close> has their operations, over a queue pair state \<open>'q\<close> that is
  threaded through (all clones of a connection share their queue pair), memory regions \<open>'mr\<close>,
  endpoints \<open>'ep\<close> and data path errors \<open>'e\<close>.
\<close>

section \<open>Identifiers and errors\<close>

definition MAX_GID_LEN :: nat where
  "MAX_GID_LEN = 40"

record RawGID =
  gid_inner :: "u8 list"
  real_len :: nat

definition raw_gid_default :: RawGID where
  "raw_gid_default = \<lparr>gid_inner = replicate MAX_GID_LEN 0, real_len = 0\<rparr>"

definition raw_gid_new :: "u8 list \<Rightarrow> RawGID option" where
  "raw_gid_new g =
     (if length g \<le> MAX_GID_LEN
      then Some \<lparr>gid_inner = g @ replicate (MAX_GID_LEN - length g) 0, real_len = length g\<rparr>
      else None)"

definition raw_gid_len :: "RawGID \<Rightarrow> nat" where
  "raw_gid_len g = real_len g"

text \<open>\<open>from_utf8\<close> of the standard library is an argument; None is its error, on which the code panics.\<close>

definition raw_gid_to_string :: "(u8 list \<Rightarrow> 's option) \<Rightarrow> RawGID \<Rightarrow> 's option" where
  "raw_gid_to_string from_utf8 g = from_utf8 (take (real_len g) (gid_inner g))"

datatype WCStatus =
    IB_WC_SUCCESS | IB_WC_LOC_LEN_ERR | IB_WC_LOC_QP_OP_ERR | IB_WC_LOC_EEC_OP_ERR | IB_WC_LOC_PROT_ERR
  | IB_WC_WR_FLUSH_ERR | IB_WC_MW_BIND_ERR | IB_WC_BAD_RESP_ERR | IB_WC_LOC_ACCESS_ERR | IB_WC_REM_INV_REQ_ERR
  | IB_WC_REM_ACCESS_ERR | IB_WC_REM_OP_ERR | IB_WC_RETRY_EXC_ERR | IB_WC_RNR_RETRY_EXC_ERR | IB_WC_LOC_RDD_VIOL_ERR
  | IB_WC_REM_INV_RD_REQ_ERR | IB_WC_REM_ABORT_ERR | IB_WC_INV_EECN_ERR | IB_WC_INV_EEC_STATE_ERR | IB_WC_FATAL_ERR
  | IB_WC_RESP_TIMEOUT_ERR | IB_WC_GENERAL_ERR

definition wc_statuses :: "WCStatus list" where
  "wc_statuses =
     [IB_WC_SUCCESS, IB_WC_LOC_LEN_ERR, IB_WC_LOC_QP_OP_ERR, IB_WC_LOC_EEC_OP_ERR, IB_WC_LOC_PROT_ERR,
      IB_WC_WR_FLUSH_ERR, IB_WC_MW_BIND_ERR, IB_WC_BAD_RESP_ERR, IB_WC_LOC_ACCESS_ERR, IB_WC_REM_INV_REQ_ERR,
      IB_WC_REM_ACCESS_ERR, IB_WC_REM_OP_ERR, IB_WC_RETRY_EXC_ERR, IB_WC_RNR_RETRY_EXC_ERR, IB_WC_LOC_RDD_VIOL_ERR,
      IB_WC_REM_INV_RD_REQ_ERR, IB_WC_REM_ABORT_ERR, IB_WC_INV_EECN_ERR, IB_WC_INV_EEC_STATE_ERR, IB_WC_FATAL_ERR,
      IB_WC_RESP_TIMEOUT_ERR, IB_WC_GENERAL_ERR]"

text \<open>The transmutation of a status number; a number that is no status is undefined behaviour, None here.\<close>

definition wc_status_from :: "u32 \<Rightarrow> WCStatus option" where
  "wc_status_from err = (if unat err < length wc_statuses then Some (wc_statuses ! unat err) else None)"

datatype 'e rdma_err = DatapathError 'e | WCErr WCStatus

definition is_wc_err :: "'e rdma_err \<Rightarrow> bool" where
  "is_wc_err e = (case e of WCErr _ \<Rightarrow> True | _ \<Rightarrow> False)"

definition unwrap_wc_err :: "'e rdma_err \<Rightarrow> WCStatus option" where
  "unwrap_wc_err e = (case e of WCErr s \<Rightarrow> Some s | _ \<Rightarrow> None)"

section \<open>Requests\<close>

datatype RDMAOp = READ | WRITE

record ('mr, 'ep) DCReqPayload =
  dc_mr :: 'mr
  dc_range :: "u64 \<times> u64"
  dc_signaled :: bool
  dc_op :: RDMAOp
  dc_rkey :: u32
  dc_raddr :: u64
  dc_endpoint :: 'ep

definition dc_payload_new :: "'mr \<Rightarrow> u64 \<times> u64 \<Rightarrow> bool \<Rightarrow> RDMAOp \<Rightarrow> u32 \<Rightarrow> u64 \<Rightarrow> 'ep \<Rightarrow> ('mr, 'ep) DCReqPayload" where
  "dc_payload_new m r sg op rk ra ep =
     \<lparr>dc_mr = m, dc_range = r, dc_signaled = sg, dc_op = op, dc_rkey = rk, dc_raddr = ra, dc_endpoint = ep\<rparr>"

record 'mr RCReqPayload =
  rc_mr :: 'mr
  rc_range :: "u64 \<times> u64"
  rc_signaled :: bool
  rc_op :: RDMAOp
  rc_rkey :: u32
  rc_raddr :: u64

definition rc_payload_new :: "'mr \<Rightarrow> u64 \<times> u64 \<Rightarrow> bool \<Rightarrow> RDMAOp \<Rightarrow> u32 \<Rightarrow> u64 \<Rightarrow> 'mr RCReqPayload" where
  "rc_payload_new m r sg op rk ra =
     \<lparr>rc_mr = m, rc_range = r, rc_signaled = sg, rc_op = op, rc_rkey = rk, rc_raddr = ra\<rparr>"

section \<open>Connections\<close>

record ib_wc =
  wc_status :: u32

record ('q, 'mr, 'ep, 'e) rdma_kit =
  mr_new_from_raw :: "u64 \<Rightarrow> nat \<Rightarrow> 'mr option"
  mr_virt_addr :: "'mr \<Rightarrow> u64"
  post_send_dc_read :: "'q \<Rightarrow> 'ep \<Rightarrow> 'mr \<Rightarrow> u64 \<times> u64 \<Rightarrow> bool \<Rightarrow> u64 \<Rightarrow> u32 \<Rightarrow> ('e + unit) \<times> 'q"
  post_send_dc_write :: "'q \<Rightarrow> 'ep \<Rightarrow> 'mr \<Rightarrow> u64 \<times> u64 \<Rightarrow> bool \<Rightarrow> u64 \<Rightarrow> u32 \<Rightarrow> ('e + unit) \<times> 'q"
  post_send_read :: "'q \<Rightarrow> 'mr \<Rightarrow> u64 \<times> u64 \<Rightarrow> bool \<Rightarrow> u64 \<Rightarrow> u32 \<Rightarrow> u64 \<Rightarrow> ('e + unit) \<times> 'q"
  post_send_write :: "'q \<Rightarrow> 'mr \<Rightarrow> u64 \<times> u64 \<Rightarrow> bool \<Rightarrow> u64 \<Rightarrow> u32 \<Rightarrow> u64 \<Rightarrow> ('e + unit) \<times> 'q"
  poll_send_cq :: "'q \<Rightarrow> ('e + ib_wc list) \<times> 'q"
  timeout_err :: 'e

definition dc_post :: "('q, 'mr, 'ep, 'e) rdma_kit \<Rightarrow> 'q \<Rightarrow> ('mr, 'ep) DCReqPayload \<Rightarrow> ('e + unit) \<times> 'q" where
  "dc_post K q req =
     (case dc_op req of
        READ \<Rightarrow> post_send_dc_read K q (dc_endpoint req) (dc_mr req) (dc_range req) (dc_signaled req) (dc_raddr req) (dc_rkey req)
      | WRITE \<Rightarrow> post_send_dc_write K q (dc_endpoint req) (dc_mr req) (dc_range req) (dc_signaled req) (dc_raddr req) (dc_rkey req))"

definition rc_post :: "('q, 'mr, 'ep, 'e) rdma_kit \<Rightarrow> 'q \<Rightarrow> 'mr RCReqPayload \<Rightarrow> ('e + unit) \<times> 'q" where
  "rc_post K q req =
     (case rc_op req of
        READ \<Rightarrow> post_send_read K q (rc_mr req) (rc_range req) (rc_signaled req) (rc_raddr req) (rc_rkey req) (mr_virt_addr K (rc_mr req))
      | WRITE \<Rightarrow> post_send_write K q (rc_mr req) (rc_range req) (rc_signaled req) (rc_raddr req) (rc_rkey req) (mr_virt_addr K (rc_mr req)))"

text \<open>
  Polling asks the completion queue for one completion. \<open>completion[0]\<close> is the first of the array
  the queue pair fills, the first completion returned.
\<close>

definition dc_poll :: "('q, 'mr, 'ep, 'e) rdma_kit \<Rightarrow> ('q, ib_wc, 'e) future" where
  "dc_poll K q =
     (case poll_send_cq K q of
        (Inl e, q') \<Rightarrow> (Inl e, q')
      | (Inr [], q') \<Rightarrow> (Inr NotReady, q')
      | (Inr (wc # _), q') \<Rightarrow> (Inr (Ready wc), q'))"

definition rc_poll :: "('q, 'mr, 'ep, 'e) rdma_kit \<Rightarrow> ('q, ib_wc, 'e) future" where
  "rc_poll K q =
     (case poll_send_cq K q of
        (Inl e, q') \<Rightarrow> (Inl e, q')
      | (Inr [], q') \<Rightarrow> (Inr NotReady, q')
      | (Inr (wc # _), q') \<Rightarrow> (Inr (Ready wc), q'))"

section \<open>Memory devices\<close>

definition local_read :: "mem \<Rightarrow> u64 \<Rightarrow> BytesMut \<Rightarrow> mem \<times> bool" where
  "local_read m addr b = bytes_copy m b (from_raw (unat addr) (bm_len b)) 0"

definition local_write :: "mem \<Rightarrow> u64 \<Rightarrow> BytesMut \<Rightarrow> mem \<times> bool" where
  "local_write m addr payload = bytes_copy m (from_raw (unat addr) (bm_len payload)) payload 0"

text \<open>
  The devices over queue pairs. \<open>phys_to_virt\<close> is the kernel's; None is the panic of a memory region
  that cannot be made.
\<close>

definition dc_read ::
  "('q, 'mr, 'ep, 'e) rdma_kit \<Rightarrow> (u64 \<Rightarrow> u64) \<Rightarrow> 'q \<Rightarrow> 'ep \<Rightarrow> u64 \<Rightarrow> u32 \<Rightarrow> u64 \<Rightarrow> nat \<Rightarrow> (('e + unit) \<times> 'q) option" where
  "dc_read K phys_to_virt q loc addr key to sz =
     do { mr \<leftarrow> mr_new_from_raw K (phys_to_virt to) sz;
          Some (post_send_dc_read K q loc mr (0, of_nat sz) True addr key) }"

definition dc_write ::
  "('q, 'mr, 'ep, 'e) rdma_kit \<Rightarrow> (u64 \<Rightarrow> u64) \<Rightarrow> 'q \<Rightarrow> 'ep \<Rightarrow> u64 \<Rightarrow> u32 \<Rightarrow> u64 \<Rightarrow> nat \<Rightarrow> (('e + unit) \<times> 'q) option" where
  "dc_write K phys_to_virt q loc addr key to sz =
     do { mr \<leftarrow> mr_new_from_raw K (phys_to_virt to) sz;
          Some (post_send_dc_write K q loc mr (0, of_nat sz) True addr key) }"

definition rc_read ::
  "('q, 'mr, 'ep, 'e) rdma_kit \<Rightarrow> (u64 \<Rightarrow> u64) \<Rightarrow> 'q \<Rightarrow> u64 \<Rightarrow> u32 \<Rightarrow> u64 \<Rightarrow> nat \<Rightarrow> (('e + unit) \<times> 'q) option" where
  "rc_read K phys_to_virt q addr key to sz =
     do { mr \<leftarrow> mr_new_from_raw K (phys_to_virt to) sz;
          Some (rc_post K q (rc_payload_new mr (0, of_nat sz) True READ key addr)) }"

definition rc_write ::
  "('q, 'mr, 'ep, 'e) rdma_kit \<Rightarrow> (u64 \<Rightarrow> u64) \<Rightarrow> 'q \<Rightarrow> u64 \<Rightarrow> u32 \<Rightarrow> u64 \<Rightarrow> nat \<Rightarrow> (('e + unit) \<times> 'q) option" where
  "rc_write K phys_to_virt q addr key to sz =
     do { mr \<leftarrow> mr_new_from_raw K (phys_to_virt to) sz;
          Some (rc_post K q (rc_payload_new mr (0, of_nat sz) True WRITE key addr)) }"

text \<open>A completion whose status is not success is an error. Statuses are numbers below 22.\<close>

definition checked_completion :: "(ib_wc, 'e) Poll \<Rightarrow> (ib_wc, 'e rdma_err) Poll" where
  "checked_completion p =
     (case p of
        Inr (Ready wc) \<Rightarrow> if wc_status wc = 0 then Inr (Ready wc) else Inl (WCErr (wc_statuses ! unat (wc_status wc)))
      | Inr NotReady \<Rightarrow> Inr NotReady
      | Inl e \<Rightarrow> Inl (DatapathError e))"

definition dc_device_poll :: "('q, 'mr, 'ep, 'e) rdma_kit \<Rightarrow> ('q, ib_wc, 'e rdma_err) future" where
  "dc_device_poll K q = (let (r, q') = dc_poll K q in (checked_completion r, q'))"

definition rc_device_poll :: "('q, 'mr, 'ep, 'e) rdma_kit \<Rightarrow> ('q, ib_wc, 'e rdma_err) future" where
  "rc_device_poll K q = (let (r, q') = rc_poll K q in (checked_completion r, q'))"

section \<open>Remote paging\<close>

definition TIMEOUT_USEC :: int where
  "TIMEOUT_USEC = 1000000"

record 'ep AccessInfo =
  access_handler :: 'ep
  ai_rkey :: u32
  ai_mac_id :: u64

text \<open>\<open>endpoint\<close> is \<open>DatagramEndpoint::new\<close> on the context of the factory picked for the core, None when there is none.\<close>

definition access_info_new_with_port ::
  "(u8 \<Rightarrow> u32 \<Rightarrow> ib_gid \<Rightarrow> u32 \<Rightarrow> u32 \<Rightarrow> u32 \<Rightarrow> u64 \<Rightarrow> 'ep option) \<Rightarrow> RDMADescriptor \<Rightarrow> u8 \<Rightarrow> 'ep AccessInfo option" where
  "access_info_new_with_port endpoint d local_port =
     do { ep \<leftarrow> endpoint local_port (ucast (lid d)) (gid d) 0 0 (dct_num d) (ucast (dct_key d));
          Some \<lparr>access_handler = ep, ai_rkey = rkey d, ai_mac_id = mac_id d\<rparr> }"

definition access_info_new ::
  "(u8 \<Rightarrow> u32 \<Rightarrow> ib_gid \<Rightarrow> u32 \<Rightarrow> u32 \<Rightarrow> u32 \<Rightarrow> u64 \<Rightarrow> 'ep option) \<Rightarrow> RDMADescriptor \<Rightarrow> 'ep AccessInfo option" where
  "access_info_new endpoint d = access_info_new_with_port endpoint d 1"

text \<open>
  \<open>remote_read\<close> with the queue pair \<open>q\<close> of the core; \<open>clock\<close> is a fresh kernel timer. None is a
  panic, or that the loop does not return.
\<close>

definition remote_read ::
  "('q, 'mr, 'ep, 'e) rdma_kit \<Rightarrow> (u64 \<Rightarrow> u64) \<Rightarrow> ('t \<Rightarrow> int \<times> 't) \<Rightarrow> 't \<Rightarrow> 'q \<Rightarrow> u64 \<Rightarrow> u64 \<Rightarrow> nat \<Rightarrow> 'ep AccessInfo \<Rightarrow>
    (('e rdma_err + unit) \<times> 'q) option" where
  "remote_read K phys_to_virt passed clock q dst src sz ai =
     do { (r, q) \<leftarrow> dc_read K phys_to_virt q (access_handler ai) (decode src) (ai_rkey ai) dst sz;
          (case r of
             Inl e \<Rightarrow> Some (Inl (DatapathError e), q)
           | Inr _ \<Rightarrow>
               do { (res, t) \<leftarrow> block_on (timeout_poll (dc_device_poll K) passed) (timeout_new q clock TIMEOUT_USEC);
                    Some (case res of
                            Inr _ \<Rightarrow> Inr ()
                          | Inl Elapsed \<Rightarrow> Inl (DatapathError (timeout_err K))
                          | Inl (Inner e) \<Rightarrow> Inl e,
                          t_value t) }) }"

definition remote_read_rc ::
  "('q, 'mr, 'ep, 'e) rdma_kit \<Rightarrow> (u64 \<Rightarrow> u64) \<Rightarrow> ('t \<Rightarrow> int \<times> 't) \<Rightarrow> 't \<Rightarrow> 'q \<Rightarrow> u64 \<Rightarrow> u64 \<Rightarrow> nat \<Rightarrow> 'ep AccessInfo \<Rightarrow>
    (('e rdma_err + unit) \<times> 'q) option" where
  "remote_read_rc K phys_to_virt passed clock q dst src sz ai =
     do { (r, q) \<leftarrow> rc_read K phys_to_virt q (decode src) (ai_rkey ai) dst sz;
          (case r of
             Inl e \<Rightarrow> Some (Inl (DatapathError e), q)
           | Inr _ \<Rightarrow>
               do { (res, t) \<leftarrow> block_on (timeout_poll (rc_device_poll K) passed) (timeout_new q clock TIMEOUT_USEC);
                    Some (case res of
                            Inr _ \<Rightarrow> Inr ()
                          | Inl Elapsed \<Rightarrow> Inl (DatapathError (timeout_err K))
                          | Inl (Inner e) \<Rightarrow> Inl e,
                          t_value t) }) }"

section \<open>Queue pairs that complete reads in order\<close>

text \<open>
  What the code relies on of a queue pair, as the documentation of reliable transports states it:
  posted reads wait in the order of posting; a completion is that of the oldest one, whose data is in
  local memory when it completes successfully; a poll that returns nothing changes nothing visible.
  \<open>waiting q\<close> is the list of the reads in flight (local memory, remote address), \<open>memory q\<close> the local
  memory and \<open>remote\<close> the memory of the other machine.
\<close>

definition fifo_reads ::
  "('q, 'mr, 'ep, 'e) rdma_kit \<Rightarrow> ('q \<Rightarrow> ('mr \<times> u64) list) \<Rightarrow> ('q \<Rightarrow> 'mr \<Rightarrow> 'd) \<Rightarrow> (u64 \<Rightarrow> 'd) \<Rightarrow> bool" where
  "fifo_reads K waiting memory remote \<longleftrightarrow>
     (\<forall>q ep mr r ra k q'. post_send_dc_read K q ep mr r True ra k = (Inr (), q') \<longrightarrow>
        waiting q' = waiting q @ [(mr, ra)] \<and> memory q' = memory q)
   \<and> (\<forall>q q'. poll_send_cq K q = (Inr [], q') \<longrightarrow> waiting q' = waiting q \<and> memory q' = memory q)
   \<and> (\<forall>q wc wcs q'. poll_send_cq K q = (Inr (wc # wcs), q') \<longrightarrow>
        (\<exists>mr ra ws. waiting q = (mr, ra) # ws \<and> waiting q' = ws
           \<and> (wc_status wc = 0 \<longrightarrow> memory q' = (memory q)(mr := remote ra))))"

lemma fifo_post:
  assumes "fifo_reads K waiting memory remote" "post_send_dc_read K q ep mr r True ra k = (Inr (), q')"
  shows "waiting q' = waiting q @ [(mr, ra)]" "memory q' = memory q"
  using assms unfolding fifo_reads_def by blast+

lemma fifo_idle:
  assumes "fifo_reads K waiting memory remote" "dc_device_poll K q = (Inr NotReady, q')"
  shows "waiting q' = waiting q" "memory q' = memory q"
proof -
  have "poll_send_cq K q = (Inr [], q')"
    using assms(2) by (auto simp: dc_device_poll_def dc_poll_def checked_completion_def
        split: prod.splits sum.splits Async.splits list.splits if_splits)
  then show "waiting q' = waiting q" "memory q' = memory q"
    using assms(1) unfolding fifo_reads_def by blast+
qed

lemma fifo_complete:
  assumes "fifo_reads K waiting memory remote" "dc_device_poll K q = (Inr (Ready wc), q')"
  shows "\<exists>mr ra. waiting q = (mr, ra) # waiting q' \<and> memory q' = (memory q)(mr := remote ra)"
proof -
  obtain wcs where "poll_send_cq K q = (Inr (wc # wcs), q')" "wc_status wc = 0"
    using assms(2) by (auto simp: dc_device_poll_def dc_poll_def checked_completion_def
        split: prod.splits sum.splits Async.splits list.splits if_splits)
  then show ?thesis
    using assms(1) unfolding fifo_reads_def by blast
qed

text \<open>Blocking with a timeout on a device that became ready consumed the oldest read.\<close>

lemma block_on_invariant:
  fixes poll :: "('s, 'a, 'e) future"
  assumes "block_on poll s = Some (r, s')" "I s" "\<And>s s'. I s \<Longrightarrow> poll s = (Inr NotReady, s') \<Longrightarrow> I s'"
  shows "\<exists>s0. I s0 \<and> fst (poll s0) \<noteq> Inr NotReady \<and> r = outcome (fst (poll s0)) \<and> s' = snd (poll s0)"
proof -
  obtain n where n: "settles poll s n" "\<And>i. i < n \<Longrightarrow> \<not> settles poll s i"
    using block_on_settles [OF assms(1)] exists_least_iff [of "settles poll s"] by auto
  have "I (after_polls poll n s)"
    using n(2) assms(2)
  proof (induction n arbitrary: s)
    case (Suc n)
    obtain s1 where s1: "poll s = (Inr NotReady, s1)"
      using Suc.prems(1) [of 0] by (cases "poll s") (auto simp: settles_def)
    have "\<not> settles poll s1 i" if "i < n" for i
      using Suc.prems(1) [of "Suc i"] that s1 by (simp add: settles_def)
    then show ?case
      using Suc.IH assms(3) [OF Suc.prems(2) s1] s1 by simp
  qed simp
  moreover have "after_polls poll (Suc n) s = snd (poll (after_polls poll n s))" for s
    by (induction n arbitrary: s) simp_all
  ultimately show ?thesis
    using assms(1) n(1) block_on_first [OF n] by (auto simp: settles_def)
qed

lemma timeout_ready:
  assumes "block_on (timeout_poll poll passed) t = Some (Inr v, t')"
    and "J (t_value t)" "\<And>s s'. J s \<Longrightarrow> poll s = (Inr NotReady, s') \<Longrightarrow> J s'"
  shows "\<exists>s0. J s0 \<and> poll s0 = (Inr (Ready v), t_value t')"
proof -
  let ?p = "timeout_poll poll passed"
  have "poll (t_value s) = (Inr NotReady, t_value s')" if "?p s = (Inr NotReady, s')" for s s'
    using that by (auto simp: timeout_poll_cases Let_def split: prod.splits sum.splits Async.splits if_splits)
  then have "J (t_value s')" if "J (t_value s)" "?p s = (Inr NotReady, s')" for s s'
    using that assms(3) by blast
  then have "\<exists>t0. J (t_value t0) \<and> fst (?p t0) \<noteq> Inr NotReady \<and> Inr v = outcome (fst (?p t0)) \<and> t' = snd (?p t0)"
    by (rule block_on_invariant [where I = "\<lambda>t. J (t_value t)", OF assms(1,2)])
  then obtain t0 where t0: "J (t_value t0)" "fst (?p t0) \<noteq> Inr NotReady" "Inr v = outcome (fst (?p t0))" "t' = snd (?p t0)"
    by (elim exE conjE)
  then have "fst (?p t0) = Inr (Ready v)"
    by (auto simp: outcome_def split: sum.splits Async.splits)
  then have "poll (t_value t0) = (Inr (Ready v), t_value t')"
    unfolding t0(4) by (auto simp: timeout_poll_cases Let_def split: prod.splits sum.splits Async.splits if_splits)
  then show ?thesis
    using t0(1) by blast
qed

lemma remote_read_consumes_oldest:
  assumes fifo: "fifo_reads K waiting memory remote"
    and ok: "remote_read K phys_to_virt passed clock q dst src sz ai = Some (Inr (), q')"
  shows "\<exists>mr m ra. mr_new_from_raw K (phys_to_virt dst) sz = Some mr
    \<and> waiting q @ [(mr, decode src)] = (m, ra) # waiting q' \<and> memory q' = (memory q)(m := remote ra)"
proof -
  obtain mr where mr: "mr_new_from_raw K (phys_to_virt dst) sz = Some mr"
    using ok by (cases "mr_new_from_raw K (phys_to_virt dst) sz") (simp_all add: remote_read_def dc_read_def)
  obtain r q1 where rq: "post_send_dc_read K q (access_handler ai) mr (0, of_nat sz) True (decode src) (ai_rkey ai) = (r, q1)"
    by fastforce
  then have post: "post_send_dc_read K q (access_handler ai) mr (0, of_nat sz) True (decode src) (ai_rkey ai) = (Inr (), q1)"
    using ok mr by (cases r) (simp_all add: remote_read_def dc_read_def)
  let ?b = "block_on (timeout_poll (dc_device_poll K) passed) (timeout_new q1 clock TIMEOUT_USEC)"
  obtain res t where res: "?b = Some (res, t)"
    using ok mr post by (cases ?b) (auto simp: remote_read_def dc_read_def)
  then obtain v where wait: "?b = Some (Inr v, t)" and q': "q' = t_value t"
    using ok mr post by (cases res) (auto simp: remote_read_def dc_read_def split: timeout_error.splits)
  let ?J = "\<lambda>s. waiting s = waiting q1 \<and> memory s = memory q1"
  have "?J (t_value (timeout_new q1 clock TIMEOUT_USEC))"
    by (simp add: timeout_new_def)
  then obtain s0 where "?J s0" "dc_device_poll K s0 = (Inr (Ready v), q')"
    using timeout_ready [OF wait, of ?J] fifo_idle [OF fifo] unfolding q' by metis
  with fifo_complete [OF fifo this(2)] fifo_post [OF fifo post] mr show ?thesis
    by auto
qed

lemma remote_read_returns:
  assumes "time_passes passed" "mr_new_from_raw K (phys_to_virt dst) sz = Some mr"
  shows "\<exists>r q'. remote_read K phys_to_virt passed clock q dst src sz ai = Some (r, q')"
proof -
  obtain r q1 where post: "post_send_dc_read K q (access_handler ai) mr (0, of_nat sz) True (decode src) (ai_rkey ai) = (r, q1)"
    by fastforce
  have "\<exists>res t. block_on (timeout_poll (dc_device_poll K) passed) (timeout_new q1 clock TIMEOUT_USEC) = Some (res, t)"
    using timeout_settles [OF assms(1)] by (metis block_on_eq_None not_None_eq prod.collapse)
  then show ?thesis
    using assms(2) post by (cases r) (auto simp: remote_read_def dc_read_def)
qed

section \<open>A simulated queue pair\<close>

text \<open>Reads complete in order, the oldest one after \<open>lag\<close> polls without an answer.\<close>

record sim_qp =
  inflight :: "((u64 \<times> nat) \<times> u64) list"
  local_mem :: "u64 \<times> nat \<Rightarrow> u64"
  lag :: nat

definition sim_poll :: "(u64 \<Rightarrow> u64) \<Rightarrow> sim_qp \<Rightarrow> (unit + ib_wc list) \<times> sim_qp" where
  "sim_poll remote q =
     (case inflight q of
        [] \<Rightarrow> (Inr [], q)
      | (mr, ra) # ws \<Rightarrow>
          if lag q > 0 then (Inr [], q\<lparr>lag := lag q - 1\<rparr>)
          else (Inr [\<lparr>wc_status = 0\<rparr>], q\<lparr>inflight := ws, local_mem := (local_mem q)(mr := remote ra)\<rparr>))"

definition sim_post :: "sim_qp \<Rightarrow> u64 \<times> nat \<Rightarrow> u64 \<Rightarrow> (unit + unit) \<times> sim_qp" where
  "sim_post q mr ra = (Inr (), q\<lparr>inflight := inflight q @ [(mr, ra)]\<rparr>)"

definition sim_kit :: "(u64 \<Rightarrow> u64) \<Rightarrow> (sim_qp, u64 \<times> nat, unit, unit) rdma_kit" where
  "sim_kit remote =
     \<lparr>mr_new_from_raw = (\<lambda>a n. Some (a, n)), mr_virt_addr = fst,
      post_send_dc_read = (\<lambda>q ep mr r sg ra k. sim_post q mr ra), post_send_dc_write = (\<lambda>q ep mr r sg ra k. (Inl (), q)),
      post_send_read = (\<lambda>q mr r sg ra k id. sim_post q mr ra), post_send_write = (\<lambda>q mr r sg ra k id. (Inl (), q)),
      poll_send_cq = sim_poll remote, timeout_err = ()\<rparr>"

lemma sim_fifo: "fifo_reads (sim_kit remote) inflight local_mem remote"
  by (auto simp: fifo_reads_def sim_kit_def sim_post_def sim_poll_def split: list.splits prod.splits if_splits)

definition tick :: "int \<Rightarrow> int \<times> int" where
  "tick c = (c, c + 300000)"

lemma tick_passes: "time_passes tick"
proof -
  have "timer_after tick n c = c + 300000 * int n" for n c
    by (induction n arbitrary: c) (auto simp: tick_def)
  moreover have "\<exists>n. w \<le> c + 300000 * int n" for w c :: int
    by (rule exI [of _ "nat (w - c)"]) auto
  ultimately show ?thesis
    by (simp add: time_passes_def tick_def)
qed

section \<open>Properties\<close>



text \<open>After a read that timed out, the next one on the same queue pair takes its completion: with an
  older read in flight, \<open>remote_read\<close> that reports success has consumed the older read, its own is
  still in flight, and the page it hands out still holds its old content.\<close>

theorem remote_read_takes_stale_completion:
  assumes "fifo_reads K waiting memory remote" "waiting q = (m, ra) # ws"
    and "mr_new_from_raw K (phys_to_virt dst) sz = Some mr" "mr \<noteq> m"
    and "remote_read K phys_to_virt passed clock q dst src sz ai = Some (Inr (), q')"
  shows "waiting q' = ws @ [(mr, decode src)] \<and> memory q' mr = memory q mr"
  using remote_read_consumes_oldest [OF assms(1,5)] assms(2-4) by auto

theorem remote_read_takes_stale_completion_witness:
  "\<exists>q'. remote_read (sim_kit (\<lambda>a. a + 1)) (\<lambda>p. p) tick 0
      \<lparr>inflight = [((0x7000, 4096), 0x8000)], local_mem = (\<lambda>_. 0), lag = 0\<rparr> 0x6000 0x9000 4096
      \<lparr>access_handler = (), ai_rkey = 0, ai_mac_id = 0\<rparr> = Some (Inr (), q')
    \<and> local_mem q' (0x6000, 4096) = 0"
proof -
  let ?q = "\<lparr>inflight = [((0x7000, 4096), 0x8000)], local_mem = (\<lambda>_. 0), lag = 0\<rparr>"
  let ?r = "remote_read (sim_kit (\<lambda>a. a + 1)) (\<lambda>p. p) tick 0 ?q 0x6000 0x9000 4096 \<lparr>access_handler = (), ai_rkey = 0, ai_mac_id = 0\<rparr>"
  have "dc_device_poll (sim_kit (\<lambda>a. a + 1)) (snd (sim_post ?q (0x6000, 4096) (decode 0x9000))) =
      (Inr (Ready \<lparr>wc_status = 0\<rparr>), \<lparr>inflight = [((0x6000, 4096), decode 0x9000)], local_mem = (\<lambda>_. 0)((0x7000, 4096) := 0x8001), lag = 0\<rparr>)"
    by (simp add: dc_device_poll_def dc_poll_def sim_kit_def sim_poll_def sim_post_def checked_completion_def)
  then have "fst (timeout_poll (dc_device_poll (sim_kit (\<lambda>a. a + 1))) tick (timeout_new (snd (sim_post ?q (0x6000, 4096) (decode 0x9000))) 0 TIMEOUT_USEC)) =
      Inr (Ready \<lparr>wc_status = 0\<rparr>)"
    by (simp add: timeout_poll_cases timeout_new_def)
  then have "\<exists>t. block_on (timeout_poll (dc_device_poll (sim_kit (\<lambda>a. a + 1))) tick)
      (timeout_new (snd (sim_post ?q (0x6000, 4096) (decode 0x9000))) 0 TIMEOUT_USEC) = Some (Inr \<lparr>wc_status = 0\<rparr>, t)"
    by (subst block_on_settled) (simp_all add: outcome_def)
  then obtain q' where q': "?r = Some (Inr (), q')"
    by (auto simp: remote_read_def dc_read_def sim_kit_def sim_post_def)
  have "local_mem q' (0x6000, 4096) = local_mem ?q (0x6000, 4096)"
    using remote_read_takes_stale_completion [OF sim_fifo _ _ _ q', of "(0x7000, 4096)" "0x8000" "[]" "(0x6000, 4096)"]
    by (simp add: sim_kit_def)
  then show ?thesis
    using q' by simp
qed

end
