(* ===== verification/Prefetcher.thy ===== *)
theory Prefetcher
  imports Rdma_Conn Page_Table_Iter Kern_Wrappers "HOL-Library.Sublist"
begin

text \<open>
  Prefetching of remote pages (mitosis/src/prefetcher) and the child's reads that use it
  (mitosis/src/descriptors/child.rs): the request arrays, the two strategies that choose the pages
  after a faulting one, the executor with its queue of outstanding reads, and the state a page table
  entry goes through: remote address, in flight, prefetched, taken.
\<close>

section \<open>Requests and strategies\<close>

record 't PrefetchRequests =
  pr_inner :: "'t list"
  pr_sz :: nat

definition requests_new :: "'t \<Rightarrow> nat \<Rightarrow> 't PrefetchRequests" where
  "requests_new dflt n = \<lparr>pr_inner = replicate n dflt, pr_sz = 0\<rparr>"

definition requests_len :: "'t PrefetchRequests \<Rightarrow> nat" where
  "requests_len r = pr_sz r"

definition requests_add :: "'t PrefetchRequests \<Rightarrow> 't \<Rightarrow> 't PrefetchRequests \<times> bool" where
  "requests_add r x =
     (if pr_sz r < length (pr_inner r)
      then (r\<lparr>pr_inner := (pr_inner r)[pr_sz r := x], pr_sz := pr_sz r + 1\<rparr>, True)
      else (r, False))"

definition requests_iter :: "'t PrefetchRequests \<Rightarrow> 't list" where
  "requests_iter r = pr_inner r"

definition requests_index :: "'t PrefetchRequests \<Rightarrow> nat \<Rightarrow> 't option" where
  "requests_index r i = (if i < length (pr_inner r) then Some (pr_inner r ! i) else None)"

text \<open>An iterator is its \<open>next\<close> function, which may fault. The loop of the step strategy runs until it has \<open>n\<close> requests.\<close>

partial_function (option) step_loop ::
  "('it \<Rightarrow> ('t option \<times> 'it) option) \<Rightarrow> ('t \<Rightarrow> bool) \<Rightarrow> nat \<Rightarrow> nat \<Rightarrow> 't PrefetchRequests \<Rightarrow> 'it \<Rightarrow>
    ('t PrefetchRequests \<times> 'it) option" where
  "step_loop nxt need n count r src =
     (if count < n then
        do { (x, src) \<leftarrow> nxt src;
             (case x of
                Some v \<Rightarrow>
                  if need v then step_loop nxt need n (count + 1) (fst (requests_add r v)) src
                  else step_loop nxt need n count r src
              | None \<Rightarrow> Some (r, src)) }
      else Some (r, src))"

definition step_generate ::
  "('it \<Rightarrow> ('t option \<times> 'it) option) \<Rightarrow> ('t \<Rightarrow> bool) \<Rightarrow> 't \<Rightarrow> nat \<Rightarrow> 'it \<Rightarrow> ('t PrefetchRequests \<times> 'it) option" where
  "step_generate nxt need dflt n src = step_loop nxt need n 0 (requests_new dflt n) src"

fun const_loop ::
  "('it \<Rightarrow> ('t option \<times> 'it) option) \<Rightarrow> ('t \<Rightarrow> bool) \<Rightarrow> nat \<Rightarrow> 't PrefetchRequests \<Rightarrow> 'it \<Rightarrow>
    ('t PrefetchRequests \<times> 'it) option" where
  "const_loop nxt need 0 r src = Some (r, src)"
| "const_loop nxt need (Suc n) r src =
     do { (x, src) \<leftarrow> nxt src;
          (case x of
             Some v \<Rightarrow> const_loop nxt need n (if need v then fst (requests_add r v) else r) src
           | None \<Rightarrow> Some (r, src)) }"

definition const_generate ::
  "('it \<Rightarrow> ('t option \<times> 'it) option) \<Rightarrow> ('t \<Rightarrow> bool) \<Rightarrow> 't \<Rightarrow> nat \<Rightarrow> 'it \<Rightarrow> ('t PrefetchRequests \<times> 'it) option" where
  "const_generate nxt need dflt n src = const_loop nxt need n (requests_new dflt n) src"

section \<open>The executor\<close>

record ReplyEntry =
  re_pt :: u64
  re_idx :: nat
  re_user_page :: u64

record ('q, 'ep) DCAsyncPrefetcher =
  pf_conn :: 'q
  pending_queues :: "ReplyEntry list"
  pf_access_info :: "'ep AccessInfo"

definition prefetcher_new_from_raw :: "'q \<Rightarrow> 'ep AccessInfo \<Rightarrow> ('q, 'ep) DCAsyncPrefetcher" where
  "prefetcher_new_from_raw conn ai = \<lparr>pf_conn = conn, pending_queues = [], pf_access_info = ai\<rparr>"

definition num_pending :: "('q, 'ep) DCAsyncPrefetcher \<Rightarrow> nat" where
  "num_pending pf = length (pending_queues pf)"

type_synonym ('q, 'ep) pf_state = "Heap \<times> kstate \<times> ('q, 'ep) DCAsyncPrefetcher"

text \<open>The body of the loop of \<open>execute_reqs\<close>; \<open>page_to_virt\<close> is the kernel's. None is a panic.\<close>

definition execute_req ::
  "('q, 'mr, 'ep, 'e) rdma_kit \<Rightarrow> (u64 \<Rightarrow> u64) \<Rightarrow> PageEntry \<Rightarrow> ('q, 'ep) pf_state \<Rightarrow> ('q, 'ep) pf_state option" where
  "execute_req K page_to_virt req st =
     (case st of (h, ks, pf) \<Rightarrow>
        do { pte_page \<leftarrow> nodes h (pe_page req);
             phyaddr \<leftarrow> table_index pte_page (pe_index req);
             if bottom_bit phyaddr then Some (h, ks, pf)
             else do {
               let remote_pa = real_addr phyaddr;
               h \<leftarrow> table_index_mut h (pe_page req) (pe_index req) K_MAGIC_IN_PREFETCH;
               let (user_page, ks) = pmem_alloc_page ks;
               mr \<leftarrow> mr_new_from_raw K (page_to_virt user_page) 4096;
               (case dc_post K (pf_conn pf)
                       (dc_payload_new mr (0, 4096) True READ (ai_rkey (pf_access_info pf)) remote_pa
                          (access_handler (pf_access_info pf))) of
                  (Inl _, _) \<Rightarrow> None
                | (Inr _, q) \<Rightarrow>
                    Some (h, ks, pf\<lparr>pf_conn := q,
                                     pending_queues := pending_queues pf @
                                       [\<lparr>re_pt = pe_page req, re_idx = pe_index req, re_user_page = user_page\<rparr>]\<rparr>)) } })"

definition execute_reqs ::
  "('q, 'mr, 'ep, 'e) rdma_kit \<Rightarrow> (u64 \<Rightarrow> u64) \<Rightarrow>
    ((RemotePageTableIter \<Rightarrow> (PageEntry option \<times> RemotePageTableIter) option) \<Rightarrow> RemotePageTableIter \<Rightarrow>
      (PageEntry PrefetchRequests \<times> RemotePageTableIter) option) \<Rightarrow>
    RemotePageTableIter \<Rightarrow> ('q, 'ep) pf_state \<Rightarrow> ('q, 'ep) pf_state option" where
  "execute_reqs K page_to_virt strategy src st =
     do { (reqs, src) \<leftarrow> strategy (iter_next (fst st)) src;
          foldo (\<lambda>i st. do { req \<leftarrow> requests_index reqs i; execute_req K page_to_virt req st })
            [0..<requests_len reqs] st }"

definition prefetch_poll ::
  "('q, 'mr, 'ep, 'e) rdma_kit \<Rightarrow> Heap \<times> ('q, 'ep) DCAsyncPrefetcher \<Rightarrow>
    ((u64, 'e) Poll \<times> Heap \<times> ('q, 'ep) DCAsyncPrefetcher) option" where
  "prefetch_poll K st =
     (case st of (h, pf) \<Rightarrow>
        (case dc_poll K (pf_conn pf) of
           (Inr (Ready wc), q) \<Rightarrow>
             (case pending_queues pf of
                [] \<Rightarrow> None
              | v # vs \<Rightarrow>
                  do { require (bottom_bit (re_user_page v) = False);
                       h \<leftarrow> table_index_mut h (re_pt v) (re_idx v) (encode (re_user_page v) (flag_bits Prefetch));
                       Some (Inr (Ready (re_user_page v)), h, pf\<lparr>pf_conn := q, pending_queues := vs\<rparr>) })
         | (Inr NotReady, q) \<Rightarrow> Some (Inr NotReady, h, pf\<lparr>pf_conn := q\<rparr>)
         | (Inl e, q) \<Rightarrow> Some (Inl e, h, pf\<lparr>pf_conn := q\<rparr>)))"

partial_function (option) drain_connections ::
  "('q, 'mr, 'ep, 'e) rdma_kit \<Rightarrow> Heap \<times> ('q, 'ep) DCAsyncPrefetcher \<Rightarrow>
    (('e + 'q) \<times> Heap \<times> ('q, 'ep) DCAsyncPrefetcher) option" where
  "drain_connections K st =
     (if pending_queues (snd st) \<noteq> [] then
        do { (page, st) \<leftarrow> prefetch_poll K st;
             (case page of
                Inl e \<Rightarrow> Some (Inl e, st)
              | Inr _ \<Rightarrow> drain_connections K st) }
      else Some (Inr (pf_conn (snd st)), st))"

section \<open>The child's reads\<close>

text \<open>\<open>poll_prefetcher\<close> polls as long as there is something; an error panics.\<close>

partial_function (option) poll_prefetcher ::
  "('q, 'mr, 'ep, 'e) rdma_kit \<Rightarrow> Heap \<times> ('q, 'ep) DCAsyncPrefetcher \<Rightarrow> (Heap \<times> ('q, 'ep) DCAsyncPrefetcher) option" where
  "poll_prefetcher K st =
     do { (r, st) \<leftarrow> prefetch_poll K st;
          (case r of
             Inr (Ready _) \<Rightarrow> poll_prefetcher K st
           | Inr NotReady \<Rightarrow> Some st
           | Inl _ \<Rightarrow> None) }"

partial_function (option) wait_prefetched ::
  "('q, 'mr, 'ep, 'e) rdma_kit \<Rightarrow> u64 \<Rightarrow> nat \<Rightarrow> Heap \<times> ('q, 'ep) DCAsyncPrefetcher \<Rightarrow>
    (u64 \<times> Heap \<times> ('q, 'ep) DCAsyncPrefetcher) option" where
  "wait_prefetched K pt idx st =
     do { l1_page \<leftarrow> nodes (fst st) pt;
          remote_pa \<leftarrow> table_index l1_page idx;
          if remote_pa = K_MAGIC_IN_PREFETCH
          then do { st \<leftarrow> poll_prefetcher K st; wait_prefetched K pt idx st }
          else Some (remote_pa, st) }"

text \<open>
  The prefetching \<open>read_remote_page\<close>: \<open>q\<close> is the queue pair of the core, used for the faulting page
  itself, \<open>n\<close> the prefetch step, and \<open>C\<close> says which addresses \<open>VirtAddr::new\<close> accepts. First its
  second half, for a page that is not prefetched: the read is posted, the next pages are requested
  while it is under way, then its completion is awaited.
\<close>

definition fetch_and_prefetch ::
  "('q, 'mr, 'ep, 'e) rdma_kit \<Rightarrow> (u64 \<Rightarrow> u64) \<Rightarrow> ('t \<Rightarrow> int \<times> 't) \<Rightarrow> 't \<Rightarrow> nat \<Rightarrow> u64 \<Rightarrow> nat \<Rightarrow> u64 \<Rightarrow>
    'ep AccessInfo \<Rightarrow> 'q \<Rightarrow> ('q, 'ep) pf_state \<Rightarrow> (u64 option \<times> 'q \<times> ('q, 'ep) pf_state) option" where
  "fetch_and_prefetch K page_to_virt passed clock n pt idx remote_pa ai q st =
     (case st of (h, ks, pf) \<Rightarrow>
        do { let (new_page, ks) = pmem_alloc_page ks;
             mr \<leftarrow> mr_new_from_raw K (page_to_virt new_page) 4096;
             let (posted, q) = dc_post K q (dc_payload_new mr (0, 4096) True READ (ai_rkey ai) (decode remote_pa) (access_handler ai));
             require (posted = Inr ());
             (h, ks, pf) \<leftarrow> execute_reqs K page_to_virt
               (\<lambda>nxt. step_generate nxt need_prefetch page_entry_default n) (iter_new_from_l1 pt idx) (h, ks, pf);
             (h, pf) \<leftarrow> poll_prefetcher K (h, pf);
             (res, tm) \<leftarrow> block_on (timeout_poll (dc_poll K) passed) (timeout_new q clock TIMEOUT_USEC);
             (case res of
                Inr _ \<Rightarrow> Some (Some new_page, t_value tm, h, ks, pf)
              | Inl _ \<Rightarrow> Some (None, t_value tm, h, pmem_free_page new_page ks, pf)) })"

definition read_remote_page_prefetch ::
  "('q, 'mr, 'ep, 'e) rdma_kit \<Rightarrow> (u64 \<Rightarrow> u64) \<Rightarrow> ('t \<Rightarrow> int \<times> 't) \<Rightarrow> 't \<Rightarrow> nat \<Rightarrow> page_indices \<Rightarrow> (u64 \<Rightarrow> bool) \<Rightarrow> RemotePageTable \<Rightarrow> u64 \<Rightarrow>
    'ep AccessInfo \<Rightarrow> 'q \<Rightarrow> ('q, 'ep) pf_state \<Rightarrow> (u64 option \<times> 'q \<times> ('q, 'ep) pf_state) option" where
  "read_remote_page_prefetch K page_to_virt passed clock n X C t remote_va ai q st =
     (case st of (h, ks, pf) \<Rightarrow>
        do { require (C remote_va);
             r \<leftarrow> find_l1_page_idx X h t remote_va;
             (case r of
                None \<Rightarrow> Some (None, q, st)
              | Some (pt, idx) \<Rightarrow>
                  do { l1_page \<leftarrow> nodes h pt;
                       remote_pa \<leftarrow> table_index l1_page idx;
                       if is_prefetch remote_pa then
                         do { (remote_pa, h, pf) \<leftarrow> wait_prefetched K pt idx (h, pf);
                              let page = decode remote_pa;
                              h \<leftarrow> table_index_mut h pt idx 0;
                              Some (Some page, q, h, ks, pf) }
                       else fetch_and_prefetch K page_to_virt passed clock n pt idx remote_pa ai q st }) })"

text \<open>The read without prefetching.\<close>

definition read_remote_page ::
  "('q, 'mr, 'ep, 'e) rdma_kit \<Rightarrow> (u64 \<Rightarrow> u64) \<Rightarrow> (u64 \<Rightarrow> u64) \<Rightarrow> ('t \<Rightarrow> int \<times> 't) \<Rightarrow> 't \<Rightarrow> page_indices \<Rightarrow> (u64 \<Rightarrow> bool) \<Rightarrow>
    Heap \<Rightarrow> RemotePageTable \<Rightarrow> u64 \<Rightarrow> 'ep AccessInfo \<Rightarrow> 'q \<Rightarrow> kstate \<Rightarrow> (u64 option \<times> 'q \<times> kstate) option" where
  "read_remote_page K phys_to_virt page_to_phy passed clock X C h t remote_va ai q ks =
     do { require (C remote_va);
          r \<leftarrow> translate X h t remote_va;
          (case r of
             None \<Rightarrow> Some (None, q, ks)
           | Some remote_pa \<Rightarrow>
               do { let (new_page, ks) = pmem_alloc_page ks;
                    (res, q) \<leftarrow> remote_read K phys_to_virt passed clock q (page_to_phy new_page) remote_pa 4096 ai;
                    (case res of
                       Inr _ \<Rightarrow> Some (Some new_page, q, ks)
                     | Inl _ \<Rightarrow> Some (None, q, pmem_free_page new_page ks)) }) }"

section \<open>What the strategies choose\<close>

inductive yields :: "('it \<Rightarrow> ('t option \<times> 'it) option) \<Rightarrow> 'it \<Rightarrow> 't list \<Rightarrow> bool" for nxt where
  yields_end: "nxt src = Some (None, src') \<Longrightarrow> yields nxt src []"
| yields_next: "nxt src = Some (Some x, src') \<Longrightarrow> yields nxt src' xs \<Longrightarrow> yields nxt src (x # xs)"

inductive_cases yields_NilE: "yields nxt src []"
inductive_cases yields_ConsE: "yields nxt src (x # xs)"

definition requests_list :: "'t PrefetchRequests \<Rightarrow> 't list" where
  "requests_list r = take (pr_sz r) (pr_inner r)"

lemma requests_list_add:
  "pr_sz r < length (pr_inner r) \<Longrightarrow> requests_list (fst (requests_add r x)) = requests_list r @ [x]"
  by (simp add: requests_list_def requests_add_def take_Suc_conv_app_nth)

lemma requests_add_sizes [simp]:
  "length (pr_inner (fst (requests_add r x))) = length (pr_inner r)"
  "pr_sz r < length (pr_inner r) \<Longrightarrow> pr_sz (fst (requests_add r x)) = Suc (pr_sz r)"
  by (simp_all add: requests_add_def)

lemma requests_new_simps [simp]:
  "length (pr_inner (requests_new d n)) = n" "pr_sz (requests_new d n) = 0" "requests_list (requests_new d n) = []"
  by (simp_all add: requests_new_def requests_list_def)

lemma step_loop_yields:
  assumes "yields nxt src xs" "length (pr_inner r) = n" "pr_sz r = count" "count \<le> n"
  shows "\<exists>r' src'. step_loop nxt need n count r src = Some (r', src')
    \<and> requests_list r' = requests_list r @ take (n - count) (filter need xs) \<and> pr_sz r' \<le> n \<and> length (pr_inner r') = n"
  using assms
proof (induction xs arbitrary: r count rule: yields.induct)
  case (yields_end src src')
  then show ?case
    by (subst step_loop.simps) simp
next
  case (yields_next src x src' xs)
  show ?case
  proof (cases "count < n")
    case less: True
    show ?thesis
    proof (cases "need x")
      case True
      have "pr_sz r < length (pr_inner r)"
        using less yields_next.prems by simp
      moreover have "take (n - count) (x # ys) = x # take (n - Suc count) ys" for ys
        using less by (simp add: take_Cons')
      ultimately show ?thesis
        using yields_next.IH [of "fst (requests_add r x)" "Suc count"] yields_next.prems yields_next.hyps(1) less True
        by (subst step_loop.simps) (simp add: requests_list_add)
    next
      case False
      then show ?thesis
        using yields_next.IH [of r count] yields_next.prems yields_next.hyps(1) less by (subst step_loop.simps) simp
    qed
  next
    case False
    then show ?thesis
      using yields_next.prems by (subst step_loop.simps) simp
  qed
qed

lemma const_loop_yields:
  assumes "yields nxt src xs" "pr_sz r + n \<le> length (pr_inner r)"
  shows "\<exists>r' src'. const_loop nxt need n r src = Some (r', src')
    \<and> requests_list r' = requests_list r @ filter need (take n xs) \<and> pr_sz r' \<le> pr_sz r + n
    \<and> length (pr_inner r') = length (pr_inner r)"
  using assms
proof (induction nxt need n r src arbitrary: xs rule: const_loop.induct)
  case (2 nxt need n r src)
  show ?case
  proof (cases xs)
    case Nil
    then show ?thesis
      using 2 by (auto elim: yields_NilE)
  next
    case (Cons x ys)
    then obtain src' where y: "nxt src = Some (Some x, src')" "yields nxt src' ys"
      using "2.prems"(1) by (auto elim: yields_ConsE)
    let ?r = "if need x then fst (requests_add r x) else r"
    have r: "pr_sz ?r + n \<le> length (pr_inner ?r)" "length (pr_inner ?r) = length (pr_inner r)" "pr_sz ?r \<le> Suc (pr_sz r)"
      "requests_list ?r = requests_list r @ filter need [x]"
      using "2.prems"(2) by (simp_all add: requests_list_add)
    show ?thesis
      using "2.IH" [OF y(1) refl refl y(2) r(1)] r Cons y(1) by auto
  qed
qed simp

text \<open>
  The contract of a strategy: on any iterator that ends, it returns at most \<open>n\<close> requests, each
  for a page the iterator yields that needs prefetching, in the iterator's order.
\<close>

locale prefetch_strategy =
  fixes gen :: "('it \<Rightarrow> ('t option \<times> 'it) option) \<Rightarrow> 'it \<Rightarrow> ('t PrefetchRequests \<times> 'it) option"
    and need :: "'t \<Rightarrow> bool"
    and n :: nat
  assumes gen_ok: "yields nxt src xs \<Longrightarrow>
    \<exists>r src'. gen nxt src = Some (r, src') \<and> pr_sz r \<le> n \<and> pr_sz r \<le> length (pr_inner r)
      \<and> subseq (requests_list r) (filter need xs)"
begin

lemma requested:
  assumes "yields nxt src xs" "gen nxt src = Some (r, src')" "i < requests_len r"
  shows "\<exists>x. requests_index r i = Some x \<and> need x \<and> x \<in> set xs"
proof -
  have r: "pr_sz r \<le> length (pr_inner r)" "subseq (requests_list r) (filter need xs)"
    using gen_ok [OF assms(1)] assms(2) by auto
  then have "pr_inner r ! i \<in> set (requests_list r)"
    using assms(3) by (auto simp: requests_list_def requests_len_def in_set_conv_nth)
  then have "pr_inner r ! i \<in> set (filter need xs)"
    using r(2) by (auto elim: list_emb_set)
  then show ?thesis
    using r(1) assms(3) by (auto simp: requests_index_def requests_len_def)
qed

end

lemma step_generate_spec:
  assumes "yields nxt src xs"
  shows "\<exists>r src'. step_generate nxt need d n src = Some (r, src') \<and> requests_list r = take n (filter need xs)
    \<and> pr_sz r \<le> n \<and> length (pr_inner r) = n"
  using step_loop_yields [OF assms, of "requests_new d n" n 0 need] by (simp add: step_generate_def)

lemma const_generate_spec:
  assumes "yields nxt src xs"
  shows "\<exists>r src'. const_generate nxt need d n src = Some (r, src') \<and> requests_list r = filter need (take n xs)
    \<and> pr_sz r \<le> n \<and> length (pr_inner r) = n"
  using const_loop_yields [OF assms, of "requests_new d n" n need] by (simp add: const_generate_def)

lemma subseq_take: "subseq (take n xs) xs"
  by (metis append_take_drop_id list_emb_append2 subseq_order.order_refl subseq_append_iff append_Nil2 list_emb_Nil list_emb_append_mono)

interpretation step_strategy: prefetch_strategy "\<lambda>nxt. step_generate nxt need d n" need n for need d n
proof unfold_locales
  fix nxt :: "'a \<Rightarrow> ('b option \<times> 'a) option" and src xs
  assume "yields nxt src xs"
  from step_generate_spec [OF this, of need d n]
  show "\<exists>r src'. step_generate nxt need d n src = Some (r, src') \<and> pr_sz r \<le> n \<and> pr_sz r \<le> length (pr_inner r)
      \<and> subseq (requests_list r) (filter need xs)"
    by (auto simp: subseq_take)
qed

interpretation const_strategy: prefetch_strategy "\<lambda>nxt. const_generate nxt need d n" need n for need d n
proof unfold_locales
  fix nxt :: "'a \<Rightarrow> ('b option \<times> 'a) option" and src xs
  assume "yields nxt src xs"
  from const_generate_spec [OF this, of need d n]
  show "\<exists>r src'. const_generate nxt need d n src = Some (r, src') \<and> pr_sz r \<le> n \<and> pr_sz r \<le> length (pr_inner r)
      \<and> subseq (requests_list r) (filter need xs)"
    by (auto simp: subseq_take intro!: subseq_filter)
qed

section \<open>Entries in flight\<close>

text \<open>Reading and writing one entry of a node.\<close>

definition entry_at :: "Heap \<Rightarrow> u64 \<times> nat \<Rightarrow> u64 option" where
  "entry_at h k = (case nodes h (fst k) of None \<Rightarrow> None | Some n \<Rightarrow> table_index n (snd k))"

lemma table_index_entry_at: "nodes h p = Some n \<Longrightarrow> table_index n i = entry_at h (p, i)"
  by (simp add: entry_at_def)

lemma table_index_mut_Some: "table_index_mut h p i v = None \<longleftrightarrow> entry_at h (p, i) = None"
  by (auto simp: table_index_mut_def entry_at_def table_index_def split: option.splits)

lemma entry_at_mut:
  assumes "table_index_mut h p i v = Some h'"
  shows "entry_at h' k = (if k = (p, i) then Some v else entry_at h k)"
  using assms by (cases k) (auto simp: table_index_mut_def entry_at_def table_index_def split: option.splits if_splits)

lemma entry_at_mut_fun:
  assumes "table_index_mut h p i v = Some h'"
  shows "entry_at h' = (entry_at h)((p, i) \<mapsto> v)"
  using entry_at_mut [OF assms] by auto

definition reply_key :: "ReplyEntry \<Rightarrow> u64 \<times> nat" where
  "reply_key e = (re_pt e, re_idx e)"

definition page_ok :: "u64 \<Rightarrow> bool" where
  "page_ok p \<longleftrightarrow> p \<noteq> 0 \<and> decode p = p"

text \<open>
  An entry is marked as in flight exactly when one reply for it is outstanding; the pages that the
  replies are read into, and those the allocator has, are not null and have the flag bits clear.
\<close>

definition flight_ok :: "Heap \<Rightarrow> ReplyEntry list \<Rightarrow> bool" where
  "flight_ok h es \<longleftrightarrow>
     distinct (map reply_key es) \<and> (\<forall>e \<in> set es. page_ok (re_user_page e))
     \<and> (\<forall>k. entry_at h k = Some K_MAGIC_IN_PREFETCH \<longleftrightarrow> k \<in> reply_key ` set es)"

definition pf_inv :: "('q, 'ep) pf_state \<Rightarrow> bool" where
  "pf_inv st \<longleftrightarrow> (case st of (h, ks, pf) \<Rightarrow>
     flight_ok h (pending_queues pf) \<and> (\<forall>p \<in> set (alloc_queue ks). page_ok p))"

lemma magic_prefetch: "is_prefetch K_MAGIC_IN_PREFETCH"
  by (simp add: is_prefetch_bit K_MAGIC_IN_PREFETCH_def)

lemma encode_page_not_magic: "page_ok p \<Longrightarrow> encode p f \<noteq> K_MAGIC_IN_PREFETCH"
  using decode_encode [of p f] by (auto simp: page_ok_def K_MAGIC_IN_PREFETCH_def decode_def flag_mask_def)

lemma page_ok_bottom: "page_ok p \<Longrightarrow> bottom_bit p = False"
  by (auto simp: page_ok_def bottom_bit_def is_prefetch_bit decode_low_bits)

lemma flight_okD: "flight_ok h es \<Longrightarrow> entry_at h k = Some K_MAGIC_IN_PREFETCH \<longleftrightarrow> k \<in> reply_key ` set es"
  by (cases k) (simp add: flight_ok_def)

lemma flight_okI:
  assumes "distinct (map reply_key es)" "\<And>e. e \<in> set es \<Longrightarrow> page_ok (re_user_page e)"
    and "\<And>k. entry_at h k = Some K_MAGIC_IN_PREFETCH \<longleftrightarrow> k \<in> reply_key ` set es"
  shows "flight_ok h es"
  using assms unfolding flight_ok_def by blast

lemma flight_post:
  assumes "flight_ok h es" "entry_at h k = Some v" "\<not> is_prefetch v"
    and "entry_at h' = (entry_at h)(k \<mapsto> K_MAGIC_IN_PREFETCH)" "reply_key e = k" "page_ok (re_user_page e)"
  shows "flight_ok h' (es @ [e])"
proof (rule flight_okI)
  have "k \<notin> reply_key ` set es"
    using assms(2,3) magic_prefetch flight_okD [OF assms(1), of k] by auto
  then show "distinct (map reply_key (es @ [e]))"
    using assms(1,5) by (auto simp: flight_ok_def)
  show "page_ok (re_user_page x)" if "x \<in> set (es @ [e])" for x
    using that assms(1,6) by (auto simp: flight_ok_def)
  show "entry_at h' x = Some K_MAGIC_IN_PREFETCH \<longleftrightarrow> x \<in> reply_key ` set (es @ [e])" for x
    using flight_okD [OF assms(1), of x] assms(4,5) by simp
qed

lemma flight_complete:
  assumes "flight_ok h (e # es)" "entry_at h' = (entry_at h)(reply_key e \<mapsto> encode (re_user_page e) f)"
  shows "flight_ok h' es"
proof (rule flight_okI)
  have e: "reply_key e \<notin> reply_key ` set es" "page_ok (re_user_page e)"
    using assms(1) by (auto simp: flight_ok_def)
  show "distinct (map reply_key es)" "\<And>x. x \<in> set es \<Longrightarrow> page_ok (re_user_page x)"
    using assms(1) by (auto simp: flight_ok_def)
  show "entry_at h' k = Some K_MAGIC_IN_PREFETCH \<longleftrightarrow> k \<in> reply_key ` set es" for k
    using flight_okD [OF assms(1), of k] e encode_page_not_magic [OF e(2)] assms(2) by auto
qed

lemma flight_take:
  assumes "flight_ok h es" "entry_at h k = Some v" "v \<noteq> K_MAGIC_IN_PREFETCH" "entry_at h' = (entry_at h)(k \<mapsto> 0)"
  shows "flight_ok h' es"
proof (rule flight_okI)
  show "distinct (map reply_key es)" "\<And>x. x \<in> set es \<Longrightarrow> page_ok (re_user_page x)"
    using assms(1) by (auto simp: flight_ok_def)
  show "entry_at h' x = Some K_MAGIC_IN_PREFETCH \<longleftrightarrow> x \<in> reply_key ` set es" for x
    using flight_okD [OF assms(1), of x] assms(2-4) by (auto simp: K_MAGIC_IN_PREFETCH_def)
qed

text \<open>
  The steps on the page table and the queue: a request is posted, a poll completes the oldest read
  or finds nothing, and the faulting thread takes a prefetched page.
\<close>

inductive pf_step :: "('q, 'mr, 'ep, 'e) rdma_kit \<Rightarrow> (u64 \<Rightarrow> u64) \<Rightarrow> ('q, 'ep) pf_state \<Rightarrow> ('q, 'ep) pf_state \<Rightarrow> bool"
  for K page_to_virt where
  post: "execute_req K page_to_virt req (h, ks, pf) = Some st' \<Longrightarrow> alloc_queue ks \<noteq> [] \<Longrightarrow>
    pf_step K page_to_virt (h, ks, pf) st'"
| poll: "prefetch_poll K (h, pf) = Some (r, h', pf') \<Longrightarrow> pf_step K page_to_virt (h, ks, pf) (h', ks, pf')"
| take: "entry_at h (p, i) = Some v \<Longrightarrow> is_prefetch v \<Longrightarrow> v \<noteq> K_MAGIC_IN_PREFETCH \<Longrightarrow> table_index_mut h p i 0 = Some h' \<Longrightarrow>
    pf_step K page_to_virt (h, ks, pf) (h', ks, pf)"

lemma execute_req_cases:
  assumes "execute_req K page_to_virt req (h, ks, pf) = Some (h', ks', pf')"
  obtains (skip) "h' = h" "ks' = ks" "pf' = pf"
  | (posted) v p q where "entry_at h (pe_page req, pe_index req) = Some v" "\<not> is_prefetch v"
      "entry_at h' = (entry_at h)((pe_page req, pe_index req) \<mapsto> K_MAGIC_IN_PREFETCH)"
      "pmem_alloc_page ks = (p, ks')"
      "pf' = pf\<lparr>pf_conn := q, pending_queues := pending_queues pf @ [\<lparr>re_pt = pe_page req, re_idx = pe_index req, re_user_page = p\<rparr>]\<rparr>"
proof -
  obtain n v where n: "nodes h (pe_page req) = Some n" "table_index n (pe_index req) = Some v"
    using assms by (auto simp: execute_req_def fault_simps)
  then have v: "entry_at h (pe_page req, pe_index req) = Some v"
    by (simp add: entry_at_def)
  show ?thesis
  proof (cases "is_prefetch v")
    case True
    then show ?thesis
      using assms n skip by (simp add: execute_req_def bottom_bit_def)
  next
    case False
    obtain p ks1 where p: "pmem_alloc_page ks = (p, ks1)"
      by fastforce
    obtain h1 where h1: "table_index_mut h (pe_page req) (pe_index req) K_MAGIC_IN_PREFETCH = Some h1"
      using v table_index_mut_Some by (metis option.exhaust option.distinct(1))
    obtain mr where mr: "mr_new_from_raw K (page_to_virt p) 4096 = Some mr"
      using assms n False p h1 by (cases "mr_new_from_raw K (page_to_virt p) 4096") (simp_all add: execute_req_def bottom_bit_def)
    have "h' = h1" "ks' = ks1"
      "\<exists>q. pf' = pf\<lparr>pf_conn := q, pending_queues := pending_queues pf @ [\<lparr>re_pt = pe_page req, re_idx = pe_index req, re_user_page = p\<rparr>]\<rparr>"
      using assms n False p h1 mr by (auto simp: execute_req_def bottom_bit_def split: prod.splits sum.splits)
    then show ?thesis
      using posted [OF v False _ p [folded \<open>ks' = ks1\<close>]] entry_at_mut_fun [OF h1] by blast
  qed
qed

lemma prefetch_poll_cases:
  assumes "prefetch_poll K (h, pf) = Some (r, h', pf')"
  obtains (idle) q where "r = Inr NotReady \<or> (\<exists>e. r = Inl e)" "h' = h" "pf' = pf\<lparr>pf_conn := q\<rparr>"
  | (completed) q v vs where "pending_queues pf = v # vs" "r = Inr (Ready (re_user_page v))"
      "entry_at h' = (entry_at h)(reply_key v \<mapsto> encode (re_user_page v) (flag_bits Prefetch))"
      "pf' = pf\<lparr>pf_conn := q, pending_queues := vs\<rparr>"
proof -
  obtain d q where d: "dc_poll K (pf_conn pf) = (d, q)"
    by fastforce
  consider (err) e where "d = Inl e" | (none) "d = Inr NotReady" | (ready) wc where "d = Inr (Ready wc)"
    by (metis Async.exhaust sum.exhaust)
  then show ?thesis
  proof cases
    case ready
    obtain v vs where v: "pending_queues pf = v # vs"
      using assms d ready by (cases "pending_queues pf") (simp_all add: prefetch_poll_def)
    show ?thesis
      using assms d ready v completed [OF v]
      by (auto simp: prefetch_poll_def fault_simps reply_key_def dest!: entry_at_mut_fun)
  qed (use assms d idle in \<open>auto simp: prefetch_poll_def\<close>)
qed

lemma pf_step_inv:
  assumes "pf_step K page_to_virt st st'" "pf_inv st"
  shows "pf_inv st'"
  using assms
proof (induction rule: pf_step.induct)
  case (post req h ks pf st')
  obtain h' ks' pf' where st': "st' = (h', ks', pf')"
    by (cases st')
  obtain p ps where q: "alloc_queue ks = p # ps"
    using post.hyps(2) by (cases "alloc_queue ks") auto
  from post.hyps(1) [unfolded st'] show ?case
  proof (cases rule: execute_req_cases)
    case (posted v p' q')
    then show ?thesis
      using post.prems q flight_post [OF _ posted(1-3), of "pending_queues pf" "\<lparr>re_pt = pe_page req, re_idx = pe_index req, re_user_page = p\<rparr>"]
      by (auto simp: st' pf_inv_def pmem_alloc_page_def reply_key_def)
  qed (use post.prems st' in simp)
next
  case (poll h pf r h' pf' ks)
  from poll.hyps show ?case
  proof (cases rule: prefetch_poll_cases)
    case (completed q v vs)
    then show ?thesis
      using poll.prems flight_complete [OF _ completed(3)] by (simp add: pf_inv_def)
  qed (use poll.prems in \<open>simp add: pf_inv_def\<close>)
next
  case (take h p i v h' ks pf)
  then show ?case
    using flight_take [OF _ take.hyps(1,3) entry_at_mut_fun [OF take.hyps(4)]] by (simp add: pf_inv_def)
qed

lemma pf_steps_inv: "(pf_step K page_to_virt)\<^sup>*\<^sup>* st st' \<Longrightarrow> pf_inv st \<Longrightarrow> pf_inv st'"
  by (induction rule: rtranclp_induct) (auto intro: pf_step_inv)

section \<open>The operations keep the invariant\<close>

definition flight :: "Heap \<times> ('q, 'ep) DCAsyncPrefetcher \<Rightarrow> bool" where
  "flight st \<longleftrightarrow> flight_ok (fst st) (pending_queues (snd st))"

lemma prefetch_poll_flight:
  assumes "prefetch_poll K st = Some (r, st')" "flight st"
  shows "flight st'"
proof -
  obtain h pf h' pf' where st: "st = (h, pf)" "st' = (h', pf')"
    by (cases st, cases st')
  from assms(1) [unfolded st] show ?thesis
  proof (cases rule: prefetch_poll_cases)
    case (completed q v vs)
    then show ?thesis
      using assms(2) flight_complete [OF _ completed(3)] by (simp add: flight_def st)
  qed (use assms(2) in \<open>simp add: flight_def st\<close>)
qed

lemma poll_prefetcher_flight:
  assumes "poll_prefetcher K st = Some st'" "flight st"
  shows "flight st'"
proof -
  have "flight st \<longrightarrow> flight st'"
  proof (rule poll_prefetcher.raw_induct [where P = "\<lambda>K st st'. flight st \<longrightarrow> flight st'", OF _ assms(1)])
    fix rec :: "('a, 'c, 'b, 'd) rdma_kit \<Rightarrow> Heap \<times> ('a, 'b) DCAsyncPrefetcher \<Rightarrow> (Heap \<times> ('a, 'b) DCAsyncPrefetcher) option"
      and K st st'
    assume IH: "\<And>K st st'. rec K st = Some st' \<Longrightarrow> flight st \<longrightarrow> flight st'"
      and eq: "do { (r, st) \<leftarrow> prefetch_poll K st;
          (case r of Inl _ \<Rightarrow> None | Inr (Ready _) \<Rightarrow> rec K st | Inr NotReady \<Rightarrow> Some st) } = Some st'"
    obtain r st1 where r: "prefetch_poll K st = Some (r, st1)"
      using eq by (auto simp: fault_simps)
    consider (ready) v where "r = Inr (Ready v)" "rec K st1 = Some st'" | (none) "st1 = st'"
      using eq r by (cases r) (auto split: Async.splits)
    then show "flight st \<longrightarrow> flight st'"
      using prefetch_poll_flight [OF r] IH by cases blast+
  qed
  with assms(2) show ?thesis
    by blast
qed

lemma wait_prefetched_flight:
  assumes "wait_prefetched K p i st = Some (v, st')" "flight st"
  shows "flight st' \<and> entry_at (fst st') (p, i) = Some v \<and> v \<noteq> K_MAGIC_IN_PREFETCH"
proof -
  let ?P = "\<lambda>(K :: ('a, 'c, 'b, 'd) rdma_kit) p i st r.
    flight st \<longrightarrow> flight (snd r) \<and> entry_at (fst (snd r)) (p, i) = Some (fst r) \<and> fst r \<noteq> K_MAGIC_IN_PREFETCH"
  have "?P K p i st (v, st')"
  proof (rule wait_prefetched.raw_induct [where P = ?P, OF _ assms(1)])
    fix rec :: "('a, 'c, 'b, 'd) rdma_kit \<Rightarrow> u64 \<Rightarrow> nat \<Rightarrow> Heap \<times> ('a, 'b) DCAsyncPrefetcher \<Rightarrow> (u64 \<times> Heap \<times> ('a, 'b) DCAsyncPrefetcher) option"
      and K p i st r
    assume IH: "\<And>K p i st r. rec K p i st = Some r \<Longrightarrow> ?P K p i st r"
      and eq: "do { l1_page \<leftarrow> nodes (fst st) p; remote_pa \<leftarrow> table_index l1_page i;
          if remote_pa = K_MAGIC_IN_PREFETCH then do { st \<leftarrow> poll_prefetcher K st; rec K p i st }
          else Some (remote_pa, st) } = Some r"
    obtain n w where n: "nodes (fst st) p = Some n" "table_index n i = Some w"
      using eq by (auto simp: fault_simps)
    show "?P K p i st r"
    proof (cases "w = K_MAGIC_IN_PREFETCH")
      case True
      then obtain st1 where "poll_prefetcher K st = Some st1" "rec K p i st1 = Some r"
        using eq n by (auto simp: fault_simps)
      then show ?thesis
        using poll_prefetcher_flight IH by blast
    next
      case False
      then show ?thesis
        using eq n by (auto simp: entry_at_def)
    qed
  qed
  with assms(2) show ?thesis
    by simp
qed

lemma execute_reqs_inv:
  assumes "execute_reqs K page_to_virt strategy src (h, ks, pf) = Some (h', ks', pf')" "pf_inv (h, ks, pf)"
    and "\<And>r src'. strategy (iter_next h) src = Some (r, src') \<Longrightarrow> requests_len r \<le> length (alloc_queue ks)"
  shows "pf_inv (h', ks', pf')"
proof -
  have loop: "pf_inv st'" if "foldo (\<lambda>i st. do { req \<leftarrow> f i; execute_req K page_to_virt req st }) is st = Some st'"
    "pf_inv st" "length is \<le> length (alloc_queue (fst (snd st)))" for f :: "nat \<Rightarrow> PageEntry option" and "is" st st'
    using that
  proof (induction "is" arbitrary: st)
    case (Cons j js)
    obtain req st1 where r: "f j = Some req" "execute_req K page_to_virt req st = Some st1"
      "foldo (\<lambda>i st. do { req \<leftarrow> f i; execute_req K page_to_virt req st }) js st1 = Some st'"
      using Cons.prems(1) by (auto simp: fault_simps)
    obtain h ks pf h1 ks1 pf1 where st: "st = (h, ks, pf)" "st1 = (h1, ks1, pf1)"
      by (cases st, cases st1) auto
    have ne: "alloc_queue ks \<noteq> []"
      using Cons.prems(3) st by auto
    have inv: "pf_inv st1"
      using pf_step_inv [OF pf_step.post, OF r(2) [unfolded st(1)] ne] Cons.prems(2) st(1) by blast
    have "length (alloc_queue ks) \<le> Suc (length (alloc_queue ks1))"
      using r(2) unfolding st by (cases rule: execute_req_cases) (auto simp: pmem_alloc_page_def split: list.splits)
    then show ?case
      using Cons.IH [OF r(3) inv] Cons.prems(3) st by simp
  qed simp
  obtain r src' where "strategy (iter_next h) src = Some (r, src')"
    "foldo (\<lambda>i st. do { req \<leftarrow> requests_index r i; execute_req K page_to_virt req st }) [0..<requests_len r] (h, ks, pf) =
      Some (h', ks', pf')"
    using assms(1) by (auto simp: execute_reqs_def fault_simps)
  from loop [OF this(2) assms(2)] assms(3) [OF this(1)] show ?thesis
    by simp
qed

text \<open>The step strategy never returns more than \<open>n\<close> requests, even on an iterator that does not end.\<close>

lemma step_loop_bound:
  assumes "step_loop nxt need n count r src = Some (r', src')" "pr_sz r \<le> n" "length (pr_inner r) = n"
  shows "pr_sz r' \<le> n"
proof -
  have "pr_sz r \<le> n \<and> length (pr_inner r) = n \<longrightarrow> pr_sz (fst x) \<le> n" if "step_loop nxt need n count r src = Some x" for x
    by (rule step_loop.raw_induct
        [where P = "\<lambda>nxt need n count r src x. pr_sz r \<le> n \<and> length (pr_inner r) = n \<longrightarrow> pr_sz (fst x) \<le> n", OF _ that])
      (auto simp: fault_simps requests_add_def split: if_splits option.splits prod.splits)
  from this [OF assms(1)] assms(2,3) show ?thesis
    by simp
qed

lemma step_generate_bound: "step_generate nxt need d n src = Some (r, src') \<Longrightarrow> requests_len r \<le> n"
  using step_loop_bound [of nxt need n 0 "requests_new d n" src r src'] by (simp add: step_generate_def requests_len_def)

end
