(* ===== verification/Prefetch_Progress.thy ===== *)
theory Prefetch_Progress
  imports Prefetcher
begin

text \<open>
  Progress and safety of prefetching: over a queue pair that completes every read after finitely
  many polls, draining a prefetcher and waiting for a page in flight return, and every read keeps
  the correspondence between entries in flight and outstanding replies.
\<close>

section \<open>Queue pairs that deliver\<close>

text \<open>
  \<open>out q\<close> counts the reads in flight and \<open>delay q\<close> bounds the polls until the next completion: each
  poll either completes one read or brings it closer.
\<close>

definition delivers :: "('q, 'mr, 'ep, 'e) rdma_kit \<Rightarrow> ('q \<Rightarrow> nat) \<Rightarrow> ('q \<Rightarrow> nat) \<Rightarrow> bool" where
  "delivers K out delay \<longleftrightarrow>
     (\<forall>q. out q > 0 \<longrightarrow>
        (\<exists>wc q'. poll_send_cq K q = (Inr [wc], q') \<and> Suc (out q') = out q)
      \<or> (\<exists>q'. poll_send_cq K q = (Inr [], q') \<and> out q' = out q \<and> delay q' < delay q))
   \<and> (\<forall>q. out q = 0 \<longrightarrow> (\<exists>q'. poll_send_cq K q = (Inr [], q') \<and> out q' = 0))"

definition landing :: "ReplyEntry \<Rightarrow> (u64 \<times> nat \<Rightarrow> u64 option) \<Rightarrow> u64 \<times> nat \<Rightarrow> u64 option" where
  "landing e m = m(reply_key e \<mapsto> encode (re_user_page e) (flag_bits Prefetch))"

definition landed :: "(u64 \<times> nat \<Rightarrow> u64 option) \<Rightarrow> ReplyEntry list \<Rightarrow> u64 \<times> nat \<Rightarrow> u64 option" where
  "landed m es = fold landing es m"

lemma landed_simps [simp]: "landed m [] = m" "landed m (e # es) = landed (landing e m) es"
  by (simp_all add: landed_def)

lemma landed_other: "k \<notin> reply_key ` set es \<Longrightarrow> landed m es k = m k"
  by (induction es arbitrary: m) (simp_all add: landing_def)

lemma landed_at:
  assumes "distinct (map reply_key es)" "e \<in> set es"
  shows "landed m es (reply_key e) = Some (encode (re_user_page e) (flag_bits Prefetch))"
  using assms
proof (induction es arbitrary: m)
  case (Cons x es)
  then show ?case
    by (cases "e = x") (simp_all add: landed_other landing_def)
qed simp

lemma flight_landed: "flight_ok h es \<Longrightarrow> entry_at h' = landed (entry_at h) (take k es) \<Longrightarrow> flight_ok h' (drop k es)"
proof (induction k arbitrary: h es)
  case 0
  then have "entry_at h' = entry_at h"
    by simp
  then show ?case
    using 0 by (simp add: flight_ok_def)
next
  case (Suc k)
  show ?case
  proof (cases es)
    case Nil
    then show ?thesis
      using Suc.prems by (simp add: flight_ok_def)
  next
    case (Cons e fs)
    have "entry_at h (reply_key e) = Some K_MAGIC_IN_PREFETCH"
      using flight_okD [OF Suc.prems(1)] Cons by simp
    then obtain h1 where h1: "table_index_mut h (re_pt e) (re_idx e) (encode (re_user_page e) (flag_bits Prefetch)) = Some h1"
      using table_index_mut_Some [of h "re_pt e" "re_idx e"] by (metis option.exhaust option.distinct(1) reply_key_def)
    then have e1: "entry_at h1 = landing e (entry_at h)"
      by (simp add: entry_at_mut_fun landing_def reply_key_def)
    have "flight_ok h1 fs"
      using Suc.prems(1) Cons e1 flight_complete [of h e fs h1] by (simp add: landing_def)
    from Suc.IH [OF this] show ?thesis
      using Suc.prems(2) Cons e1 by simp
  qed
qed

lemma poll_progress:
  assumes "delivers K out delay" "flight_ok h (e # es)" "pending_queues pf = e # es" "out (pf_conn pf) = Suc (length es)"
  obtains (completed) h' q where
      "prefetch_poll K (h, pf) = Some (Inr (Ready (re_user_page e)), h', pf\<lparr>pf_conn := q, pending_queues := es\<rparr>)"
      "entry_at h' = landing e (entry_at h)" "out q = length es"
  | (closer) q where "prefetch_poll K (h, pf) = Some (Inr NotReady, h, pf\<lparr>pf_conn := q\<rparr>)"
      "out q = Suc (length es)" "delay q < delay (pf_conn pf)"
proof -
  have "out (pf_conn pf) > 0"
    using assms(4) by simp
  then consider (wc) wc q where "poll_send_cq K (pf_conn pf) = (Inr [wc], q)" "out q = length es"
    | (none) q where "poll_send_cq K (pf_conn pf) = (Inr [], q)" "out q = out (pf_conn pf)" "delay q < delay (pf_conn pf)"
    using assms(1,4) unfolding delivers_def by (metis nat.inject)
  then show ?thesis
  proof cases
    case wc
    have "entry_at h (reply_key e) = Some K_MAGIC_IN_PREFETCH"
      using flight_okD [OF assms(2)] by simp
    then obtain h1 where h1: "table_index_mut h (re_pt e) (re_idx e) (encode (re_user_page e) (flag_bits Prefetch)) = Some h1"
      using table_index_mut_Some [of h "re_pt e" "re_idx e"] by (metis option.exhaust option.distinct(1) reply_key_def)
    have "page_ok (re_user_page e)"
      using assms(2) by (simp add: flight_ok_def)
    then have "prefetch_poll K (h, pf) = Some (Inr (Ready (re_user_page e)), h1, pf\<lparr>pf_conn := q, pending_queues := es\<rparr>)"
      using wc(1) h1 assms(3) by (simp add: prefetch_poll_def dc_poll_def page_ok_bottom)
    moreover have "entry_at h1 = landing e (entry_at h)"
      using entry_at_mut_fun [OF h1] by (simp add: landing_def reply_key_def)
    ultimately show ?thesis
      using completed wc(2) by blast
  next
    case none
    then show ?thesis
      using closer [of q] assms(4) by (simp add: prefetch_poll_def dc_poll_def)
  qed
qed

section \<open>Draining\<close>

lemma drain_done: "pending_queues pf = [] \<Longrightarrow> drain_connections K (h, pf) = Some (Inr (pf_conn pf), h, pf)"
  by (subst drain_connections.simps) simp

lemma drain_step:
  "pending_queues pf \<noteq> [] \<Longrightarrow> prefetch_poll K (h, pf) = Some (Inr r, h', pf') \<Longrightarrow>
    drain_connections K (h, pf) = drain_connections K (h', pf')"
  by (subst drain_connections.simps) simp

lemma drain_ok:
  assumes "delivers K out delay" "flight_ok h es" "pending_queues pf = es" "out (pf_conn pf) = length es"
  shows "\<exists>q h' pf'. drain_connections K (h, pf) = Some (Inr q, h', pf') \<and> pending_queues pf' = []
    \<and> entry_at h' = landed (entry_at h) es"
  using assms(2-4)
proof (induction es arbitrary: h pf)
  case Nil
  then show ?case
    by (simp add: drain_done)
next
  case outer: (Cons e es)
  from outer.prems show ?case
  proof (induction "delay (pf_conn pf)" arbitrary: pf rule: less_induct)
    case less
    have out: "out (pf_conn pf) = Suc (length es)" and ne: "pending_queues pf \<noteq> []"
      using less.prems by simp_all
    show ?case
    proof (cases rule: poll_progress [OF assms(1) less.prems(1,2) out, case_names completed closer])
      case (completed h' q)
      have "flight_ok h' es"
        using flight_complete [OF less.prems(1)] completed(2) by (simp add: landing_def)
      from outer.IH [OF this, of "pf\<lparr>pf_conn := q, pending_queues := es\<rparr>"] completed show ?thesis
        using drain_step [OF ne completed(1)] by simp
    next
      case (closer q)
      from less.hyps [of "pf\<lparr>pf_conn := q\<rparr>"] closer less.prems show ?thesis
        using drain_step [OF ne closer(1)] by simp
    qed
  qed
qed

section \<open>Waiting for a page\<close>

lemma poll_prefetcher_ok:
  assumes "delivers K out delay" "flight_ok h es" "pending_queues pf = es" "out (pf_conn pf) = length es"
  shows "\<exists>k q h'. poll_prefetcher K (h, pf) = Some (h', pf\<lparr>pf_conn := q, pending_queues := drop k es\<rparr>)
    \<and> entry_at h' = landed (entry_at h) (take k es) \<and> k \<le> length es \<and> out q = length es - k
    \<and> (k = 0 \<and> es \<noteq> [] \<longrightarrow> delay q < delay (pf_conn pf))"
  using assms(2-4)
proof (induction es arbitrary: h pf)
  case Nil
  obtain q where "poll_send_cq K (pf_conn pf) = (Inr [], q)" "out q = 0"
    using assms(1) Nil.prems(3) unfolding delivers_def by auto
  then show ?case
    using Nil.prems(2) by (subst poll_prefetcher.simps)
      (auto simp: prefetch_poll_def dc_poll_def intro!: exI [of _ 0] exI [of _ q])
next
  case (Cons e es)
  have out: "out (pf_conn pf) = Suc (length es)"
    using Cons.prems by simp
  show ?case
  proof (cases rule: poll_progress [OF assms(1) Cons.prems(1,2) out, case_names completed closer])
    case (completed h1 q)
    have "flight_ok h1 es"
      using flight_complete [OF Cons.prems(1)] completed(2) by (simp add: landing_def)
    from Cons.IH [OF this, of "pf\<lparr>pf_conn := q, pending_queues := es\<rparr>"] completed(3)
    obtain k q' h' where k: "poll_prefetcher K (h1, pf\<lparr>pf_conn := q, pending_queues := es\<rparr>) =
        Some (h', pf\<lparr>pf_conn := q', pending_queues := drop k es\<rparr>)"
      "entry_at h' = landed (entry_at h1) (take k es)" "k \<le> length es" "out q' = length es - k"
      by auto
    have "poll_prefetcher K (h, pf) = Some (h', pf\<lparr>pf_conn := q', pending_queues := drop (Suc k) (e # es)\<rparr>)"
      using k(1) completed(1) by (subst poll_prefetcher.simps) simp
    then show ?thesis
      using k(2-4) completed(2) by (intro exI [of _ "Suc k"] exI [of _ q'] exI [of _ h']) simp
  next
    case (closer q)
    then have "poll_prefetcher K (h, pf) = Some (h, pf\<lparr>pf_conn := q, pending_queues := drop 0 (e # es)\<rparr>)"
      using Cons.prems(2) by (subst poll_prefetcher.simps) simp
    then show ?thesis
      using closer(2,3) by (intro exI [of _ 0] exI [of _ q] exI [of _ h]) simp
  qed
qed

lemma wait_unfold:
  assumes "entry_at h (p, i) = Some v"
  shows "wait_prefetched K p i (h, pf) =
    (if v = K_MAGIC_IN_PREFETCH then do { st \<leftarrow> poll_prefetcher K (h, pf); wait_prefetched K p i st } else Some (v, h, pf))"
  using assms by (subst wait_prefetched.simps) (auto simp: entry_at_def split: option.splits)

lemma landed_take_add: "landed (landed m (take k es)) (take j (drop k es)) = landed m (take (k + j) es)"
  by (simp add: landed_def take_add)

lemma wait_ok:
  assumes "delivers K out delay" "flight_ok h es" "pending_queues pf = es" "out (pf_conn pf) = length es"
    and "e \<in> set es" "reply_key e = (p, i)"
  shows "\<exists>k h' pf'. wait_prefetched K p i (h, pf) = Some (encode (re_user_page e) (flag_bits Prefetch), h', pf')
    \<and> entry_at h' = landed (entry_at h) (take k es) \<and> pending_queues pf' = drop k es \<and> e \<in> set (take k es)"
  using assms(2-5)
proof (induction "length es" arbitrary: h pf es rule: less_induct)
  case outer: less
  from outer.prems show ?case
  proof (induction "delay (pf_conn pf)" arbitrary: h pf rule: less_induct)
    case less
    obtain k q h' where k: "poll_prefetcher K (h, pf) = Some (h', pf\<lparr>pf_conn := q, pending_queues := drop k es\<rparr>)"
      "entry_at h' = landed (entry_at h) (take k es)" "k \<le> length es" "out q = length es - k"
      "k = 0 \<and> es \<noteq> [] \<longrightarrow> delay q < delay (pf_conn pf)"
      using poll_prefetcher_ok [OF assms(1) less.prems(1-3)] by blast
    let ?pf = "pf\<lparr>pf_conn := q, pending_queues := drop k es\<rparr>"
    have dist: "distinct (map reply_key es)"
      using less.prems(1) by (simp add: flight_ok_def)
    have "entry_at h (p, i) = Some K_MAGIC_IN_PREFETCH"
      using flight_okD [OF less.prems(1), of "(p, i)"] less.prems(4) assms(6) by (metis imageI)
    from wait_unfold [OF this, of K pf] have step: "wait_prefetched K p i (h, pf) = wait_prefetched K p i (h', ?pf)"
      using k(1) by simp
    have flight: "flight_ok h' (drop k es)"
      using flight_landed [OF less.prems(1) k(2)] .
    consider (now) "e \<in> set (take k es)" | (same) "k = 0" | (later) "k > 0" "e \<in> set (drop k es)"
      using less.prems(4) by (metis Un_iff append_take_drop_id gr0I set_append)
    then show ?case
    proof cases
      case now
      have "distinct (map reply_key (take k es))"
        using dist by (metis distinct_take take_map)
      from landed_at [OF this now] have v: "entry_at h' (p, i) = Some (encode (re_user_page e) (flag_bits Prefetch))"
        using k(2) assms(6) by simp
      have "page_ok (re_user_page e)"
        using less.prems(1,4) by (simp add: flight_ok_def)
      from encode_page_not_magic [OF this] have "wait_prefetched K p i (h', ?pf) = Some (encode (re_user_page e) (flag_bits Prefetch), h', ?pf)"
        using wait_unfold [OF v] by simp
      then show ?thesis
        using step k(2) now by (intro exI [of _ k] exI [of _ h'] exI [of _ ?pf]) simp
    next
      case same
      then have eq: "entry_at h' = entry_at h" "?pf = pf\<lparr>pf_conn := q\<rparr>"
        using k(2) less.prems(2) by simp_all
      have "delay (pf_conn (pf\<lparr>pf_conn := q\<rparr>)) < delay (pf_conn pf)"
        using k(5) same less.prems(4) by auto
      moreover have "flight_ok h' es" "out q = length es"
        using flight same k(4) by simp_all
      ultimately show ?thesis
        using less.hyps [of "pf\<lparr>pf_conn := q\<rparr>" h'] less.prems(2,4) step unfolding eq by simp
    next
      case later
      then have "length (drop k es) < length es"
        using less.prems(4) by (cases es) auto
      from outer.hyps [OF this flight, of ?pf] obtain j h2 pf2 where
        j: "wait_prefetched K p i (h', ?pf) = Some (encode (re_user_page e) (flag_bits Prefetch), h2, pf2)"
        "entry_at h2 = landed (entry_at h') (take j (drop k es))" "pending_queues pf2 = drop j (drop k es)"
        "e \<in> set (take j (drop k es))"
        using later k(4) by auto
      have "entry_at h2 = landed (entry_at h) (take (k + j) es)"
        using j(2) k(2) landed_take_add by metis
      moreover have "e \<in> set (take (k + j) es)"
        using j(4) by (simp add: take_add)
      moreover have "pending_queues pf2 = drop (k + j) es"
        using j(3) by (simp add: add.commute)
      ultimately show ?thesis
        using step j(1) by metis
    qed
  qed
qed

section \<open>The page table iterator as a source of requests\<close>

lemma iter_collect_yields:
  assumes "iter_collect h it = Some xs"
  shows "yields (iter_next h) it xs"
proof (rule iter_collect.raw_induct [where P = "\<lambda>h it xs. yields (iter_next h) it xs", OF _ assms])
  fix rec h it xs
  assume IH: "\<And>h it xs. rec h it = Some xs \<Longrightarrow> yields (iter_next h) it xs"
    and eq: "do { (r, it') \<leftarrow> iter_next h it;
        (case r of None \<Rightarrow> Some [] | Some e \<Rightarrow> do { es \<leftarrow> rec h it'; Some (e # es) }) } = Some xs"
  obtain r it' where r: "iter_next h it = Some (r, it')"
    using eq by (auto simp: fault_simps)
  show "yields (iter_next h) it xs"
  proof (cases r)
    case None
    then show ?thesis
      using eq r yields_end [of "iter_next h" it it'] by simp
  next
    case (Some e)
    then obtain es where "rec h it' = Some es" "xs = e # es"
      using eq r by (auto simp: fault_simps)
    then show ?thesis
      using IH yields_next [of "iter_next h" it e it'] r Some by blast
  qed
qed

section \<open>Reads keep the invariant\<close>

lemma fetch_keeps_invariant:
  fixes K :: "('q, 'mr, 'ep, 'e) rdma_kit" and passed :: "'t \<Rightarrow> int \<times> 't"
  assumes "pf_inv (h, ks, pf)" "n < length (alloc_queue ks)"
    and "fetch_and_prefetch K page_to_virt passed clock n p i v ai q (h, ks, pf) = Some (r, q', st')"
  shows "pf_inv st'"
proof -
  let ?gen = "\<lambda>nxt. step_generate nxt need_prefetch page_entry_default n"
  obtain np ks1 where np: "pmem_alloc_page ks = (np, ks1)"
    by fastforce
  then have ks1: "n \<le> length (alloc_queue ks1)" "pf_inv (h, ks1, pf)"
    using assms(1,2) by (auto simp: pmem_alloc_page_def pf_inv_def split: list.splits)
  obtain mr where mr: "mr_new_from_raw K (page_to_virt np) 4096 = Some mr"
    using assms(3) np by (cases "mr_new_from_raw K (page_to_virt np) 4096") (simp_all add: fetch_and_prefetch_def)
  obtain pd q1 where pd: "dc_post K q (dc_payload_new mr (0, 4096) True READ (ai_rkey ai) (decode v) (access_handler ai)) = (pd, q1)"
    by fastforce
  obtain h1 ks2 pf1 h2 pf2 and res :: "'e timeout_error + ib_wc" and tm :: "('q, 't) Timeout" where
    e: "execute_reqs K page_to_virt ?gen (iter_new_from_l1 p i) (h, ks1, pf) = Some (h1, ks2, pf1)"
      "poll_prefetcher K (h1, pf1) = Some (h2, pf2)"
    and res: "(case res of Inr _ \<Rightarrow> Some (Some np, t_value tm, h2, ks2, pf2)
       | Inl _ \<Rightarrow> Some (None, t_value tm, h2, pmem_free_page np ks2, pf2)) = Some (r, q', st')"
    using assms(3) np mr pd by (auto simp: fetch_and_prefetch_def fault_simps)
  have st': "st' = (h2, ks2, pf2) \<or> st' = (h2, pmem_free_page np ks2, pf2)"
    using res by (cases res) auto
  have "requests_len rq \<le> length (alloc_queue ks1)" if "?gen (iter_next h) (iter_new_from_l1 p i) = Some (rq, src')" for rq src'
    using step_generate_bound [OF that] ks1(1) by simp
  from execute_reqs_inv [OF e(1) ks1(2) this] have inv: "pf_inv (h1, ks2, pf1)" .
  then have "flight (h2, pf2)"
    using poll_prefetcher_flight [OF e(2)] by (simp add: flight_def pf_inv_def)
  then show ?thesis
    using st' inv by (auto simp: pf_inv_def flight_def pmem_free_page_def)
qed

section \<open>A page in flight\<close>

text \<open>Four tables, one per level, on the path of the address 0x5000, with the entry \<open>v\<close>.\<close>

definition flight_heap :: "u64 \<Rightarrow> Heap" where
  "flight_heap v =
     \<lparr>nodes = [0x1000 \<mapsto> (table_new Four 0 0)\<lparr>entries := (\<lambda>_. 0)(0 := 0x2000)\<rparr>,
               0x2000 \<mapsto> (table_new Three 0x1000 0)\<lparr>entries := (\<lambda>_. 0)(0 := 0x3000)\<rparr>,
               0x3000 \<mapsto> (table_new Two 0x2000 0)\<lparr>entries := (\<lambda>_. 0)(0 := 0x4000)\<rparr>,
               0x4000 \<mapsto> (table_new One 0x3000 0)\<lparr>entries := (\<lambda>_. 0)(5 := v)\<rparr>], avail = []\<rparr>"

definition flight_table :: RemotePageTable where
  "flight_table = \<lparr>l4_page_table = 0x1000, cnt = 1\<rparr>"

definition flight_reply :: ReplyEntry where
  "flight_reply = \<lparr>re_pt = 0x4000, re_idx = 5, re_user_page = 0x7000\<rparr>"

definition flight_pf :: "(sim_qp, unit) DCAsyncPrefetcher" where
  "flight_pf =
     \<lparr>pf_conn = \<lparr>inflight = [((0x7000, 4096), 0x9000)], local_mem = (\<lambda>_. 0), lag = 2\<rparr>, pending_queues = [flight_reply],
      pf_access_info = \<lparr>access_handler = (), ai_rkey = 0, ai_mac_id = 0\<rparr>\<rparr>"

definition flight_kstate :: kstate where
  "flight_kstate =
     \<lparr>ptes = (\<lambda>_. 0), page_refs = (\<lambda>_. 0), map_counts = (\<lambda>_. 0), file_refs = (\<lambda>_. 0), page_data = (\<lambda>_. []),
      alloc_queue = [0x8000, 0x9000, 0xA000], freed = []\<rparr>"

lemma flight_key [simp]: "reply_key flight_reply = (0x4000, 5)"
  by (simp add: reply_key_def flight_reply_def)

lemma flight_sample_ok: "flight_ok (flight_heap K_MAGIC_IN_PREFETCH) (pending_queues flight_pf)"
proof (rule flight_okI)
  show "entry_at (flight_heap K_MAGIC_IN_PREFETCH) k = Some K_MAGIC_IN_PREFETCH \<longleftrightarrow> k \<in> reply_key ` set (pending_queues flight_pf)" for k
    by (cases k) (auto simp: entry_at_def flight_heap_def table_index_def table_new_def flight_pf_def K_MAGIC_IN_PREFETCH_def
        split: option.splits if_splits)
qed (simp_all add: flight_pf_def flight_reply_def page_ok_def decode_def flag_mask_def)

lemma flight_out: "length (inflight (pf_conn flight_pf)) = length (pending_queues flight_pf)"
  by (simp add: flight_pf_def)

lemma flight_find:
  "find_l1_page_idx four_level_indices (flight_heap v) flight_table 0x5000 = Some (Some (0x4000, 5))"
  by (simp add: find_l1_page_idx_def four_level_indices_def lookup_table_def flight_heap_def flight_table_def table_new_def table_index_def)

lemma sim_delivers: "delivers (sim_kit remote) (\<lambda>q. length (inflight q)) lag"
  by (auto simp: delivers_def sim_kit_def sim_poll_def split: list.splits prod.splits)

lemma flight_inv: "pf_inv (flight_heap K_MAGIC_IN_PREFETCH, flight_kstate, flight_pf)"
  using flight_sample_ok by (simp add: pf_inv_def flight_kstate_def page_ok_def decode_def flag_mask_def)

section \<open>Properties\<close>



text \<open>C18: Draining a prefetcher terminates: over a queue pair that delivers, \<open>drain_connections\<close> returns the
  connection with nothing pending, every entry that was in flight holds its page, all other entries are
  as before, and no entry is left in flight.\<close>

theorem drain_completes:
  assumes "delivers K out delay" "flight_ok h (pending_queues pf)" "out (pf_conn pf) = num_pending pf"
  shows "\<exists>q h' pf'. drain_connections K (h, pf) = Some (Inr q, h', pf') \<and> num_pending pf' = 0
    \<and> (\<forall>e \<in> set (pending_queues pf). entry_at h' (reply_key e) = Some (encode (re_user_page e) (flag_bits Prefetch)))
    \<and> (\<forall>k. k \<notin> reply_key ` set (pending_queues pf) \<longrightarrow> entry_at h' k = entry_at h k)
    \<and> (\<forall>k. entry_at h' k \<noteq> Some K_MAGIC_IN_PREFETCH)"
proof -
  let ?es = "pending_queues pf"
  obtain q h' pf' where d: "drain_connections K (h, pf) = Some (Inr q, h', pf')" "pending_queues pf' = []"
    "entry_at h' = landed (entry_at h) ?es"
    using drain_ok [OF assms(1,2) refl] assms(3) by (auto simp: num_pending_def)
  have "distinct (map reply_key ?es)"
    using assms(2) by (simp add: flight_ok_def)
  then have "\<forall>e \<in> set ?es. entry_at h' (reply_key e) = Some (encode (re_user_page e) (flag_bits Prefetch))"
    using landed_at unfolding d(3) by blast
  moreover have "flight_ok h' []"
    using flight_landed [OF assms(2), of h' "length ?es"] d(3) by simp
  then have "\<forall>k. entry_at h' k \<noteq> Some K_MAGIC_IN_PREFETCH"
    using flight_okD [of h' "[]"] by simp
  moreover have "\<forall>k. k \<notin> reply_key ` set ?es \<longrightarrow> entry_at h' k = entry_at h k"
    using landed_other unfolding d(3) by blast
  ultimately show ?thesis
    using d(1,2) by (auto simp: num_pending_def)
qed

theorem drain_completes_witness:
  "\<exists>q h' pf'. drain_connections (sim_kit (\<lambda>a. a)) (flight_heap K_MAGIC_IN_PREFETCH, flight_pf) = Some (Inr q, h', pf')
    \<and> num_pending pf' = 0 \<and> entry_at h' (0x4000, 5) = Some (encode 0x7000 1)"
proof -
  have "length (inflight (pf_conn flight_pf)) = num_pending flight_pf"
    by (simp add: flight_pf_def num_pending_def)
  from drain_completes [OF sim_delivers flight_sample_ok this, of "\<lambda>a. a"] obtain q h' pf' where
    d: "drain_connections (sim_kit (\<lambda>a. a)) (flight_heap K_MAGIC_IN_PREFETCH, flight_pf) = Some (Inr q, h', pf')" "num_pending pf' = 0"
      "\<forall>e \<in> set (pending_queues flight_pf). entry_at h' (reply_key e) = Some (encode (re_user_page e) (flag_bits Prefetch))"
    by blast
  have "entry_at h' (0x4000, 5) = Some (encode 0x7000 1)"
    using bspec [OF d(3), of flight_reply] by (simp add: flight_pf_def) (simp add: flight_reply_def)
  then show ?thesis
    using d(1,2) by blast
qed

text \<open>C17: A fault on a page in flight returns that page: the wait loop terminates over a queue pair that
  delivers, the result is the page the prefetch was reading into, and the entry is cleared so that the
  page is handed out once.\<close>

theorem read_waits_for_prefetch:
  assumes "delivers K out delay" "flight_ok h (pending_queues pf)" "out (pf_conn pf) = num_pending pf"
    and "C va" "find_l1_page_idx X h t va = Some (Some (re_pt e, re_idx e))" "e \<in> set (pending_queues pf)"
  shows "\<exists>h' pf'. read_remote_page_prefetch K page_to_virt passed clock n X C t va ai q (h, ks, pf) =
      Some (Some (re_user_page e), q, h', ks, pf')
    \<and> entry_at h' (reply_key e) = Some 0"
proof -
  let ?es = "pending_queues pf"
  have key: "reply_key e = (re_pt e, re_idx e)"
    by (simp add: reply_key_def)
  have "entry_at h (re_pt e, re_idx e) = Some K_MAGIC_IN_PREFETCH"
    using flight_okD [OF assms(2), of "reply_key e"] assms(6) key by (metis imageI)
  then obtain nd where nd: "nodes h (re_pt e) = Some nd" "table_index nd (re_idx e) = Some K_MAGIC_IN_PREFETCH"
    by (auto simp: entry_at_def split: option.splits)
  obtain k h1 pf1 where w: "wait_prefetched K (re_pt e) (re_idx e) (h, pf) = Some (encode (re_user_page e) (flag_bits Prefetch), h1, pf1)"
    using wait_ok [OF assms(1,2) refl _ assms(6) key] assms(3) by (auto simp: num_pending_def)
  then have "entry_at h1 (re_pt e, re_idx e) \<noteq> None"
    using wait_prefetched_flight [OF w] assms(2) by (simp add: flight_def)
  then obtain h2 where h2: "table_index_mut h1 (re_pt e) (re_idx e) 0 = Some h2"
    using table_index_mut_Some by (metis not_None_eq)
  have "decode (re_user_page e) = re_user_page e"
    using assms(2,6) by (simp add: flight_ok_def page_ok_def)
  then show ?thesis
    using assms(4,5) nd w h2 entry_at_mut [OF h2] key
    by (simp add: read_remote_page_prefetch_def magic_prefetch)
qed

theorem read_waits_for_prefetch_witness:
  "\<exists>h' pf'. read_remote_page_prefetch (sim_kit (\<lambda>a. a)) (\<lambda>p. p) tick 0 2 four_level_indices (\<lambda>_. True) flight_table 0x5000
      \<lparr>access_handler = (), ai_rkey = 0, ai_mac_id = 0\<rparr> (pf_conn flight_pf)
      (flight_heap K_MAGIC_IN_PREFETCH, flight_kstate, flight_pf) =
      Some (Some 0x7000, pf_conn flight_pf, h', flight_kstate, pf') \<and> entry_at h' (0x4000, 5) = Some 0"
proof -
  have out: "length (inflight (pf_conn flight_pf)) = num_pending flight_pf"
    by (simp add: flight_pf_def num_pending_def)
  have find: "find_l1_page_idx four_level_indices (flight_heap K_MAGIC_IN_PREFETCH) flight_table 0x5000 =
      Some (Some (re_pt flight_reply, re_idx flight_reply))"
    by (simp add: flight_find flight_reply_def)
  have mem: "flight_reply \<in> set (pending_queues flight_pf)"
    by (simp add: flight_pf_def)
  have "re_user_page flight_reply = 0x7000"
    by (simp add: flight_reply_def)
  with read_waits_for_prefetch [where C = "\<lambda>_. True", OF sim_delivers flight_sample_ok out TrueI find mem,
      of "\<lambda>a. a" "\<lambda>p. p" tick 0 2 "\<lparr>access_handler = (), ai_rkey = 0, ai_mac_id = 0\<rparr>" "pf_conn flight_pf" flight_kstate]
  show ?thesis
    by (simp only: flight_key)
qed

text \<open>C19: The step strategy prefetches what comes next: after a fault on index \<open>idx\<close> of the level-one table
  that the path \<open>zs\<close> leads to, it requests, in address order, the first \<open>n\<close> mapped pages behind it
  that are not prefetched yet, across table boundaries.\<close>

theorem step_prefetches_next:
  assumes "table_ok h t" "uppers_nonempty h" "zs \<in> live_at h (l4_page_table t) 3" "idx < ENTRY_COUNT"
  shows "\<exists>ys r src'. step_generate (iter_next h) need_prefetch page_entry_default n
        (iter_new_from_l1 (walk (nodes h) (l4_page_table t) zs) idx) = Some (r, src')
    \<and> set ys = {y \<in> live_paths h t. position zs (int idx) < int (path_num y)} \<and> sorted_wrt (<) (map path_num ys)
    \<and> requests_list r = take n (filter need_prefetch (map (entry_of h (l4_page_table t)) ys))"
proof -
  have "walkable h (l4_page_table t)"
    using assms(1,2) by (simp add: walkable_def table_ok_def)
  from iter_collect_ok [OF this assms(3), of "int idx"] obtain ys where ys:
    "iter_collect h (iter_new_from_l1 (walk (nodes h) (l4_page_table t) zs) idx) = Some (map (entry_of h (l4_page_table t)) ys)"
    "set ys = {y \<in> live_at h (l4_page_table t) 4. position zs (int idx) < int (path_num y)}" "sorted_wrt (<) (map path_num ys)"
    using assms(4) by (auto simp: iter_new_from_l1_def)
  from step_generate_spec [OF iter_collect_yields [OF ys(1)], of need_prefetch page_entry_default n] show ?thesis
    using ys(2,3) by (auto simp: live_paths_live_at)
qed

theorem step_prefetches_next_witness:
  "\<exists>t' h' r src'. force_map four_level_indices heap8 table8 0x7f0000003000 0x6000 = Some (t', h')
     \<and> step_generate (iter_next h') need_prefetch page_entry_default 2
         (iter_new_from_l1 (walk (nodes h') (l4_page_table t') [254, 0, 0]) 1) = Some (r, src')
     \<and> map pe_addr (requests_list r) = [0x6000]"
proof -
  let ?p = "path_of four_level_indices 0x7f0000003000"
  obtain t' h' where f: "force_map four_level_indices heap8 table8 0x7f0000003000 0x6000 = Some (t', h')"
    "table_ok h' t'" "uppers_nonempty h'" "live_paths h' t' = {?p}" "lookup h' t' ?p = 0x6000"
    by (rule one_page_table)
  have p: "?p = [254, 0, 0] @ [3]"
    by (simp add: path_of_def four_level_indices_def)
  have w: "walkable h' (l4_page_table t')"
    using f(2,3) by (simp add: walkable_def table_ok_def)
  have "[254, 0, 0] @ [3] \<in> live_at h' (l4_page_table t') (Suc 3)"
    using f(4) unfolding p by (simp add: live_paths_live_at numeral_eq_Suc)
  then have z: "[254, 0, 0] \<in> live_at h' (l4_page_table t') 3"
    using live_snoc [OF w, of "[254, 0, 0]" 3 3] by simp
  have pos: "position [254, 0, 0] (int 1) < int (path_num ?p)"
    by (simp add: p path_num_def)
  have "1 < ENTRY_COUNT"
    by simp
  from step_prefetches_next [OF f(2,3) z this, of 2] obtain ys r src' where
    g: "step_generate (iter_next h') need_prefetch page_entry_default 2
         (iter_new_from_l1 (walk (nodes h') (l4_page_table t') [254, 0, 0]) 1) = Some (r, src')"
      "set ys = {y \<in> live_paths h' t'. position [254, 0, 0] (int 1) < int (path_num y)}" "sorted_wrt (<) (map path_num ys)"
      "requests_list r = take 2 (filter need_prefetch (map (entry_of h' (l4_page_table t')) ys))"
    by blast
  have set: "set ys = {?p}"
    unfolding g(2) f(4) using pos by blast
  have "distinct ys"
    using g(3) by (meson distinct_map strict_sorted_iff)
  from distinct_set_singleton [OF this set] have ys: "ys = [?p]" .
  have "pe_addr (entry_of h' (l4_page_table t') ?p) = 0x6000"
    using f(5) by (simp add: entry_of_def lookup_def)
  then have addr: "map pe_addr (requests_list r) = [0x6000]"
    using g(4) ys by (simp add: need_prefetch_def bottom_bit_def is_prefetch_def)
  show ?thesis
    by (rule exI, rule exI, rule exI, rule exI, rule conjI [OF f(1) conjI [OF g(1) addr]])
qed

end
