(* ===== verification/Rpc_Header.thy ===== *)
theory Rpc_Header
  imports Bytes_Mut
begin

text \<open>
  RPC messages, callbacks and call counters: os-network/src/rpc/header.rs, header_factory.rs,
  service.rs and analysis.rs. A message is a \<open>MsgHeader\<close> followed by its payload, both copied into
  the message buffer byte by byte; the layout of \<open>MsgHeader\<close> is the compiler's and an argument here.
  Lengths, counters and callback results (\<open>usize\<close>) are naturals, with the bound of the type where the code
  adds; identifiers that travel in a header are words.
\<close>

section \<open>Headers\<close>

record CallStub =
  call_session_id :: u64
  call_rpc_id :: u64

datatype ConnectStub = ConnectStub u64

fun connect_session_id :: "ConnectStub \<Rightarrow> u64" where
  "connect_session_id (ConnectStub i) = i"

datatype ReplyStatus = ReplyOk | NotExist

datatype RPCMeta = MetaRequest CallStub | MetaReply ReplyStatus | MetaConnect ConnectStub | MetaNone

datatype ReqType = Illegal | Connect | Request | Reply | DisConnect

record MsgHeader =
  marker :: ReqType
  payload :: u64
  meta :: RPCMeta

definition msg_header_default :: MsgHeader where
  "msg_header_default = \<lparr>marker = Illegal, payload = 0, meta = MetaNone\<rparr>"

definition gen_connect_stub :: "u64 \<Rightarrow> u64 \<Rightarrow> MsgHeader" where
  "gen_connect_stub session_id pl = \<lparr>marker = Connect, payload = pl, meta = MetaConnect (ConnectStub session_id)\<rparr>"

definition gen_call_stub :: "u64 \<Rightarrow> u64 \<Rightarrow> u64 \<Rightarrow> MsgHeader" where
  "gen_call_stub session_id rpc_id pl =
     \<lparr>marker = Request, payload = pl,
      meta = MetaRequest \<lparr>call_session_id = session_id, call_rpc_id = rpc_id\<rparr>\<rparr>"

definition gen_reply_stub :: "ReplyStatus \<Rightarrow> u64 \<Rightarrow> MsgHeader" where
  "gen_reply_stub status sz = \<lparr>marker = Reply, payload = sz, meta = MetaReply status\<rparr>"

definition get_call_stub :: "MsgHeader \<Rightarrow> CallStub option" where
  "get_call_stub h = (case meta h of MetaRequest s \<Rightarrow> Some s | _ \<Rightarrow> None)"

definition get_connect_stub :: "MsgHeader \<Rightarrow> ConnectStub option" where
  "get_connect_stub h = (case meta h of MetaConnect s \<Rightarrow> Some s | _ \<Rightarrow> None)"

definition get_reply_stub :: "MsgHeader \<Rightarrow> ReplyStatus option" where
  "get_reply_stub h = (case meta h of MetaReply s \<Rightarrow> Some s | _ \<Rightarrow> None)"

definition is_connect :: "MsgHeader \<Rightarrow> bool" where
  "is_connect h \<longleftrightarrow> marker h = Connect"

definition is_request :: "MsgHeader \<Rightarrow> bool" where
  "is_request h \<longleftrightarrow> marker h = Request"

definition is_reply :: "MsgHeader \<Rightarrow> bool" where
  "is_reply h \<longleftrightarrow> marker h = Reply"

definition is_disconnect :: "MsgHeader \<Rightarrow> bool" where
  "is_disconnect h \<longleftrightarrow> marker h = DisConnect"

section \<open>Stub factories\<close>

text \<open>
  The sum of two sizes that \<open>memcpy_serialize_at\<close> reported; an error of either ends the function, with
  the header already in the buffer when the second one fails.
\<close>

definition generate_stub ::
  "MsgHeader layout \<Rightarrow> 'a layout \<Rightarrow> mem \<Rightarrow> BytesMut \<Rightarrow> MsgHeader \<Rightarrow> 'a \<Rightarrow> mem \<times> nat option" where
  "generate_stub H L m msg h v =
     (case memcpy_serialize_at H m msg 0 h of
        (m, None) \<Rightarrow> (m, None)
      | (m, Some n) \<Rightarrow>
          (case memcpy_serialize_at L m msg (size_of H) v of
             (m, None) \<Rightarrow> (m, None)
           | (m, Some k) \<Rightarrow> (m, Some (n + k))))"

definition connect_generate ::
  "MsgHeader layout \<Rightarrow> 'a layout \<Rightarrow> u64 \<Rightarrow> mem \<Rightarrow> BytesMut \<Rightarrow> 'a \<Rightarrow> mem \<times> nat option" where
  "connect_generate H L i m msg v =
     generate_stub H L m msg (gen_connect_stub i (of_nat (size_of L))) v"

record CallStubFactory =
  csf_session_id :: u64
  csf_rpc_id :: u64

definition call_factory_new :: "u64 \<Rightarrow> u64 \<Rightarrow> CallStubFactory" where
  "call_factory_new i rpc_id = \<lparr>csf_session_id = i, csf_rpc_id = rpc_id\<rparr>"

definition set_rpc_id :: "CallStubFactory \<Rightarrow> u64 \<Rightarrow> CallStubFactory" where
  "set_rpc_id f i = f\<lparr>csf_rpc_id := i\<rparr>"

definition call_generate ::
  "MsgHeader layout \<Rightarrow> 'a layout \<Rightarrow> CallStubFactory \<Rightarrow> mem \<Rightarrow> BytesMut \<Rightarrow> 'a \<Rightarrow> mem \<times> nat option" where
  "call_generate H L f m msg v =
     generate_stub H L m msg (gen_call_stub (csf_session_id f) (csf_rpc_id f) (of_nat (size_of L))) v"

record ReplyStubFactory =
  rsf_status :: ReplyStatus
  rsf_payload :: nat

definition reply_factory_new :: "ReplyStatus \<Rightarrow> nat \<Rightarrow> ReplyStubFactory" where
  "reply_factory_new status sz = \<lparr>rsf_status = status, rsf_payload = sz\<rparr>"

definition reply_generate ::
  "MsgHeader layout \<Rightarrow> ReplyStubFactory \<Rightarrow> mem \<Rightarrow> BytesMut \<Rightarrow> mem \<times> nat option" where
  "reply_generate H f m msg = memcpy_serialize_at H m msg 0 (gen_reply_stub (rsf_status f) (of_nat (rsf_payload f)))"

section \<open>Callbacks\<close>

text \<open>
  A callback reads the argument buffer, fills the reply buffer and returns the size of the reply. It
  captures what it likes, so it acts on a world \<open>'w\<close> that includes the memory; None is a panic.
\<close>

type_synonym 'w callback = "BytesMut \<Rightarrow> BytesMut \<Rightarrow> 'w \<Rightarrow> (nat \<times> 'w) option"

record 'w Service =
  callbacks :: "u64 \<Rightarrow> 'w callback option"

definition service_new :: "'w Service" where
  "service_new = \<lparr>callbacks = Map.empty\<rparr>"

definition service_register :: "u64 \<Rightarrow> 'w callback \<Rightarrow> 'w Service \<Rightarrow> 'w Service \<times> bool" where
  "service_register i cb s =
     (if callbacks s i \<noteq> None then (s, False) else (s\<lparr>callbacks := (callbacks s)(i \<mapsto> cb)\<rparr>, True))"

definition service_execute ::
  "u64 \<Rightarrow> BytesMut \<Rightarrow> BytesMut \<Rightarrow> 'w Service \<Rightarrow> 'w \<Rightarrow> (nat option \<times> 'w) option" where
  "service_execute i input out s w =
     (case callbacks s i of
        None \<Rightarrow> Some (None, w)
      | Some func \<Rightarrow> do { (n, w) \<leftarrow> func input out w; Some (Some n, w) })"

section \<open>Counters\<close>

record RPCAnalysis =
  ncalls :: nat
  session_counts :: "u64 \<Rightarrow> nat option"

definition analysis_new :: RPCAnalysis where
  "analysis_new = \<lparr>ncalls = 0, session_counts = Map.empty\<rparr>"

definition handle_one :: "RPCAnalysis \<Rightarrow> RPCAnalysis option" where
  "handle_one a = (if ncalls a + 1 < 2 ^ 64 then Some (a\<lparr>ncalls := ncalls a + 1\<rparr>) else None)"

definition handle_session_call :: "u64 \<Rightarrow> RPCAnalysis \<Rightarrow> RPCAnalysis option" where
  "handle_session_call i a =
     (case session_counts a i of
        Some n \<Rightarrow>
          if n + 1 < 2 ^ 64 then Some (a\<lparr>session_counts := (session_counts a)(i \<mapsto> n + 1)\<rparr>) else None
      | None \<Rightarrow> Some (a\<lparr>session_counts := (session_counts a)(i \<mapsto> 1)\<rparr>))"

text \<open>The number of calls is the sum over the sessions.\<close>

definition counted :: "RPCAnalysis \<Rightarrow> nat" where
  "counted a = (\<Sum>i\<in>dom (session_counts a). the (session_counts a i))"

definition analysis_ok :: "RPCAnalysis \<Rightarrow> bool" where
  "analysis_ok a \<longleftrightarrow> ncalls a = counted a"

lemma finite_sessions [simp]: "finite (dom (f :: u64 \<Rightarrow> 'b option))"
  by (rule finite_subset [OF subset_UNIV]) simp

lemma analysis_new_ok [simp]: "analysis_ok analysis_new"
  by (simp add: analysis_ok_def counted_def analysis_new_def)

lemma handle_session_counted:
  assumes "handle_session_call i a = Some a'"
  shows "counted a' = counted a + 1 \<and> ncalls a' = ncalls a"
proof (cases "session_counts a i")
  case None
  then have i: "i \<notin> dom (session_counts a)"
    by auto
  have "(\<Sum>j\<in>dom (session_counts a). the (((session_counts a)(i \<mapsto> 1)) j)) = counted a"
    unfolding counted_def by (rule sum.cong) (use i in auto)
  with None i assms show ?thesis
    by (auto simp: counted_def handle_session_call_def sum.insert [OF finite_sessions i] simp del: One_nat_def)
next
  case (Some n)
  let ?D = "dom (session_counts a)"
  have i: "i \<in> ?D"
    using Some by auto
  have "(\<Sum>j\<in>?D - {i}. the (((session_counts a)(i \<mapsto> n + 1)) j)) =
      (\<Sum>j\<in>?D - {i}. the (session_counts a j))"
    by (rule sum.cong) auto
  then have "(\<Sum>j\<in>?D. the (((session_counts a)(i \<mapsto> n + 1)) j)) = counted a + 1"
    unfolding counted_def sum.remove [OF finite_sessions i] by (simp add: Some)
  moreover have "a' = a\<lparr>session_counts := (session_counts a)(i \<mapsto> n + 1)\<rparr>"
    using Some assms by (simp add: handle_session_call_def split: if_splits)
  ultimately show ?thesis
    using i by (simp add: counted_def insert_absorb)
qed

lemma count_call_ok:
  assumes "analysis_ok a" "handle_one a = Some b" "handle_session_call i b = Some c"
  shows "analysis_ok c \<and> ncalls c = ncalls a + 1"
  using assms handle_session_counted [OF assms(3)]
  by (auto simp: analysis_ok_def handle_one_def counted_def split: if_splits)

lemma handle_session_fits:
  assumes "analysis_ok a" "handle_one a = Some b"
  shows "handle_session_call i b \<noteq> None"
proof (cases "session_counts a i")
  case (Some n)
  then have "n \<le> counted a"
    using member_le_sum [of i "dom (session_counts a)" "\<lambda>i. the (session_counts a i)"]
    by (auto simp: counted_def)
  with Some assms show ?thesis
    by (auto simp: handle_one_def handle_session_call_def analysis_ok_def split: if_splits)
qed (use assms in \<open>auto simp: handle_one_def handle_session_call_def split: if_splits\<close>)

section \<open>What a message holds\<close>

text \<open>Marker and stub of a header agree.\<close>

definition header_ok :: "MsgHeader \<Rightarrow> bool" where
  "header_ok h \<longleftrightarrow>
     (case marker h of
        Connect \<Rightarrow> \<exists>s. meta h = MetaConnect s
      | Request \<Rightarrow> \<exists>s. meta h = MetaRequest s
      | Reply \<Rightarrow> \<exists>s. meta h = MetaReply s
      | _ \<Rightarrow> meta h = MetaNone)"

lemma gen_stub_ok [simp]:
  "header_ok (gen_connect_stub i n)" "header_ok (gen_call_stub i r n)" "header_ok (gen_reply_stub s n)"
  "header_ok msg_header_default"
  by (simp_all add: header_ok_def gen_connect_stub_def gen_call_stub_def gen_reply_stub_def msg_header_default_def)

lemma gen_stub_get [simp]:
  "get_connect_stub (gen_connect_stub i n) = Some (ConnectStub i)"
  "get_call_stub (gen_call_stub i r n) = Some \<lparr>call_session_id = i, call_rpc_id = r\<rparr>"
  "get_reply_stub (gen_reply_stub s n) = Some s"
  "marker (gen_connect_stub i n) = Connect" "marker (gen_call_stub i r n) = Request" "marker (gen_reply_stub s n) = Reply"
  "payload (gen_connect_stub i n) = n" "payload (gen_call_stub i r n) = n" "payload (gen_reply_stub s n) = n"
  by (simp_all add: gen_connect_stub_def gen_call_stub_def gen_reply_stub_def
      get_connect_stub_def get_call_stub_def get_reply_stub_def)

text \<open>The bytes of a message on the wire, and parsing them the way both receivers do.\<close>

definition wire :: "MsgHeader layout \<Rightarrow> MsgHeader \<Rightarrow> u8 list \<Rightarrow> u8 list" where
  "wire H h body = to_raw H h @ body"

definition parse_msg :: "MsgHeader layout \<Rightarrow> mem \<Rightarrow> BytesMut \<Rightarrow> (MsgHeader \<times> BytesMut) option" where
  "parse_msg H m bytes =
     (let (h, r) = memcpy_deserialize H m bytes msg_header_default
      in do { b \<leftarrow> truncate_header bytes (size_of H);
              b \<leftarrow> clone_and_resize b (unat (payload h));
              Some (h, b) })"

lemma generate_stub_writes:
  assumes "wf_layout H" "wf_layout L" "size_of H + size_of L \<le> bm_len msg"
  shows "generate_stub H L m msg h v =
     (mem_write m (bm_ptr msg) (wire H h (to_raw L v)), Some (size_of H + size_of L))"
  using assms
  by (simp add: generate_stub_def memcpy_serialize_at_def memcpy_serialize_def truncate_header_def wire_def
      mem_write_append [symmetric] layout_simps)

lemma reply_generate_writes:
  assumes "size_of H \<le> bm_len msg"
  shows "reply_generate H f m msg =
     (mem_write m (bm_ptr msg) (to_raw H (gen_reply_stub (rsf_status f) (of_nat (rsf_payload f)))), Some (size_of H))"
  using assms by (simp add: reply_generate_def memcpy_serialize_at_def memcpy_serialize_def truncate_header_def)

lemma parse_wire:
  assumes "wf_layout H" "mem_has m (bm_ptr b) (wire H h body)"
    and "size_of H + length body \<le> bm_len b" "unat (payload h) = length body"
  shows "parse_msg H m b = Some (h, \<lparr>bm_ptr = bm_ptr b + size_of H, bm_len = length body\<rparr>)
    \<and> mem_read m (bm_ptr b + size_of H) (length body) = body"
proof -
  have h: "mem_has m (bm_ptr b) (to_raw H h)" and body: "mem_has m (bm_ptr b + size_of H) body"
    using assms(1,2) by (simp_all add: wire_def mem_has_append layout_simps)
  have "from_raw_bytes H (mem_read m (bm_ptr b) (size_of H)) = h"
    using h assms(1) by (simp add: wf_layout_pod pod_layout.read_has)
  with assms(3,4) body show ?thesis
    by (simp add: parse_msg_def memcpy_deserialize_def truncate_header_def clone_and_resize_def mem_has_def)
qed

end
