(* ===== verification/Datagram.thy ===== *)
theory Datagram
  imports Async_Future Rdma_Conn
begin

text \<open>
  Unreliable datagrams: os-network/src/datagram/msg.rs, ud.rs and ud_receiver.rs,
  rdma/payload/ud.rs, and the RPC session over them, rpc/impls/ud.rs. Queue pairs, memory regions and
  endpoints are KRdmaKit's: a value of type \<open>ud_kit\<close> has the operations the code calls. They act on
  a world of flat memory, which the device writes when a datagram arrives, and a network state. A
  queue pair is a handle, since the clones of a \<open>UDDatagram\<close> share it; the number of pending
  requests is a field of each clone. A panic is the outer \<^term>\<open>None\<close>.
\<close>

section \<open>The world and the device\<close>

record 'n world =
  w_mem :: mem
  w_net :: 'n

record ('n, 'c, 'qp, 'mr, 'ep, 'e) ud_kit =
  mr_new :: "'c \<Rightarrow> nat \<Rightarrow> 'n world \<Rightarrow> ('mr \<times> 'n world) option"
  mr_virt :: "'mr \<Rightarrow> u64"
  mr_rdma_addr :: "'mr \<Rightarrow> u64"
  mr_capacity :: "'mr \<Rightarrow> nat"
  qp_ctx :: "'qp \<Rightarrow> 'c"
  post_datagram :: "'qp \<Rightarrow> 'ep \<Rightarrow> 'mr \<Rightarrow> u64 \<times> u64 \<Rightarrow> u64 \<Rightarrow> bool \<Rightarrow> 'n world \<Rightarrow> ('e + unit) \<times> 'n world"
  poll_ud_send :: "'qp \<Rightarrow> 'n world \<Rightarrow> ('e + ib_wc list) \<times> 'n world"
  post_recv :: "'qp \<Rightarrow> 'mr \<Rightarrow> u64 \<times> u64 \<Rightarrow> u64 \<Rightarrow> 'n world \<Rightarrow> ('e + unit) \<times> 'n world"
  poll_recv_cq :: "'qp \<Rightarrow> 'n world \<Rightarrow> ('e + ib_wc list) \<times> 'n world"

section \<open>Message buffers\<close>

record 'mr UDMsg =
  msg_inner :: 'mr
  msg_bytes :: BytesMut
  msg_imm :: u32

definition udmsg_new ::
  "('n, 'c, 'qp, 'mr, 'ep, 'e) ud_kit \<Rightarrow> nat \<Rightarrow> u32 \<Rightarrow> 'c \<Rightarrow> 'n world \<Rightarrow> ('mr UDMsg \<times> 'n world) option" where
  "udmsg_new K sz imm ctx w =
     do { (mr, w) \<leftarrow> mr_new K ctx sz w;
          Some (\<lparr>msg_inner = mr, msg_bytes = from_raw (unat (mr_virt K mr)) sz, msg_imm = imm\<rparr>, w) }"

definition udmsg_new_from :: "('n, 'c, 'qp, 'mr, 'ep, 'e) ud_kit \<Rightarrow> 'mr \<Rightarrow> u32 \<Rightarrow> 'mr UDMsg" where
  "udmsg_new_from K mr imm =
     \<lparr>msg_inner = mr, msg_bytes = from_raw (unat (mr_virt K mr)) (mr_capacity K mr), msg_imm = imm\<rparr>"

definition udmsg_get_pa :: "('n, 'c, 'qp, 'mr, 'ep, 'e) ud_kit \<Rightarrow> 'mr UDMsg \<Rightarrow> u64" where
  "udmsg_get_pa K msg = mr_rdma_addr K (msg_inner msg)"

definition udmsg_len :: "'mr UDMsg \<Rightarrow> nat" where
  "udmsg_len msg = bm_len (msg_bytes msg)"

definition udmsg_set_imm :: "'mr UDMsg \<Rightarrow> u32 \<Rightarrow> 'mr UDMsg" where
  "udmsg_set_imm msg imm = msg\<lparr>msg_imm := imm\<rparr>"

definition udmsg_write_str :: "mem \<Rightarrow> 'mr UDMsg \<Rightarrow> u8 list \<Rightarrow> mem \<times> bool" where
  "udmsg_write_str m msg s = write_str m (msg_bytes msg) s"

section \<open>Sending\<close>

definition MAX_MTU :: nat where
  "MAX_MTU = 4096"

definition MAX_MSG_SZ :: nat where
  "MAX_MSG_SZ = MAX_MTU - 40"

definition MAX_SEND_WR :: u32 where
  "MAX_SEND_WR = 2048"

record ('mr, 'ep) UDReqPayload =
  ud_mr :: 'mr
  ud_range :: "u64 \<times> u64"
  ud_signaled :: bool
  ud_endpoint :: 'ep

definition ud_payload_new :: "'mr \<Rightarrow> u64 \<times> u64 \<Rightarrow> bool \<Rightarrow> 'ep \<Rightarrow> ('mr, 'ep) UDReqPayload" where
  "ud_payload_new mr r sg ep = \<lparr>ud_mr = mr, ud_range = r, ud_signaled = sg, ud_endpoint = ep\<rparr>"

record 'qp UDDatagram =
  ud :: 'qp
  pending :: nat

definition ud_clone :: "'qp UDDatagram \<Rightarrow> 'qp UDDatagram" where
  "ud_clone d = \<lparr>ud = ud d, pending = pending d\<rparr>"

definition ud_poll :: "('n, 'c, 'qp, 'mr, 'ep, 'e) ud_kit \<Rightarrow> ('qp UDDatagram \<times> 'n world, ib_wc, 'e) future" where
  "ud_poll K = (\<lambda>(d, w).
     case poll_ud_send K (ud d) w of
       (Inl e, w) \<Rightarrow> (Inl e, d, w)
     | (Inr [], w) \<Rightarrow> (Inr NotReady, d, w)
     | (Inr (wc # _), w) \<Rightarrow> (Inr (Ready wc), d\<lparr>pending := 0\<rparr>, w))"

definition ud_post ::
  "('n, 'c, 'qp, 'mr, 'ep, 'e) ud_kit \<Rightarrow> ('mr, 'ep) UDReqPayload \<Rightarrow> 'qp UDDatagram \<times> 'n world \<Rightarrow>
    (('e + unit) \<times> 'qp UDDatagram \<times> 'n world) option" where
  "ud_post K req = (\<lambda>(d, w).
     case post_datagram K (ud d) (ud_endpoint req) (ud_mr req) (ud_range req) (mr_virt K (ud_mr req)) (ud_signaled req) w of
       (Inl e, w) \<Rightarrow> Some (Inl e, d, w)
     | (Inr _, w) \<Rightarrow>
         if pending d + 1 < 2 ^ 64 then Some (Inr (), d\<lparr>pending := pending d + 1\<rparr>, w) else None)"

text \<open>Creating a queue pair: the builder of KRdmaKit, and the control path that brings the pair up.\<close>

record ('n, 'c, 'b, 'raw, 'qp, 'cp) qp_ctl =
  builder_new :: "'c \<Rightarrow> 'b"
  allow_remote_rw :: "'b \<Rightarrow> 'b"
  allow_remote_atomic :: "'b \<Rightarrow> 'b"
  set_max_send_wr :: "u32 \<Rightarrow> 'b \<Rightarrow> 'b"
  set_port_num :: "u8 \<Rightarrow> 'b \<Rightarrow> 'b"
  build_ud :: "'b \<Rightarrow> 'n world \<Rightarrow> ('cp + 'raw) \<times> 'n world"
  bring_up_ud :: "'raw \<Rightarrow> 'n world \<Rightarrow> ('cp + 'qp) \<times> 'n world"

definition ud_create ::
  "('n, 'c, 'b, 'raw, 'qp, 'cp) qp_ctl \<Rightarrow> 'c \<Rightarrow> u8 \<Rightarrow> 'n world \<Rightarrow> ('cp + 'qp UDDatagram) \<times> 'n world" where
  "ud_create Q ctx port w =
     (let builder = set_port_num Q port (set_max_send_wr Q MAX_SEND_WR
            (allow_remote_atomic Q (allow_remote_rw Q (builder_new Q ctx))))
      in case build_ud Q builder w of
           (Inl e, w) \<Rightarrow> (Inl e, w)
         | (Inr raw, w) \<Rightarrow>
             (case bring_up_ud Q raw w of
                (Inl e, w) \<Rightarrow> (Inl e, w)
              | (Inr qp, w) \<Rightarrow> (Inr \<lparr>ud = qp, pending = 0\<rparr>, w)))"

record UDHyperMeta =
  hm_gid :: ib_gid
  hm_service_id :: u64
  hm_qd_hint :: u64
  hm_local_port :: u8

definition hyper_meta_default :: UDHyperMeta where
  "hyper_meta_default = \<lparr>hm_gid = 0, hm_service_id = 0, hm_qd_hint = 0, hm_local_port = 1\<rparr>"

datatype ('cp, 'cm) UDMetaFactoryError = MetaControlpathError 'cp | MetaCMError 'cm

text \<open>Resolving a route and asking the other machine for its endpoint, both over the network.\<close>

record ('n, 'c, 'path, 'qr, 'ep, 'cp, 'cm) ep_ctl =
  resolve_inner :: "'c \<Rightarrow> u64 \<Rightarrow> u8 \<Rightarrow> ib_gid \<Rightarrow> 'n world \<Rightarrow> ('cm + 'path) \<times> 'n world"
  querier_create :: "'c \<Rightarrow> u8 \<Rightarrow> 'n world \<Rightarrow> ('cp + 'qr) \<times> 'n world"
  querier_query :: "'qr \<Rightarrow> u64 \<Rightarrow> u64 \<Rightarrow> 'path \<Rightarrow> 'n world \<Rightarrow> ('cp + 'ep) \<times> 'n world"

definition ud_create_meta ::
  "('n, 'c, 'path, 'qr, 'ep, 'cp, 'cm) ep_ctl \<Rightarrow> 'c \<Rightarrow> UDHyperMeta \<Rightarrow> 'n world \<Rightarrow>
    (('cp, 'cm) UDMetaFactoryError + 'ep) \<times> 'n world" where
  "ud_create_meta E ctx hm w =
     (case resolve_inner E ctx (hm_service_id hm) (hm_local_port hm) (hm_gid hm) w of
        (Inl e, w) \<Rightarrow> (Inl (MetaCMError e), w)
      | (Inr path, w) \<Rightarrow>
          (case querier_create E ctx (hm_local_port hm) w of
             (Inl e, w) \<Rightarrow> (Inl (MetaControlpathError e), w)
           | (Inr qr, w) \<Rightarrow>
               (case querier_query E qr (hm_service_id hm) (hm_qd_hint hm) path w of
                  (Inl e, w) \<Rightarrow> (Inl (MetaControlpathError e), w)
                | (Inr ep, w) \<Rightarrow> (Inr ep, w))))"

section \<open>Receiving\<close>

definition RECV_HEADER :: nat where
  "RECV_HEADER = 40"

definition RECV_MTU :: nat where
  "RECV_MTU = 4096"

record ('qp, 'mr) UDReceiver =
  r_qd_hint :: nat
  r_inner :: "'qp UDDatagram"
  msg_queues :: "'mr UDMsg list"

definition receiver_new :: "'qp UDDatagram \<Rightarrow> nat \<Rightarrow> ('qp, 'mr) UDReceiver" where
  "receiver_new d hint = \<lparr>r_qd_hint = hint, r_inner = d, msg_queues = []\<rparr>"

definition post_recv_buf ::
  "('n, 'c, 'qp, 'mr, 'ep, 'e) ud_kit \<Rightarrow> 'mr UDMsg \<Rightarrow> ('qp, 'mr) UDReceiver \<times> 'n world \<Rightarrow>
    ('e + unit) \<times> ('qp, 'mr) UDReceiver \<times> 'n world" where
  "post_recv_buf K buf = (\<lambda>(r, w).
     case post_recv K (ud (r_inner r)) (msg_inner buf) (0, of_nat (udmsg_len buf)) (udmsg_get_pa K buf) w of
       (Inl e, w) \<Rightarrow> (Inl e, r, w)
     | (Inr _, w) \<Rightarrow> (Inr (), r\<lparr>msg_queues := msg_queues r @ [buf]\<rparr>, w))"

text \<open>A completion with no buffer queued panics.\<close>

definition receiver_poll ::
  "('n, 'c, 'qp, 'mr, 'ep, 'e) ud_kit \<Rightarrow> ('qp, 'mr) UDReceiver \<times> 'n world \<Rightarrow>
    (('mr UDMsg, 'e) Poll \<times> ('qp, 'mr) UDReceiver \<times> 'n world) option" where
  "receiver_poll K = (\<lambda>(r, w).
     case poll_recv_cq K (ud (r_inner r)) w of
       (Inl e, w) \<Rightarrow> Some (Inl e, r, w)
     | (Inr [], w) \<Rightarrow> Some (Inr NotReady, r, w)
     | (Inr (_ # _), w) \<Rightarrow>
         (case msg_queues r of
            [] \<Rightarrow> None
          | msg # ms \<Rightarrow> Some (Inr (Ready msg), r\<lparr>msg_queues := ms\<rparr>, w)))"

definition receiver_context :: "('n, 'c, 'qp, 'mr, 'ep, 'e) ud_kit \<Rightarrow> ('qp, 'mr) UDReceiver \<Rightarrow> 'c" where
  "receiver_context K r = qp_ctx K (ud (r_inner r))"

section \<open>RPC sessions\<close>

record ('qp, 'ep) UDSession =
  ss_meta :: 'ep
  ss_inner :: "'qp UDDatagram"

definition session_create :: "'qp UDDatagram \<Rightarrow> 'ep \<Rightarrow> ('qp, 'ep) UDSession" where
  "session_create d endpoint = \<lparr>ss_meta = endpoint, ss_inner = ud_clone d\<rparr>"

definition session_poll ::
  "('n, 'c, 'qp, 'mr, 'ep, 'e) ud_kit \<Rightarrow> (('qp, 'ep) UDSession \<times> 'n world, ib_wc, 'e) future" where
  "session_poll K = (\<lambda>(s, w). let (r, d, w) = ud_poll K (ss_inner s, w) in (r, s\<lparr>ss_inner := d\<rparr>, w))"

definition session_post ::
  "('n, 'c, 'qp, 'mr, 'ep, 'e) ud_kit \<Rightarrow> 'mr UDMsg \<Rightarrow> nat \<Rightarrow> bool \<Rightarrow> ('qp, 'ep) UDSession \<times> 'n world \<Rightarrow>
    (('e + unit) \<times> ('qp, 'ep) UDSession \<times> 'n world) option" where
  "session_post K req sz signaled = (\<lambda>(s, w).
     do { (r, d, w) \<leftarrow> ud_post K (ud_payload_new (msg_inner req) (0, of_nat sz) signaled (ss_meta s)) (ss_inner s, w);
          Some (r, s\<lparr>ss_inner := d\<rparr>, w) })"

definition get_pending_reqs :: "('qp, 'ep) UDSession \<Rightarrow> nat" where
  "get_pending_reqs s = pending (ss_inner s)"

section \<open>The contract of a connection\<close>

text \<open>
  The trait \<open>RPCConn\<close>: a request that was accepted is pending, one that was refused is not, and a
  completion clears the count. \<open>idle\<close> is what a session keeps across all calls.
\<close>

locale rpc_conn =
  fixes post :: "'req \<Rightarrow> nat \<Rightarrow> bool \<Rightarrow> 's \<times> 'w \<Rightarrow> (('e + unit) \<times> 's \<times> 'w) option"
    and poll :: "('s \<times> 'w, 'o, 'e) future"
    and pend :: "'s \<Rightarrow> nat"
    and peer :: "'s \<Rightarrow> 'p"
  assumes post_ok: "post req n sg (s, w) = Some (Inr (), s', w') \<Longrightarrow> pend s' = pend s + 1 \<and> peer s' = peer s"
    and post_err: "post req n sg (s, w) = Some (Inl e, s', w') \<Longrightarrow> s' = s"
    and poll_ready: "poll (s, w) = (Inr (Ready v), s', w') \<Longrightarrow> pend s' = 0 \<and> peer s' = peer s"
    and poll_wait: "poll (s, w) = (Inr NotReady, s', w') \<Longrightarrow> s' = s"
    and poll_err: "poll (s, w) = (Inl e, s', w') \<Longrightarrow> s' = s"
begin

lemma post_pend:
  assumes "post req n sg (s, w) = Some (r, s', w')"
  shows "pend s' = pend s + (case r of Inl _ \<Rightarrow> 0 | Inr _ \<Rightarrow> 1) \<and> peer s' = peer s"
  using assms post_ok [of req n sg s w] post_err [of req n sg s w] by (cases r) auto

lemma block_drains:
  assumes "block_on poll (s, w) = Some (r, s', w')"
  shows "(\<forall>v. r = Inr v \<longrightarrow> pend s' = 0) \<and> (\<forall>e. r = Inl e \<longrightarrow> s' = s) \<and> peer s' = peer s"
proof -
  from block_on_invariant [where I = "\<lambda>(t, v). t = s", OF assms] poll_wait
  obtain w0 where w0: "fst (poll (s, w0)) \<noteq> Inr NotReady" "r = outcome (fst (poll (s, w0)))" "(s', w') = snd (poll (s, w0))"
    by fastforce
  show ?thesis
  proof (cases "fst (poll (s, w0))")
    case (Inl e)
    then have "poll (s, w0) = (Inl e, s', w')"
      using w0(3) by (metis prod.collapse)
    from poll_err [OF this] show ?thesis
      using w0(2) Inl by (simp add: outcome_def)
  next
    case (Inr a)
    then obtain v where v: "poll (s, w0) = (Inr (Ready v), s', w')"
      using w0(1,3) by (cases a) (metis prod.collapse)+
    from poll_ready [OF this] show ?thesis
      using w0(2) v by (simp add: outcome_def)
  qed
qed

text \<open>The throttle both ends of an RPC use: block once more than \<open>n\<close> requests are pending.\<close>

lemma throttled:
  assumes "post req sz sg (s, w) = Some (r, s1, w1)" "pend s \<le> n"
    and "n < pend s1 \<Longrightarrow> block_on poll (s1, w1) = Some (Inr v, s2, w2)"
    and "\<not> n < pend s1 \<Longrightarrow> s2 = s1"
  shows "pend s2 \<le> n \<and> peer s2 = peer s"
  using assms(3,4) block_drains [of s1 w1 "Inr v" s2 w2] post_pend [OF assms(1)]
  by (cases "n < pend s1") auto

end

lemma session_post_cases:
  assumes "session_post K req n sg (s, w) = Some (r, s', w')"
  obtains e where "r = Inl e" "s' = s"
      "post_datagram K (ud (ss_inner s)) (ss_meta s) (msg_inner req) (0, of_nat n) (mr_virt K (msg_inner req)) sg w = (Inl e, w')"
  | "r = Inr ()" "s' = s\<lparr>ss_inner := (ss_inner s)\<lparr>pending := pending (ss_inner s) + 1\<rparr>\<rparr>"
      "post_datagram K (ud (ss_inner s)) (ss_meta s) (msg_inner req) (0, of_nat n) (mr_virt K (msg_inner req)) sg w = (Inr (), w')"
proof -
  obtain p w1 where p: "post_datagram K (ud (ss_inner s)) (ss_meta s) (msg_inner req) (0, of_nat n) (mr_virt K (msg_inner req)) sg w = (p, w1)"
    by fastforce
  show ?thesis
  proof (cases p)
    case (Inl e)
    show ?thesis
      by (rule that(1) [of e])
        (use assms p Inl in \<open>simp_all add: session_post_def ud_post_def ud_payload_new_def\<close>)
  next
    case (Inr u)
    have "pending (ss_inner s) + 1 < 2 ^ 64"
      using assms p Inr by (simp add: session_post_def ud_post_def ud_payload_new_def split: if_splits)
    then show ?thesis
      by (intro that(2)) (use assms p Inr in \<open>simp_all add: session_post_def ud_post_def ud_payload_new_def\<close>)
  qed
qed

lemma session_poll_cases:
  obtains e w' where "poll_ud_send K (ud (ss_inner s)) w = (Inl e, w')" "session_poll K (s, w) = (Inl e, s, w')"
  | w' where "poll_ud_send K (ud (ss_inner s)) w = (Inr [], w')" "session_poll K (s, w) = (Inr NotReady, s, w')"
  | wc wcs w' where "poll_ud_send K (ud (ss_inner s)) w = (Inr (wc # wcs), w')"
      "session_poll K (s, w) = (Inr (Ready wc), s\<lparr>ss_inner := (ss_inner s)\<lparr>pending := 0\<rparr>\<rparr>, w')"
proof -
  obtain p w1 where p: "poll_ud_send K (ud (ss_inner s)) w = (p, w1)"
    by fastforce
  consider e where "p = Inl e" | "p = Inr []" | wc wcs where "p = Inr (wc # wcs)"
    by (metis neq_Nil_conv sum.exhaust)
  then show ?thesis
    by cases (use p that in \<open>simp_all add: session_poll_def ud_poll_def\<close>)
qed

interpretation uds: rpc_conn "session_post K" "session_poll K" get_pending_reqs "\<lambda>s. (ss_meta s, ud (ss_inner s))"
proof
  fix req n sg s w s' w' e
  show "get_pending_reqs s' = get_pending_reqs s + 1 \<and> (ss_meta s', ud (ss_inner s')) = (ss_meta s, ud (ss_inner s))"
    if "session_post K req n sg (s, w) = Some (Inr (), s', w')"
    using that by (cases rule: session_post_cases) (simp_all add: get_pending_reqs_def)
  show "s' = s" if "session_post K req n sg (s, w) = Some (Inl e, s', w')"
    using that by (cases rule: session_post_cases) simp_all
  show "get_pending_reqs s' = 0 \<and> (ss_meta s', ud (ss_inner s')) = (ss_meta s, ud (ss_inner s))"
    if "session_poll K (s, w) = (Inr (Ready v), s', w')" for v
    using that by (cases rule: session_poll_cases [of K s w]) (auto simp: get_pending_reqs_def)
  show "s' = s" if "session_poll K (s, w) = (Inr NotReady, s', w')"
    using that by (cases rule: session_poll_cases [of K s w]) simp_all
  show "s' = s" if "session_poll K (s, w) = (Inl e, s', w')"
    using that by (cases rule: session_poll_cases [of K s w]) simp_all
qed

end
