(* ===== verification/Rpc.thy ===== *)
theory Rpc
  imports Rpc_Header Datagram
begin

text \<open>
  Remote procedure calls over datagrams: the server side \<open>RPCHook\<close> of os-network/src/rpc/hook.rs and
  the client side \<open>Caller\<close> of os-network/src/rpc.rs, both on the UD transport the module uses. One
  call of \<open>hook_poll\<close> takes one message from the receive queue, dispatches it (connect or request),
  replies on the session of the sender and posts the receive buffer again. \<open>MF\<close> is the meta
  factory that turns the address in a connect message into an endpoint.
\<close>

section \<open>Errors\<close>

datatype 'e hook_error =
    HookInner 'e | HookNoID | NotConnected | CorruptedHeader | SessionCreationError | InValidSz | HookFatal

datatype 'e call_error = CallInner 'e | CallNoID | ConnectError | CallFatal

definition hook_is_inner :: "'e hook_error \<Rightarrow> bool" where
  "hook_is_inner e = (case e of HookInner _ \<Rightarrow> True | _ \<Rightarrow> False)"

definition call_is_inner :: "'e call_error \<Rightarrow> bool" where
  "call_is_inner e = (case e of CallInner _ \<Rightarrow> True | _ \<Rightarrow> False)"

section \<open>The server\<close>

record ('n, 'c, 'qp, 'mr, 'ep) RPCHook =
  service :: "'n world Service"
  session_factory :: "'qp UDDatagram"
  meta_factory :: 'c
  transport :: "('qp, 'mr) UDReceiver"
  connected_sessions :: "u64 \<Rightarrow> (('qp, 'ep) UDSession \<times> 'mr UDMsg) option"
  analysis :: RPCAnalysis

definition hook_new ::
  "'c \<Rightarrow> 'qp UDDatagram \<Rightarrow> ('qp, 'mr) UDReceiver \<Rightarrow> ('n, 'c, 'qp, 'mr, 'ep) RPCHook" where
  "hook_new meta_f factory tr =
     \<lparr>service = service_new, session_factory = factory, meta_factory = meta_f, transport = tr,
      connected_sessions = Map.empty, analysis = analysis_new\<rparr>"

definition post_msg_buf ::
  "('n, 'c, 'qp, 'mr, 'ep, 'e) ud_kit \<Rightarrow> 'mr UDMsg \<Rightarrow> ('n, 'c, 'qp, 'mr, 'ep) RPCHook \<times> 'n world \<Rightarrow>
    ('e + unit) \<times> ('n, 'c, 'qp, 'mr, 'ep) RPCHook \<times> 'n world" where
  "post_msg_buf K msg = (\<lambda>(h, w).
     let (r, t, w) = post_recv_buf K msg (transport h, w) in (r, h\<lparr>transport := t\<rparr>, w))"

definition put_session ::
  "u64 \<Rightarrow> ('qp, 'ep) UDSession \<Rightarrow> 'mr UDMsg \<Rightarrow> ('n, 'c, 'qp, 'mr, 'ep) RPCHook \<Rightarrow> ('n, 'c, 'qp, 'mr, 'ep) RPCHook" where
  "put_session i s buf h = h\<lparr>connected_sessions := (connected_sessions h)(i \<mapsto> (s, buf))\<rparr>"

definition send_reply ::
  "('n, 'c, 'qp, 'mr, 'ep, 'e) ud_kit \<Rightarrow> MsgHeader layout \<Rightarrow> u64 \<Rightarrow> ReplyStubFactory \<Rightarrow>
    ('n, 'c, 'qp, 'mr, 'ep) RPCHook \<times> 'n world \<Rightarrow>
    (('e hook_error + unit) \<times> ('n, 'c, 'qp, 'mr, 'ep) RPCHook \<times> 'n world) option" where
  "send_reply K H i reply = (\<lambda>(h, w).
     case connected_sessions h i of
       None \<Rightarrow> Some (Inl SessionCreationError, h, w)
     | Some (s, buf) \<Rightarrow>
         (let signal = (get_pending_reqs s = 0);
              (m, r) = reply_generate H reply (w_mem w) (msg_bytes buf)
          in do { n \<leftarrow> r;
                  require (rsf_payload reply + n < 2 ^ 64);
                  (ret, s, w) \<leftarrow> session_post K buf (rsf_payload reply + n) signal (s, w\<lparr>w_mem := m\<rparr>);
                  (if get_pending_reqs s > 4 then
                     do { (res, s, w) \<leftarrow> block_on (session_poll K) (s, w);
                          (case res of
                             Inl _ \<Rightarrow> Some (Inl HookFatal, put_session i s buf h, w)
                           | Inr _ \<Rightarrow>
                               do { require (get_pending_reqs s = 0);
                                    Some (map_sum (\<lambda>_. HookFatal) id ret, put_session i s buf h, w) }) }
                   else Some (map_sum (\<lambda>_. HookFatal) id ret, put_session i s buf h, w)) }))"

definition hook_connect ::
  "('n, 'c, 'qp, 'mr, 'ep, 'e) ud_kit \<Rightarrow> MsgHeader layout \<Rightarrow> UDHyperMeta layout \<Rightarrow>
    ('c \<Rightarrow> UDHyperMeta \<Rightarrow> 'n world \<Rightarrow> ('me + 'ep) \<times> 'n world) \<Rightarrow> u64 \<Rightarrow> BytesMut \<Rightarrow>
    ('n, 'c, 'qp, 'mr, 'ep) RPCHook \<times> 'n world \<Rightarrow>
    (('e hook_error + unit) \<times> ('n, 'c, 'qp, 'mr, 'ep) RPCHook \<times> 'n world) option" where
  "hook_connect K H L MF i rpc_args = (\<lambda>(h, w).
     if connected_sessions h i = None then
       (case memcpy_deserialize L (w_mem w) rpc_args hyper_meta_default of
          (_, None) \<Rightarrow> Some (Inl CorruptedHeader, h, w)
        | (session_meta, Some _) \<Rightarrow>
            (case MF (meta_factory h) session_meta w of
               (Inl _, w) \<Rightarrow> Some (Inl SessionCreationError, h, w)
             | (Inr endpoint, w) \<Rightarrow>
                 do { (buf, w) \<leftarrow> udmsg_new K RECV_MTU 0 (receiver_context K (transport h)) w;
                      send_reply K H i (reply_factory_new ReplyOk 0)
                        (put_session i (session_create (session_factory h) endpoint) buf h, w) }))
     else Some (Inl SessionCreationError, h, w))"

definition hook_request ::
  "('n, 'c, 'qp, 'mr, 'ep, 'e) ud_kit \<Rightarrow> MsgHeader layout \<Rightarrow> CallStub \<Rightarrow> BytesMut \<Rightarrow>
    ('n, 'c, 'qp, 'mr, 'ep) RPCHook \<times> 'n world \<Rightarrow>
    (('e hook_error + unit) \<times> ('n, 'c, 'qp, 'mr, 'ep) RPCHook \<times> 'n world) option" where
  "hook_request K H stub rpc_args = (\<lambda>(h, w).
     case connected_sessions h (call_session_id stub) of
       None \<Rightarrow> Some (Inl NotConnected, h, w)
     | Some (_, buf) \<Rightarrow>
         do { out_buf \<leftarrow> truncate_header (msg_bytes buf) (size_of H);
              (reply_payload, w) \<leftarrow> service_execute (call_rpc_id stub) rpc_args out_buf (service h) w;
              a \<leftarrow> handle_one (analysis h);
              a \<leftarrow> handle_session_call (call_session_id stub) a;
              send_reply K H (call_session_id stub)
                (case reply_payload of Some sz \<Rightarrow> reply_factory_new ReplyOk sz | None \<Rightarrow> reply_factory_new NotExist 0)
                (h\<lparr>analysis := a\<rparr>, w) })"

text \<open>A disconnect message is not implemented (\<open>todo!()\<close>) and panics; other markers are only logged.\<close>

definition hook_dispatch ::
  "('n, 'c, 'qp, 'mr, 'ep, 'e) ud_kit \<Rightarrow> MsgHeader layout \<Rightarrow> UDHyperMeta layout \<Rightarrow>
    ('c \<Rightarrow> UDHyperMeta \<Rightarrow> 'n world \<Rightarrow> ('me + 'ep) \<times> 'n world) \<Rightarrow> MsgHeader \<Rightarrow> BytesMut \<Rightarrow>
    ('n, 'c, 'qp, 'mr, 'ep) RPCHook \<times> 'n world \<Rightarrow>
    (('e hook_error + unit) \<times> ('n, 'c, 'qp, 'mr, 'ep) RPCHook \<times> 'n world) option" where
  "hook_dispatch K H L MF hdr rpc_args = (\<lambda>(h, w).
     case marker hdr of
       Connect \<Rightarrow>
         (case get_connect_stub hdr of
            None \<Rightarrow> Some (Inl CorruptedHeader, h, w)
          | Some stub \<Rightarrow> hook_connect K H L MF (connect_session_id stub) rpc_args (h, w))
     | Request \<Rightarrow>
         (case get_call_stub hdr of
            None \<Rightarrow> Some (Inl CorruptedHeader, h, w)
          | Some stub \<Rightarrow> hook_request K H stub rpc_args (h, w))
     | DisConnect \<Rightarrow> None
     | _ \<Rightarrow> Some (Inr (), h, w))"

definition hook_poll ::
  "('n, 'c, 'qp, 'mr, 'ep, 'e) ud_kit \<Rightarrow> MsgHeader layout \<Rightarrow> UDHyperMeta layout \<Rightarrow>
    ('c \<Rightarrow> UDHyperMeta \<Rightarrow> 'n world \<Rightarrow> ('me + 'ep) \<times> 'n world) \<Rightarrow>
    ('n, 'c, 'qp, 'mr, 'ep) RPCHook \<times> 'n world \<Rightarrow>
    ((unit, 'e hook_error) Poll \<times> ('n, 'c, 'qp, 'mr, 'ep) RPCHook \<times> 'n world) option" where
  "hook_poll K H L MF = (\<lambda>(h, w).
     do { (p, t, w) \<leftarrow> receiver_poll K (transport h, w);
          let h = h\<lparr>transport := t\<rparr>;
          (case p of
             Inl e \<Rightarrow> Some (Inl (HookInner e), h, w)
           | Inr NotReady \<Rightarrow> Some (Inr NotReady, h, w)
           | Inr (Ready msg) \<Rightarrow>
               (case truncate_header (bytes_clone (msg_bytes msg)) RECV_HEADER \<bind> parse_msg H (w_mem w) of
                  None \<Rightarrow> Some (Inl CorruptedHeader, h, w)
                | Some (hdr, rpc_args) \<Rightarrow>
                    do { (res, h, w) \<leftarrow> hook_dispatch K H L MF hdr rpc_args (h, w);
                         (case res of
                            Inl e \<Rightarrow> Some (Inl e, h, w)
                          | Inr _ \<Rightarrow>
                              (let (r, t, w) = post_recv_buf K msg (transport h, w)
                               in Some (case r of Inl e \<Rightarrow> Inl (HookInner e) | Inr _ \<Rightarrow> Inr (Ready ()),
                                        h\<lparr>transport := t\<rparr>, w))) })) })"

section \<open>The client\<close>

record ('qp, 'mr, 'ep) Caller =
  inner_receiver :: "('qp, 'mr) UDReceiver"
  caller_sessions :: "u64 \<Rightarrow> (('qp, 'ep) UDSession \<times> 'mr UDMsg) option"

definition caller_new :: "('qp, 'mr) UDReceiver \<Rightarrow> ('qp, 'mr, 'ep) Caller" where
  "caller_new inner = \<lparr>inner_receiver = inner, caller_sessions = Map.empty\<rparr>"

definition register_recv_buf ::
  "('n, 'c, 'qp, 'mr, 'ep, 'e) ud_kit \<Rightarrow> 'mr UDMsg \<Rightarrow> ('qp, 'mr, 'ep) Caller \<times> 'n world \<Rightarrow>
    ('e + unit) \<times> ('qp, 'mr, 'ep) Caller \<times> 'n world" where
  "register_recv_buf K msg = (\<lambda>(c, w).
     let (r, t, w) = post_recv_buf K msg (inner_receiver c, w) in (r, c\<lparr>inner_receiver := t\<rparr>, w))"

definition session_connected :: "u64 \<Rightarrow> ('qp, 'mr, 'ep) Caller \<Rightarrow> bool" where
  "session_connected i c \<longleftrightarrow> caller_sessions c i \<noteq> None"

definition caller_pending_reqs :: "u64 \<Rightarrow> ('qp, 'mr, 'ep) Caller \<Rightarrow> nat option" where
  "caller_pending_reqs i c = map_option (\<lambda>(s, _). get_pending_reqs s) (caller_sessions c i)"

definition put_caller_session ::
  "u64 \<Rightarrow> ('qp, 'ep) UDSession \<Rightarrow> 'mr UDMsg \<Rightarrow> ('qp, 'mr, 'ep) Caller \<Rightarrow> ('qp, 'mr, 'ep) Caller" where
  "put_caller_session i s msg c = c\<lparr>caller_sessions := (caller_sessions c)(i \<mapsto> (s, msg))\<rparr>"

definition sync_call ::
  "('n, 'c, 'qp, 'mr, 'ep, 'e) ud_kit \<Rightarrow> MsgHeader layout \<Rightarrow> 'a layout \<Rightarrow> u64 \<Rightarrow> u64 \<Rightarrow> u64 \<Rightarrow> 'a \<Rightarrow>
    ('qp, 'mr, 'ep) Caller \<times> 'n world \<Rightarrow> (('e + unit) \<times> ('qp, 'mr, 'ep) Caller \<times> 'n world) option" where
  "sync_call K H L session_id my_session_id rpc_id arg = (\<lambda>(c, w).
     do { (s, msg) \<leftarrow> caller_sessions c session_id;
          let signal_flag = (get_pending_reqs s = 0);
          let (m, req_sz) = call_generate H L (call_factory_new my_session_id rpc_id) (w_mem w) (msg_bytes msg) arg;
          req_sz \<leftarrow> req_sz;
          (ret, s, w) \<leftarrow> session_post K msg req_sz signal_flag (s, w\<lparr>w_mem := m\<rparr>);
          (case ret of
             Inl e \<Rightarrow> Some (Inl e, put_caller_session session_id s msg c, w)
           | Inr _ \<Rightarrow>
               (if get_pending_reqs s > 8 then
                  do { (res, s, w) \<leftarrow> block_on (session_poll K) (s, w);
                       require (\<not> isl res);
                       require (get_pending_reqs s = 0);
                       Some (Inr (), put_caller_session session_id s msg c, w) }
                else Some (Inr (), put_caller_session session_id s msg c, w))) })"

definition caller_connect ::
  "('n, 'c, 'qp, 'mr, 'ep, 'e) ud_kit \<Rightarrow> MsgHeader layout \<Rightarrow> UDHyperMeta layout \<Rightarrow> u64 \<Rightarrow> u64 \<Rightarrow>
    ('qp, 'ep) UDSession \<Rightarrow> UDHyperMeta \<Rightarrow> ('qp, 'mr, 'ep) Caller \<times> 'n world \<Rightarrow>
    (('e + unit) \<times> ('qp, 'mr, 'ep) Caller \<times> 'n world) option" where
  "caller_connect K H L session_id my_session_id s hm = (\<lambda>(c, w).
     do { (msg, w) \<leftarrow> udmsg_new K RECV_MTU 0 (receiver_context K (inner_receiver c)) w;
          let (m, req_sz) = connect_generate H L my_session_id (w_mem w) (msg_bytes msg) hm;
          req_sz \<leftarrow> req_sz;
          (ret, s, w) \<leftarrow> session_post K msg req_sz True (s, w\<lparr>w_mem := m\<rparr>);
          (case ret of
             Inl e \<Rightarrow> Some (Inl e, c, w)
           | Inr _ \<Rightarrow>
               do { (res, s, w) \<leftarrow> block_on (session_poll K) (s, w);
                    require (\<not> isl res);
                    Some (Inr (), put_caller_session session_id s msg c, w) }) })"

text \<open>The reply a client polls: the receive buffer it came in, and the view of the payload.\<close>

definition caller_poll ::
  "('n, 'c, 'qp, 'mr, 'ep, 'e) ud_kit \<Rightarrow> MsgHeader layout \<Rightarrow> ('qp, 'mr, 'ep) Caller \<times> 'n world \<Rightarrow>
    (('mr UDMsg \<times> BytesMut, 'e call_error) Poll \<times> ('qp, 'mr, 'ep) Caller \<times> 'n world) option" where
  "caller_poll K H = (\<lambda>(c, w).
     do { (p, t, w) \<leftarrow> receiver_poll K (inner_receiver c, w);
          let c = c\<lparr>inner_receiver := t\<rparr>;
          (case p of
             Inl e \<Rightarrow> Some (Inl (CallInner e), c, w)
           | Inr NotReady \<Rightarrow> Some (Inr NotReady, c, w)
           | Inr (Ready msg) \<Rightarrow>
               do { hb \<leftarrow> truncate_header (bytes_clone (msg_bytes msg)) RECV_HEADER;
                    let (hdr, _) = memcpy_deserialize H (w_mem w) hb msg_header_default;
                    (if is_reply hdr then
                       (case get_reply_stub hdr of
                          None \<Rightarrow> Some (Inl CallFatal, c, w)
                        | Some ReplyOk \<Rightarrow>
                            do { b \<leftarrow> truncate_header hb (size_of H);
                                 b \<leftarrow> clone_and_resize b (unat (payload hdr));
                                 Some (Inr (Ready (msg, b)), c, w) }
                        | Some NotExist \<Rightarrow> Some (Inl CallNoID, c, w))
                     else Some (Inl CallFatal, c, w)) }) })"

text \<open>
  Blocking on a future whose poll may panic: the loop \<open>block_on\<close> of os-network/src/lib.rs again.
\<close>

partial_function (option) block_on_panicky ::
  "('s \<Rightarrow> (('a, 'e) Poll \<times> 's) option) \<Rightarrow> 's \<Rightarrow> (('e + 'a) \<times> 's) option" where
  "block_on_panicky poll s =
     do { (p, s') \<leftarrow> poll s;
          (case p of
             Inr (Ready v) \<Rightarrow> Some (Inr v, s')
           | Inr NotReady \<Rightarrow> block_on_panicky poll s'
           | Inl e \<Rightarrow> Some (Inl e, s')) }"

section \<open>Completions and flow control\<close>

text \<open>
  What the code relies on of a queue pair \<open>qp\<close>: a signaled send that was accepted gives one
  completion, an unsignaled one none; \<open>due\<close> counts the completions still to be polled, and while one is
  due polling makes progress (\<open>delay\<close> decreases) until it is there. A send may be refused, a poll of the
  completion queue does not fail.
\<close>

definition counts_sends ::
  "('n, 'c, 'qp, 'mr, 'ep, 'e) ud_kit \<Rightarrow> 'qp \<Rightarrow> ('n \<Rightarrow> nat) \<Rightarrow> ('n \<Rightarrow> nat) \<Rightarrow> bool" where
  "counts_sends K qp due delay \<longleftrightarrow>
     (\<forall>ep mr r va sg w x w'. post_datagram K qp ep mr r va sg w = (x, w') \<longrightarrow>
        due (w_net w') = due (w_net w) + (case x of Inl _ \<Rightarrow> 0 | Inr _ \<Rightarrow> of_bool sg))
   \<and> (\<forall>w e w'. poll_ud_send K qp w \<noteq> (Inl e, w'))
   \<and> (\<forall>w w'. poll_ud_send K qp w = (Inr [], w') \<longrightarrow>
        due (w_net w') = due (w_net w) \<and> (0 < due (w_net w) \<longrightarrow> delay (w_net w') < delay (w_net w)))
   \<and> (\<forall>w wc wcs w'. poll_ud_send K qp w = (Inr (wc # wcs), w') \<longrightarrow> due (w_net w) = Suc (due (w_net w')))"

lemma counts_post:
  assumes "counts_sends K qp due delay" "post_datagram K qp ep mr r va sg w = (x, w')"
  shows "due (w_net w') = due (w_net w) + (case x of Inl _ \<Rightarrow> 0 | Inr _ \<Rightarrow> of_bool sg)"
  using assms unfolding counts_sends_def by blast

lemma counts_poll:
  assumes "counts_sends K qp due delay"
  shows "poll_ud_send K qp w \<noteq> (Inl e, w')"
    and "poll_ud_send K qp w = (Inr [], w') \<Longrightarrow> due (w_net w') = due (w_net w)"
    and "poll_ud_send K qp w = (Inr [], w') \<Longrightarrow> 0 < due (w_net w) \<Longrightarrow> delay (w_net w') < delay (w_net w)"
    and "poll_ud_send K qp w = (Inr (wc # wcs), w') \<Longrightarrow> due (w_net w) = Suc (due (w_net w'))"
  using assms unfolding counts_sends_def by blast+

definition idle :: "('qp, 'ep) UDSession \<Rightarrow> ('qp, 'ep) UDSession" where
  "idle s = s\<lparr>ss_inner := (ss_inner s)\<lparr>pending := 0\<rparr>\<rparr>"

lemma block_on_completes:
  assumes "counts_sends K qp due delay" "ud (ss_inner s) = qp" "0 < due (w_net w)"
  shows "\<exists>wc w'. block_on (session_poll K) (s, w) = Some (Inr wc, idle s, w') \<and> due (w_net w) = Suc (due (w_net w'))"
  using assms(3)
proof (induction "delay (w_net w)" arbitrary: w rule: less_induct)
  case less
  show ?case
  proof (cases rule: session_poll_cases [of K s w, case_names err wait ready])
    case (err e w')
    then show ?thesis
      using counts_poll(1) [OF assms(1)] assms(2) by simp
  next
    case (wait w')
    then have d: "due (w_net w') = due (w_net w)" "delay (w_net w') < delay (w_net w)"
      using counts_poll(2,3) [OF assms(1), of w w'] assms(2) less.prems by simp_all
    from less.hyps [of w', unfolded d(1), OF d(2) less.prems] wait(2) show ?thesis
      by (subst block_on.simps) simp
  next
    case (ready wc wcs w')
    then show ?thesis
      using counts_poll(4) [OF assms(1)] assms(2) by (subst block_on.simps) (simp add: idle_def)
  qed
qed

definition hook_qp :: "('n, 'c, 'qp, 'mr, 'ep) RPCHook \<Rightarrow> 'qp" where
  "hook_qp h = ud (r_inner (transport h))"

definition session_ok ::
  "('n, 'c, 'qp, 'mr, 'ep, 'e) ud_kit \<Rightarrow> 'qp \<Rightarrow> nat \<Rightarrow> ('qp, 'ep) UDSession \<times> 'mr UDMsg \<Rightarrow> bool" where
  "session_ok K qp n = (\<lambda>(s, buf). ud (ss_inner s) = qp \<and> get_pending_reqs s \<le> n
     \<and> msg_bytes buf = from_raw (unat (mr_virt K (msg_inner buf))) RECV_MTU)"

definition hook_ok ::
  "('n, 'c, 'qp, 'mr, 'ep, 'e) ud_kit \<Rightarrow> ('n, 'c, 'qp, 'mr, 'ep) RPCHook \<Rightarrow> bool" where
  "hook_ok K h \<longleftrightarrow> ud (session_factory h) = hook_qp h \<and> pending (session_factory h) = 0 \<and> analysis_ok (analysis h)
     \<and> (\<forall>i x. connected_sessions h i = Some x \<longrightarrow> session_ok K (hook_qp h) 4 x)"

text \<open>The sessions with requests pending; each accounts for one completion due.\<close>

definition busy :: "(u64 \<Rightarrow> (('qp, 'ep) UDSession \<times> 'mr UDMsg) option) \<Rightarrow> u64 set" where
  "busy tab = {i. \<exists>s buf. tab i = Some (s, buf) \<and> 0 < get_pending_reqs s}"

lemma busy_put:
  "busy (tab(i \<mapsto> (s, buf))) = (if 0 < get_pending_reqs s then insert i (busy tab) else busy tab - {i})"
  by (auto simp: busy_def)

lemma card_busy_put:
  "card (busy (tab(i \<mapsto> (s, buf)))) + of_bool (i \<in> busy tab) = card (busy tab) + of_bool (0 < get_pending_reqs s)"
proof -
  have fin: "finite (busy tab)"
    by (rule finite_subset [OF subset_UNIV]) simp
  then have "card (busy tab - {i}) + of_bool (i \<in> busy tab) = card (busy tab)"
    by (cases "i \<in> busy tab") (simp_all add: card_Suc_Diff1 del: card_Diff_insert)
  with fin show ?thesis
    by (auto simp: busy_put insert_absorb)
qed

lemma session_post_total:
  assumes "get_pending_reqs s + 1 < 2 ^ 64"
  obtains r s' w' where "session_post K req n sg (s, w) = Some (r, s', w')"
proof -
  obtain p w1 where "post_datagram K (ud (ss_inner s)) (ss_meta s) (msg_inner req) (0, of_nat n) (mr_virt K (msg_inner req)) sg w = (p, w1)"
    by fastforce
  with assms that show ?thesis
    by (cases p) (simp_all add: session_post_def ud_post_def ud_payload_new_def get_pending_reqs_def)
qed

text \<open>One send of a throttled session: the count of due completions stays that of the busy sessions.\<close>

lemma throttled_send:
  fixes tab :: "u64 \<Rightarrow> (('qp, 'ep) UDSession \<times> 'mr UDMsg) option"
  assumes "counts_sends K qp due delay" "tab i = Some (s, buf)" "session_ok K qp n (s, buf)"
    and "due (w_net w) = card (busy tab)" "n + 1 < 2 ^ 64"
  shows "\<exists>r s1 w1. session_post K buf k (get_pending_reqs s = 0) (s, w) = Some (r, s1, w1)
    \<and> ud (ss_inner s1) = qp \<and> ss_meta s1 = ss_meta s \<and> get_pending_reqs s1 \<le> n + 1
    \<and> due (w_net w1) = card (busy (tab(i \<mapsto> (s1, buf))))"
proof -
  have s: "ud (ss_inner s) = qp" "get_pending_reqs s \<le> n"
    using assms(3) by (simp_all add: session_ok_def)
  obtain r s1 w1 where post: "session_post K buf k (get_pending_reqs s = 0) (s, w) = Some (r, s1, w1)"
    using session_post_total [of s K buf k "get_pending_reqs s = 0" w] s(2) assms(5) by fastforce
  have i: "i \<in> busy tab \<longleftrightarrow> 0 < get_pending_reqs s"
    using assms(2) by (simp add: busy_def)
  have peer: "ud (ss_inner s1) = qp" "ss_meta s1 = ss_meta s"
    and pend: "get_pending_reqs s1 = get_pending_reqs s + (case r of Inl _ \<Rightarrow> 0 | Inr _ \<Rightarrow> 1)"
    using uds.post_pend [OF post] s(1) by auto
  have "due (w_net w1) = due (w_net w) + (case r of Inl _ \<Rightarrow> 0 | Inr _ \<Rightarrow> of_bool (get_pending_reqs s = 0))"
    using post
  proof (cases rule: session_post_cases)
    case (1 e)
    then show ?thesis
      using counts_post [OF assms(1)] s(1) by simp
  next
    case 2
    then show ?thesis
      using counts_post [OF assms(1)] s(1) by fastforce
  qed
  with card_busy_put [of tab i s1 buf] i assms(4) pend
  have "due (w_net w1) = card (busy (tab(i \<mapsto> (s1, buf))))"
    by (cases r) (auto simp: of_bool_def split: if_splits)
  with post peer pend s(2) show ?thesis
    by (cases r) auto
qed

lemma throttled_block:
  fixes tab :: "u64 \<Rightarrow> (('qp, 'ep) UDSession \<times> 'mr UDMsg) option"
  assumes "counts_sends K qp due delay" "ud (ss_inner s) = qp" "0 < get_pending_reqs s"
    and "due (w_net w) = card (busy (tab(i \<mapsto> (s, buf))))"
  shows "\<exists>wc w'. block_on (session_poll K) (s, w) = Some (Inr wc, idle s, w')
    \<and> due (w_net w') = card (busy (tab(i \<mapsto> (idle s, buf))))"
proof -
  let ?t = "tab(i \<mapsto> (s, buf))"
  have i: "i \<in> busy ?t"
    using assms(3) by (simp add: busy_def)
  have "finite (busy ?t)"
    by (rule finite_subset [OF subset_UNIV]) simp
  with i have "0 < card (busy ?t)"
    by (auto simp: card_gt_0_iff)
  with block_on_completes [OF assms(1,2), of w] assms(4) obtain wc w' where
    b: "block_on (session_poll K) (s, w) = Some (Inr wc, idle s, w')" "due (w_net w) = Suc (due (w_net w'))"
    by auto
  have "get_pending_reqs (idle s) = 0"
    by (simp add: idle_def get_pending_reqs_def)
  with card_busy_put [of ?t i "idle s" buf] i b assms(4) show ?thesis
    by simp
qed

lemma hook_ok_session: "hook_ok K h \<Longrightarrow> connected_sessions h i = Some x \<Longrightarrow> session_ok K (hook_qp h) 4 x"
  unfolding hook_ok_def by blast

lemma put_session_simps [simp]:
  "connected_sessions (put_session i s buf h) = (connected_sessions h)(i \<mapsto> (s, buf))"
  "hook_qp (put_session i s buf h) = hook_qp h" "transport (put_session i s buf h) = transport h"
  "analysis (put_session i s buf h) = analysis h" "service (put_session i s buf h) = service h"
  "session_factory (put_session i s buf h) = session_factory h" "meta_factory (put_session i s buf h) = meta_factory h"
  by (simp_all add: put_session_def hook_qp_def)

lemma hook_ok_put:
  "hook_ok K h \<Longrightarrow> session_ok K (hook_qp h) 4 (s, buf) \<Longrightarrow> hook_ok K (put_session i s buf h)"
  by (simp add: hook_ok_def)

text \<open>The state between the calls of a server.\<close>

definition server_ok ::
  "('n, 'c, 'qp, 'mr, 'ep, 'e) ud_kit \<Rightarrow> ('n \<Rightarrow> nat) \<Rightarrow> ('n, 'c, 'qp, 'mr, 'ep) RPCHook \<times> 'n world \<Rightarrow> bool" where
  "server_ok K due = (\<lambda>(h, w). hook_ok K h \<and> due (w_net w) = card (busy (connected_sessions h)))"

lemma send_reply_runs:
  assumes "counts_sends K (hook_qp h) due delay" "server_ok K due (h, w)"
    and "size_of H \<le> RECV_MTU" "rsf_payload reply + size_of H < 2 ^ 64"
    and "connected_sessions h i = Some (s, buf)"
  shows "\<exists>r s1 w1 s2 w2. send_reply K H i reply (h, w) = Some (map_sum (\<lambda>_. HookFatal) id r, put_session i s2 buf h, w2)
    \<and> session_post K buf (rsf_payload reply + size_of H) (get_pending_reqs s = 0)
        (s, w\<lparr>w_mem := mem_write (w_mem w) (bm_ptr (msg_bytes buf))
           (to_raw H (gen_reply_stub (rsf_status reply) (of_nat (rsf_payload reply))))\<rparr>) = Some (r, s1, w1)
    \<and> (w2 = w1 \<or> (\<exists>wc. block_on (session_poll K) (s1, w1) = Some (Inr wc, s2, w2)))
    \<and> ud (ss_inner s1) = hook_qp h \<and> server_ok K due (put_session i s2 buf h, w2)"
proof -
  have ok: "hook_ok K h" "session_ok K (hook_qp h) 4 (s, buf)" "due (w_net w) = card (busy (connected_sessions h))"
    using assms(2) hook_ok_session [OF _ assms(5)] by (auto simp: server_ok_def)
  then have buf: "bm_len (msg_bytes buf) = RECV_MTU"
    by (simp add: session_ok_def from_raw_def)
  define m where "m = mem_write (w_mem w) (bm_ptr (msg_bytes buf)) (to_raw H (gen_reply_stub (rsf_status reply) (of_nat (rsf_payload reply))))"
  have gen: "reply_generate H reply (w_mem w) (msg_bytes buf) = (m, Some (size_of H))"
    using reply_generate_writes [of H "msg_bytes buf"] assms(3) buf by (simp add: m_def)
  obtain r s1 w1 where p: "session_post K buf (rsf_payload reply + size_of H) (get_pending_reqs s = 0) (s, w\<lparr>w_mem := m\<rparr>) = Some (r, s1, w1)"
    and s1: "ud (ss_inner s1) = hook_qp h" "get_pending_reqs s1 \<le> 5"
    and due1: "due (w_net w1) = card (busy ((connected_sessions h)(i \<mapsto> (s1, buf))))"
    using throttled_send [where tab = "connected_sessions h" and w = "w\<lparr>w_mem := m\<rparr>" and k = "rsf_payload reply + size_of H",
        OF assms(1,5) ok(2)] ok(3) by auto
  show ?thesis
  proof (cases "4 < get_pending_reqs s1")
    case True
    obtain wc w2 where b: "block_on (session_poll K) (s1, w1) = Some (Inr wc, idle s1, w2)"
      "due (w_net w2) = card (busy ((connected_sessions h)(i \<mapsto> (idle s1, buf))))"
      using throttled_block [where tab = "connected_sessions h", OF assms(1) s1(1) _ due1] True by auto
    have "session_ok K (hook_qp h) 4 (idle s1, buf)" "get_pending_reqs (idle s1) = 0"
      using ok(2) s1(1) by (simp_all add: session_ok_def idle_def get_pending_reqs_def)
    then have "server_ok K due (put_session i (idle s1) buf h, w2)"
      using hook_ok_put [OF ok(1)] b(2) by (simp add: server_ok_def)
    moreover have "send_reply K H i reply (h, w) = Some (map_sum (\<lambda>_. HookFatal) id r, put_session i (idle s1) buf h, w2)"
      using assms(4,5) gen p True b(1) \<open>get_pending_reqs (idle s1) = 0\<close> by (simp add: send_reply_def)
    ultimately show ?thesis
      using p b(1) s1(1) unfolding m_def by blast
  next
    case False
    then have "session_ok K (hook_qp h) 4 (s1, buf)"
      using ok(2) s1(1) by (simp add: session_ok_def)
    then have "server_ok K due (put_session i s1 buf h, w1)"
      using hook_ok_put [OF ok(1)] due1 by (simp add: server_ok_def)
    moreover have "send_reply K H i reply (h, w) = Some (map_sum (\<lambda>_. HookFatal) id r, put_session i s1 buf h, w1)"
      using assms(4,5) gen p False by (simp add: send_reply_def)
    ultimately show ?thesis
      using p s1(1) unfolding m_def by blast
  qed
qed

text \<open>
  Receiving, allocating, resolving an address and running a callback leave the sends alone; a callback
  given \<open>room\<close> bytes for its reply returns, with a reply that fits, and memory for session buffers is there.
\<close>

definition quiet_recv :: "('n, 'c, 'qp, 'mr, 'ep, 'e) ud_kit \<Rightarrow> 'qp \<Rightarrow> ('n \<Rightarrow> 'd) \<Rightarrow> bool" where
  "quiet_recv K qp obs \<longleftrightarrow>
     (\<forall>mr r pa w x w'. post_recv K qp mr r pa w = (x, w') \<longrightarrow> obs (w_net w') = obs (w_net w))
   \<and> (\<forall>w x w'. poll_recv_cq K qp w = (x, w') \<longrightarrow> obs (w_net w') = obs (w_net w))
   \<and> (\<forall>ctx sz w. \<exists>mr w'. mr_new K ctx sz w = Some (mr, w') \<and> obs (w_net w') = obs (w_net w))"

definition quiet_meta :: "('c \<Rightarrow> UDHyperMeta \<Rightarrow> 'n world \<Rightarrow> ('me + 'ep) \<times> 'n world) \<Rightarrow> ('n \<Rightarrow> 'd) \<Rightarrow> bool" where
  "quiet_meta MF obs \<longleftrightarrow> (\<forall>c hm w. obs (w_net (snd (MF c hm w))) = obs (w_net w))"

definition tame_callbacks :: "'n world Service \<Rightarrow> nat \<Rightarrow> ('n \<Rightarrow> 'd) \<Rightarrow> bool" where
  "tame_callbacks sv room obs \<longleftrightarrow>
     (\<forall>i cb inp out w. callbacks sv i = Some cb \<and> bm_len out = room \<longrightarrow>
        (\<exists>n w'. cb inp out w = Some (n, w') \<and> n \<le> room \<and> obs (w_net w') = obs (w_net w)))"

lemma quiet_post_recv:
  assumes "quiet_recv K qp obs" "ud (r_inner t) = qp" "post_recv_buf K buf (t, w) = (r, t', w')"
  shows "obs (w_net w') = obs (w_net w) \<and> r_inner t' = r_inner t"
  using assms by (auto simp: quiet_recv_def post_recv_buf_def split: prod.splits sum.splits)

lemma quiet_receiver_poll:
  assumes "quiet_recv K qp obs" "ud (r_inner t) = qp" "receiver_poll K (t, w) = Some (r, t', w')"
  shows "obs (w_net w') = obs (w_net w) \<and> r_inner t' = r_inner t"
  using assms by (auto simp: quiet_recv_def receiver_poll_def split: prod.splits sum.splits list.splits)

lemma quiet_udmsg_new:
  assumes "quiet_recv K qp obs"
  shows "\<exists>buf w'. udmsg_new K n imm ctx w = Some (buf, w') \<and> obs (w_net w') = obs (w_net w)
    \<and> msg_bytes buf = from_raw (unat (mr_virt K (msg_inner buf))) n"
proof -
  obtain mr w' where "mr_new K ctx n w = Some (mr, w')" "obs (w_net w') = obs (w_net w)"
    using assms unfolding quiet_recv_def by blast
  then show ?thesis
    by (simp add: udmsg_new_def)
qed

text \<open>What the handling of one message keeps.\<close>

definition handled ::
  "('n, 'c, 'qp, 'mr, 'ep, 'e) ud_kit \<Rightarrow> ('n \<Rightarrow> nat) \<Rightarrow> ('n, 'c, 'qp, 'mr, 'ep) RPCHook \<Rightarrow>
    ('r \<times> ('n, 'c, 'qp, 'mr, 'ep) RPCHook \<times> 'n world) option \<Rightarrow> bool" where
  "handled K due h res \<longleftrightarrow>
     (\<exists>r h' w'. res = Some (r, h', w') \<and> server_ok K due (h', w') \<and> hook_qp h' = hook_qp h \<and> service h' = service h)"

lemma handledI: "res = Some (r, h', w') \<Longrightarrow> server_ok K due (h', w') \<Longrightarrow> hook_qp h' = hook_qp h \<Longrightarrow> service h' = service h \<Longrightarrow> handled K due h res"
  by (auto simp: handled_def)

lemma send_reply_handled:
  assumes "counts_sends K (hook_qp h) due delay" "server_ok K due (h, w)"
    and "size_of H \<le> RECV_MTU" "rsf_payload reply + size_of H < 2 ^ 64"
  shows "handled K due h (send_reply K H i reply (h, w))"
proof (cases "connected_sessions h i")
  case None
  then show ?thesis
    using assms(2) by (intro handledI) (auto simp: send_reply_def)
next
  case (Some x)
  then obtain s buf where "connected_sessions h i = Some (s, buf)"
    by (cases x) auto
  from send_reply_runs [OF assms this] obtain r s2 w2 where
    e: "send_reply K H i reply (h, w) = Some (r, put_session i s2 buf h, w2)" "server_ok K due (put_session i s2 buf h, w2)"
    by blast
  show ?thesis
    by (rule handledI [OF e]) simp_all
qed

lemma connect_handled:
  assumes "counts_sends K (hook_qp h) due delay" "server_ok K due (h, w)" "size_of H \<le> RECV_MTU"
    and "quiet_recv K (hook_qp h) due" "quiet_meta MF due"
  shows "handled K due h (hook_connect K H L MF i args (h, w))"
proof (cases "connected_sessions h i = None")
  case False
  then show ?thesis
    using assms(2) by (intro handledI) (auto simp: hook_connect_def)
next
  case fresh: True
  obtain sm d where sm: "memcpy_deserialize L (w_mem w) args hyper_meta_default = (sm, d)"
    by fastforce
  obtain p w1 where p: "MF (meta_factory h) sm w = (p, w1)"
    by fastforce
  have due1: "due (w_net w1) = due (w_net w)"
    using assms(5) p by (metis quiet_meta_def snd_conv)
  consider (bad) "d = None" | (refused) k e where "d = Some k" "p = Inl e" | (made) k ep where "d = Some k" "p = Inr ep"
    by (metis option.exhaust sum.exhaust)
  then show ?thesis
  proof cases
    case bad
    then show ?thesis
      using assms(2) fresh sm by (intro handledI) (simp_all add: hook_connect_def)
  next
    case refused
    then show ?thesis
      using assms(2) fresh sm p due1 by (intro handledI [where w' = w1 and h' = h]) (simp_all add: hook_connect_def server_ok_def)
  next
    case made
    obtain buf w2 where buf: "udmsg_new K RECV_MTU 0 (receiver_context K (transport h)) w1 = Some (buf, w2)"
      "due (w_net w2) = due (w_net w1)" "msg_bytes buf = from_raw (unat (mr_virt K (msg_inner buf))) RECV_MTU"
      using quiet_udmsg_new [OF assms(4)] by blast
    define s where "s = session_create (session_factory h) ep"
    have ok: "hook_ok K h"
      using assms(2) by (simp add: server_ok_def)
    then have s: "ud (ss_inner s) = hook_qp h" "get_pending_reqs s = 0"
      by (simp_all add: s_def session_create_def ud_clone_def hook_ok_def get_pending_reqs_def)
    have "i \<notin> busy (connected_sessions h)"
      using fresh by (simp add: busy_def)
    with card_busy_put [of "connected_sessions h" i s buf] s(2)
    have "card (busy ((connected_sessions h)(i \<mapsto> (s, buf)))) = card (busy (connected_sessions h))"
      by simp
    then have "server_ok K due (put_session i s buf h, w2)"
      using assms(2) hook_ok_put [OF ok, of s buf i] s buf due1 by (simp add: server_ok_def session_ok_def)
    with send_reply_handled [of K "put_session i s buf h" due delay w2 H "reply_factory_new ReplyOk 0" i] assms(1,3)
    have "handled K due h (send_reply K H i (reply_factory_new ReplyOk 0) (put_session i s buf h, w2))"
      by (simp add: handled_def reply_factory_new_def RECV_MTU_def)
    then show ?thesis
      using fresh sm p made buf(1) by (simp add: hook_connect_def s_def)
  qed
qed

lemma request_handled:
  assumes "counts_sends K (hook_qp h) due delay" "server_ok K due (h, w)" "size_of H \<le> RECV_MTU"
    and "tame_callbacks (service h) (RECV_MTU - size_of H) due" "ncalls (analysis h) + 1 < 2 ^ 64"
  shows "handled K due h (hook_request K H stub args (h, w))"
proof (cases "connected_sessions h (call_session_id stub)")
  case None
  then show ?thesis
    using assms(2) by (intro handledI) (auto simp: hook_request_def)
next
  case (Some x)
  obtain s buf where x: "connected_sessions h (call_session_id stub) = Some (s, buf)"
    using Some by (cases x) auto
  have ok: "hook_ok K h" "bm_len (msg_bytes buf) = RECV_MTU"
    using assms(2) hook_ok_session [OF _ x, of K] by (auto simp: server_ok_def session_ok_def from_raw_def)
  define out where "out = \<lparr>bm_ptr = bm_ptr (msg_bytes buf) + size_of H, bm_len = RECV_MTU - size_of H\<rparr>"
  have out: "truncate_header (msg_bytes buf) (size_of H) = Some out"
    using ok(2) assms(3) by (simp add: truncate_header_def out_def)
  obtain rp w1 where ex: "service_execute (call_rpc_id stub) args out (service h) w = Some (rp, w1)"
    "due (w_net w1) = due (w_net w)" "\<And>n. rp = Some n \<Longrightarrow> n + size_of H \<le> RECV_MTU"
  proof (cases "callbacks (service h) (call_rpc_id stub)")
    case None
    then show ?thesis
      by (intro that [of None w]) (simp_all add: service_execute_def)
  next
    case (Some cb)
    have "bm_len out = RECV_MTU - size_of H"
      by (simp add: out_def)
    with Some obtain n w' where "cb args out w = Some (n, w')" "n \<le> RECV_MTU - size_of H" "due (w_net w') = due (w_net w)"
      using assms(4) unfolding tame_callbacks_def by blast
    then show ?thesis
      using assms(3) Some by (intro that [of "Some n" w']) (auto simp: service_execute_def out_def)
  qed
  obtain a where a: "handle_one (analysis h) = Some a"
    using assms(5) by (simp add: handle_one_def)
  obtain a' where a': "handle_session_call (call_session_id stub) a = Some a'" "analysis_ok a'"
    using handle_session_fits [OF _ a, of "call_session_id stub"] count_call_ok [OF _ a] ok(1)
    unfolding hook_ok_def by blast
  let ?h = "h\<lparr>analysis := a'\<rparr>"
  let ?r = "case rp of Some sz \<Rightarrow> reply_factory_new ReplyOk sz | None \<Rightarrow> reply_factory_new NotExist 0"
  have "server_ok K due (?h, w1)"
    using assms(2) a'(2) ex(2) by (simp add: server_ok_def hook_ok_def hook_qp_def)
  moreover have "rsf_payload ?r + size_of H < 2 ^ 64"
    using ex(3) assms(3) by (cases rp) (simp_all add: reply_factory_new_def RECV_MTU_def)
  ultimately have "handled K due ?h (send_reply K H (call_session_id stub) ?r (?h, w1))"
    using assms(1,3) by (intro send_reply_handled [where delay = delay]) (simp_all add: hook_qp_def)
  then show ?thesis
    using x out ex(1) a a'(1) by (simp add: hook_request_def handled_def hook_qp_def)
qed

end
