(* ===== verification/Rpc_Calls.thy ===== *)
theory Rpc_Calls
  imports Rpc
begin

text \<open>
  What a remote procedure call achieves, on top of the definitions of \<open>Rpc\<close>: a server that polls never
  gets stuck in its flow control, a request reaches its callback with the bytes of the caller and the
  reply carries the bytes the callback wrote, and the client gets them. The last section has a small
  network of datagrams on which the hypotheses on the device hold.
\<close>

section \<open>One poll of the server\<close>

definition hook_received ::
  "('n, 'c, 'qp, 'mr, 'ep, 'e) ud_kit \<Rightarrow> MsgHeader layout \<Rightarrow> ('n, 'c, 'qp, 'mr, 'ep) RPCHook \<times> 'n world \<Rightarrow>
    (MsgHeader \<times> BytesMut) option" where
  "hook_received K H = (\<lambda>(h, w).
     case receiver_poll K (transport h, w) of
       Some (Inr (Ready msg), t, w) \<Rightarrow> truncate_header (bytes_clone (msg_bytes msg)) RECV_HEADER \<bind> parse_msg H (w_mem w)
     | _ \<Rightarrow> None)"

lemma handled_receive:
  assumes "server_ok K due (h, w)" "quiet_recv K (hook_qp h) due" "receiver_poll K (transport h, w) = Some (p, t, w1)"
  shows "server_ok K due (h\<lparr>transport := t\<rparr>, w1) \<and> hook_qp (h\<lparr>transport := t\<rparr>) = hook_qp h"
  using assms(1) quiet_receiver_poll [OF assms(2) _ assms(3)]
  by (simp add: server_ok_def hook_ok_def hook_qp_def)

lemma dispatch_handled:
  assumes "counts_sends K (hook_qp h) due delay" "server_ok K due (h, w)" "size_of H \<le> RECV_MTU"
    and "quiet_recv K (hook_qp h) due" "quiet_meta MF due" "tame_callbacks (service h) (RECV_MTU - size_of H) due"
    and "ncalls (analysis h) + 1 < 2 ^ 64" "marker hdr \<noteq> DisConnect"
  shows "handled K due h (hook_dispatch K H L MF hdr args (h, w))"
proof -
  have same: "handled K due h (Some (r, h, w))" for r
    using assms(2) by (intro handledI) simp_all
  note conn = connect_handled [OF assms(1-5), of L _ args]
  note req = request_handled [OF assms(1-3,6,7), of _ args]
  show ?thesis
    using assms(8) by (cases "marker hdr") (simp_all add: hook_dispatch_def same conn req split: option.splits)
qed

lemma repost_ok:
  assumes "server_ok K due (h, w)" "quiet_recv K (hook_qp h) due" "post_recv_buf K msg (transport h, w) = (r, t, w1)"
  shows "server_ok K due (h\<lparr>transport := t\<rparr>, w1) \<and> hook_qp (h\<lparr>transport := t\<rparr>) = hook_qp h"
  using assms(1) quiet_post_recv [OF assms(2) _ assms(3)]
  by (simp add: server_ok_def hook_ok_def hook_qp_def)

lemma hook_poll_ready:
  assumes "receiver_poll K (transport h, w) = Some (Inr (Ready msg), t, w1)"
    and "hook_received K H (h, w) = Some (hdr, args)"
    and "hook_dispatch K H L MF hdr args (h\<lparr>transport := t\<rparr>, w1) = Some (r, h2, w2)"
  shows "hook_poll K H L MF (h, w) =
    (case r of
       Inl e \<Rightarrow> Some (Inl e, h2, w2)
     | Inr _ \<Rightarrow>
         (let (r, t, w) = post_recv_buf K msg (transport h2, w2)
          in Some (case r of Inl e \<Rightarrow> Inl (HookInner e) | Inr _ \<Rightarrow> Inr (Ready ()), h2\<lparr>transport := t\<rparr>, w)))"
  using assms by (simp add: hook_poll_def hook_received_def)

lemma hook_poll_handled:
  assumes "counts_sends K (hook_qp h) due delay" "server_ok K due (h, w)" "size_of H \<le> RECV_MTU"
    and "quiet_recv K (hook_qp h) due" "quiet_meta MF due" "tame_callbacks (service h) (RECV_MTU - size_of H) due"
    and "ncalls (analysis h) + 1 < 2 ^ 64"
    and "receiver_poll K (transport h, w) \<noteq> None"
    and "\<And>hdr args. hook_received K H (h, w) = Some (hdr, args) \<Longrightarrow> marker hdr \<noteq> DisConnect"
  shows "handled K due h (hook_poll K H L MF (h, w))"
proof -
  obtain p t w1 where p: "receiver_poll K (transport h, w) = Some (p, t, w1)"
    using assms(8) by (metis not_None_eq prod_cases3)
  let ?h = "h\<lparr>transport := t\<rparr>"
  have ok: "server_ok K due (?h, w1)" "hook_qp ?h = hook_qp h"
    using handled_receive [OF assms(2,4) p] by simp_all
  have same: "handled K due h (Some (r, ?h, w1))" for r
    by (rule handledI [OF refl ok(1)]) (simp_all add: ok(2))
  consider (err) e where "p = Inl e" | (wait) "p = Inr NotReady" | (msg) msg where "p = Inr (Ready msg)"
    by (metis Async.exhaust sum.exhaust)
  then show ?thesis
  proof cases
    case (msg msg)
    note p = p [unfolded msg]
    show ?thesis
    proof (cases "hook_received K H (h, w)")
      case None
      then show ?thesis
        using p same by (simp add: hook_poll_def hook_received_def)
    next
      case (Some x)
      then obtain hdr args where x: "hook_received K H (h, w) = Some (hdr, args)"
        by (cases x) auto
      have "handled K due ?h (hook_dispatch K H L MF hdr args (?h, w1))"
        using assms(1,3-7) assms(9) [OF x] ok by (intro dispatch_handled [where delay = delay]) simp_all
      then obtain r h2 w2 where d: "hook_dispatch K H L MF hdr args (?h, w1) = Some (r, h2, w2)"
        "server_ok K due (h2, w2)" "hook_qp h2 = hook_qp h" "service h2 = service h"
        using ok(2) unfolding handled_def by auto
      obtain q t2 w3 where q: "post_recv_buf K msg (transport h2, w2) = (q, t2, w3)"
        by (metis prod_cases3)
      have "server_ok K due (h2\<lparr>transport := t2\<rparr>, w3) \<and> hook_qp (h2\<lparr>transport := t2\<rparr>) = hook_qp h2"
        using repost_ok [OF d(2) _ q] assms(4) d(3) by simp
      then show ?thesis
        using hook_poll_ready [OF p x d(1)] q d by (cases r) (auto simp: handled_def)
    qed
  qed (use p same in \<open>simp_all add: hook_poll_def\<close>)
qed

section \<open>What is sent\<close>

text \<open>
  A queue pair in working order: nothing is refused, and every datagram posted is sent to its endpoint
  with the bytes the memory has at that moment.
\<close>

definition sends_bytes ::
  "('n, 'c, 'qp, 'mr, 'ep, 'e) ud_kit \<Rightarrow> 'qp \<Rightarrow> ('n \<Rightarrow> ('ep \<times> u8 list) list) \<Rightarrow> bool" where
  "sends_bytes K qp sent \<longleftrightarrow>
     (\<forall>ep mr n sg w. \<exists>w'. post_datagram K qp ep mr (0, n) (mr_virt K mr) sg w = (Inr (), w')
        \<and> sent (w_net w') = sent (w_net w) @ [(ep, mem_read (w_mem w) (unat (mr_virt K mr)) (unat n))])
   \<and> (\<forall>w x w'. poll_ud_send K qp w = (x, w') \<longrightarrow> sent (w_net w') = sent (w_net w))
   \<and> (\<forall>mr r pa w. \<exists>w'. post_recv K qp mr r pa w = (Inr (), w') \<and> sent (w_net w') = sent (w_net w))"

lemma session_post_sends:
  assumes "sends_bytes K qp sent" "ud (ss_inner s) = qp" "session_post K buf n sg (s, w) = Some (r, s1, w1)"
    and "n < 2 ^ 64"
  shows "r = Inr () \<and> sent (w_net w1) = sent (w_net w) @ [(ss_meta s, mem_read (w_mem w) (unat (mr_virt K (msg_inner buf))) n)]"
proof -
  obtain w' where w': "post_datagram K qp (ss_meta s) (msg_inner buf) (0, of_nat n) (mr_virt K (msg_inner buf)) sg w = (Inr (), w')"
    "sent (w_net w') = sent (w_net w) @ [(ss_meta s, mem_read (w_mem w) (unat (mr_virt K (msg_inner buf))) (unat (of_nat n :: u64)))]"
    using assms(1) unfolding sends_bytes_def by blast
  have "unat (of_nat n :: u64) = n"
    using assms(4) by (simp add: unat_of_nat)
  with w' assms(2) show ?thesis
    by (cases rule: session_post_cases [OF assms(3)]) auto
qed

lemma block_on_quiet:
  assumes quiet: "\<And>w x w'. poll_ud_send K qp w = (x, w') \<Longrightarrow> obs (w_net w') = obs (w_net w)"
    and "ud (ss_inner s) = qp" "block_on (session_poll K) (s, w) = Some (r, s', w')"
  shows "obs (w_net w') = obs (w_net w)"
proof -
  have poll: "obs (w_net v') = obs (w_net v)" if "session_poll K (s, v) = (x, s1, v')" for x v v' s1
  proof (cases rule: session_poll_cases [of K s v])
    case (1 e v1)
    then show ?thesis
      using that assms(2) quiet [of v "Inl e" v1] by simp
  next
    case (2 v1)
    then show ?thesis
      using that assms(2) quiet [of v "Inr []" v1] by simp
  next
    case (3 wc wcs v1)
    then show ?thesis
      using that assms(2) quiet [of v "Inr (wc # wcs)" v1] by simp
  qed
  have wait: "s1 = s" if "session_poll K (s, v) = (Inr NotReady, s1, v')" for v v' s1
    using that by (cases rule: session_poll_cases [of K s v]) simp_all
  from block_on_invariant [where I = "\<lambda>(t, v). t = s \<and> obs (w_net v) = obs (w_net w)", OF assms(3)] poll wait
  obtain v where "obs (w_net v) = obs (w_net w)" "(s', w') = snd (session_poll K (s, v))"
    by (auto split: prod.splits)
  then show ?thesis
    using poll [of v] by (metis prod.collapse)
qed

lemma block_on_sent:
  assumes "sends_bytes K qp sent" "ud (ss_inner s) = qp" "block_on (session_poll K) (s, w) = Some (r, s', w')"
  shows "sent (w_net w') = sent (w_net w)"
proof (rule block_on_quiet [OF _ assms(2,3)])
  show "sent (w_net w') = sent (w_net w)" if "poll_ud_send K qp w = (x, w')" for w x w'
    using assms(1) that unfolding sends_bytes_def by blast
qed

lemma message_bytes:
  assumes "wf_layout H"
  shows "mem_read (mem_write m p (to_raw H h)) p (n + size_of H) = wire H h (mem_read m (p + size_of H) n)"
  using assms
  by (simp add: mem_read_append [of _ p "size_of H" n, unfolded add.commute [of "size_of H" n]] wire_def mem_simps layout_simps)

lemma send_reply_sends:
  assumes "counts_sends K (hook_qp h) due delay" "sends_bytes K (hook_qp h) sent" "server_ok K due (h, w)"
    and "wf_layout H" "size_of H \<le> RECV_MTU" "n + size_of H < 2 ^ 64"
    and "connected_sessions h i = Some (s, buf)"
  shows "\<exists>s2 w2. send_reply K H i (reply_factory_new st n) (h, w) = Some (Inr (), put_session i s2 buf h, w2)
    \<and> sent (w_net w2) = sent (w_net w)
        @ [(ss_meta s, wire H (gen_reply_stub st (of_nat n)) (mem_read (w_mem w) (bm_ptr (msg_bytes buf) + size_of H) n))]"
proof -
  let ?m = "mem_write (w_mem w) (bm_ptr (msg_bytes buf)) (to_raw H (gen_reply_stub st (of_nat n)))"
  have s: "ud (ss_inner s) = hook_qp h" "bm_ptr (msg_bytes buf) = unat (mr_virt K (msg_inner buf))"
    using assms(3) hook_ok_session [OF _ assms(7), of K] by (auto simp: server_ok_def session_ok_def from_raw_def)
  obtain r s1 w1 s2 w2 where
    run: "send_reply K H i (reply_factory_new st n) (h, w) = Some (map_sum (\<lambda>_. HookFatal) id r, put_session i s2 buf h, w2)"
    and post: "session_post K buf (n + size_of H) (get_pending_reqs s = 0) (s, w\<lparr>w_mem := ?m\<rparr>) = Some (r, s1, w1)"
    and fin: "w2 = w1 \<or> (\<exists>wc. block_on (session_poll K) (s1, w1) = Some (Inr wc, s2, w2))" "ud (ss_inner s1) = hook_qp h"
    using send_reply_runs [OF assms(1,3,5) _ assms(7), of "reply_factory_new st n"] assms(6)
    by (auto simp: reply_factory_new_def)
  have "r = Inr ()" "sent (w_net w1) = sent (w_net w) @ [(ss_meta s, mem_read ?m (bm_ptr (msg_bytes buf)) (n + size_of H))]"
    using session_post_sends [OF assms(2) s(1) post assms(6)] s(2) by simp_all
  moreover have "sent (w_net w2) = sent (w_net w1)"
    using fin block_on_sent [OF assms(2)] by auto
  ultimately show ?thesis
    using run by (intro exI [of _ s2] exI [of _ w2]) (simp add: message_bytes [OF assms(4)])
qed

text \<open>A message that has arrived in a receive buffer, behind the global routing header.\<close>

definition arrived :: "MsgHeader layout \<Rightarrow> mem \<Rightarrow> 'mr UDMsg \<Rightarrow> MsgHeader \<Rightarrow> u8 list \<Rightarrow> bool" where
  "arrived H m msg hdr body \<longleftrightarrow> mem_has m (bm_ptr (msg_bytes msg) + RECV_HEADER) (wire H hdr body)
     \<and> RECV_HEADER + size_of H + length body \<le> bm_len (msg_bytes msg) \<and> unat (payload hdr) = length body"

definition body_view :: "MsgHeader layout \<Rightarrow> 'mr UDMsg \<Rightarrow> nat \<Rightarrow> BytesMut" where
  "body_view H msg n = \<lparr>bm_ptr = bm_ptr (msg_bytes msg) + RECV_HEADER + size_of H, bm_len = n\<rparr>"

definition reply_view :: "MsgHeader layout \<Rightarrow> 'mr UDMsg \<Rightarrow> BytesMut" where
  "reply_view H buf = \<lparr>bm_ptr = bm_ptr (msg_bytes buf) + size_of H, bm_len = RECV_MTU - size_of H\<rparr>"

lemma arrived_parse:
  assumes "wf_layout H" "arrived H m msg hdr body"
  shows "truncate_header (bytes_clone (msg_bytes msg)) RECV_HEADER \<bind> parse_msg H m = Some (hdr, body_view H msg (length body))"
    and "mem_read m (bm_ptr (body_view H msg (length body))) (length body) = body"
proof -
  let ?b = "\<lparr>bm_ptr = bm_ptr (msg_bytes msg) + RECV_HEADER, bm_len = bm_len (msg_bytes msg) - RECV_HEADER\<rparr>"
  have "parse_msg H m ?b = Some (hdr, body_view H msg (length body))
      \<and> mem_read m (bm_ptr (body_view H msg (length body))) (length body) = body"
    using parse_wire [of H m ?b hdr body] assms by (auto simp: arrived_def body_view_def)
  then show "truncate_header (bytes_clone (msg_bytes msg)) RECV_HEADER \<bind> parse_msg H m = Some (hdr, body_view H msg (length body))"
    "mem_read m (bm_ptr (body_view H msg (length body))) (length body) = body"
    using assms(2) by (simp_all add: truncate_header_def bytes_clone_def arrived_def)
qed

lemma arrived_header:
  assumes "wf_layout H" "arrived H m msg hdr body"
  shows "truncate_header (bytes_clone (msg_bytes msg)) RECV_HEADER =
      Some \<lparr>bm_ptr = bm_ptr (msg_bytes msg) + RECV_HEADER, bm_len = bm_len (msg_bytes msg) - RECV_HEADER\<rparr>"
    and "memcpy_deserialize H m \<lparr>bm_ptr = bm_ptr (msg_bytes msg) + RECV_HEADER, bm_len = bm_len (msg_bytes msg) - RECV_HEADER\<rparr>
      v = (hdr, Some (size_of H))"
proof -
  have "mem_has m (bm_ptr (msg_bytes msg) + RECV_HEADER) (to_raw H hdr)"
    using assms by (simp add: arrived_def wire_def mem_has_append)
  then have "from_raw_bytes H (mem_read m (bm_ptr (msg_bytes msg) + RECV_HEADER) (size_of H)) = hdr"
    using assms(1) by (simp add: wf_layout_pod pod_layout.read_has)
  then show "memcpy_deserialize H m \<lparr>bm_ptr = bm_ptr (msg_bytes msg) + RECV_HEADER, bm_len = bm_len (msg_bytes msg) - RECV_HEADER\<rparr>
      v = (hdr, Some (size_of H))"
    using assms(2) by (auto simp: memcpy_deserialize_def arrived_def)
qed (use assms(2) in \<open>simp add: truncate_header_def bytes_clone_def arrived_def\<close>)

section \<open>Receive buffers\<close>

lemma send_reply_keeps:
  assumes "send_reply K H i reply (h, w) = Some (r, h', w')"
  shows "transport h' = transport h \<and> analysis h' = analysis h"
proof (cases "connected_sessions h i")
  case (Some x)
  then obtain s buf where "connected_sessions h i = Some (s, buf)"
    by (cases x) auto
  then show ?thesis
    using assms by (auto simp: send_reply_def bind_eq_Some_conv split: prod.splits if_splits sum.splits)
      (metis obj_sumE)+
qed (use assms in \<open>simp add: send_reply_def\<close>)

lemma dispatch_keeps:
  assumes "hook_dispatch K H L MF hdr args (h, w) = Some (r, h', w')"
  shows "transport h' = transport h \<and> ncalls (analysis h') \<le> ncalls (analysis h) + 1"
proof -
  let ?P = "transport h' = transport h \<and> ncalls (analysis h') \<le> ncalls (analysis h) + 1"
  have conn: ?P if "hook_connect K H L MF i args (h, w) = Some (r, h', w')" for i
    using that by (auto simp: hook_connect_def bind_eq_Some_conv dest!: send_reply_keeps
        split: if_splits sum.splits option.splits prod.splits)
  have req: ?P if "hook_request K H stub args (h, w) = Some (r, h', w')" for stub
    using that by (auto simp: hook_request_def bind_eq_Some_conv handle_one_def handle_session_call_def
        dest!: send_reply_keeps split: option.splits if_splits)
  show ?thesis
    using assms conn req by (cases "marker hdr") (auto simp: hook_dispatch_def split: option.splits)
qed

lemma hook_poll_ncalls:
  assumes "hook_poll K H L MF (h, w) = Some (r, h', w')"
  shows "ncalls (analysis h') \<le> ncalls (analysis h) + 1"
proof -
  obtain p t w1 where p: "receiver_poll K (transport h, w) = Some (p, t, w1)"
    using assms by (auto simp: hook_poll_def bind_eq_Some_conv)
  consider (err) e where "p = Inl e" | (wait) "p = Inr NotReady" | (bad) msg where "p = Inr (Ready msg)" "hook_received K H (h, w) = None"
    | (msg) msg hdr args where "p = Inr (Ready msg)" "hook_received K H (h, w) = Some (hdr, args)"
    by (metis Async.exhaust not_None_eq sum.exhaust surj_pair)
  then show ?thesis
  proof cases
    case err
    then show ?thesis
      using assms p by (auto simp: hook_poll_def)
  next
    case wait
    then show ?thesis
      using assms p by (auto simp: hook_poll_def)
  next
    case bad
    then show ?thesis
      using assms p by (auto simp: hook_poll_def hook_received_def)
  next
    case (msg msg hdr args)
    obtain r1 h2 w2 where d: "hook_dispatch K H L MF hdr args (h\<lparr>transport := t\<rparr>, w1) = Some (r1, h2, w2)"
      using assms p msg by (auto simp: hook_poll_def hook_received_def bind_eq_Some_conv)
    have "analysis h' = analysis h2"
      using assms hook_poll_ready [OF p [unfolded msg(1)] msg(2) d] by (auto split: sum.splits prod.splits)
    then show ?thesis
      using dispatch_keeps [OF d] by simp
  qed
qed

section \<open>Clients\<close>

definition caller_qp :: "('qp, 'mr, 'ep) Caller \<Rightarrow> 'qp" where
  "caller_qp c = ud (r_inner (inner_receiver c))"

definition client_ok ::
  "('n, 'c, 'qp, 'mr, 'ep, 'e) ud_kit \<Rightarrow> ('n \<Rightarrow> nat) \<Rightarrow> ('qp, 'mr, 'ep) Caller \<times> 'n world \<Rightarrow> bool" where
  "client_ok K due = (\<lambda>(c, w). (\<forall>i x. caller_sessions c i = Some x \<longrightarrow> session_ok K (caller_qp c) 8 x)
     \<and> due (w_net w) = card (busy (caller_sessions c)))"

lemma client_ok_put:
  assumes "client_ok K due (c, w)" "session_ok K (caller_qp c) 8 (s, msg)"
    and "due (w_net w') = card (busy ((caller_sessions c)(i \<mapsto> (s, msg))))"
  shows "client_ok K due (put_caller_session i s msg c, w')"
  using assms by (simp add: client_ok_def put_caller_session_def caller_qp_def)

lemma sync_call_sends:
  assumes "counts_sends K (caller_qp c) due delay" "sends_bytes K (caller_qp c) sent" "client_ok K due (c, w)"
    and "wf_layout H" "wf_layout L" "size_of H + size_of L \<le> RECV_MTU" "caller_sessions c i = Some (s, msg)"
  shows "\<exists>c' w'. sync_call K H L i my f arg (c, w) = Some (Inr (), c', w') \<and> client_ok K due (c', w') \<and> inner_receiver c' = inner_receiver c
    \<and> sent (w_net w') = sent (w_net w) @ [(ss_meta s, wire H (gen_call_stub my f (of_nat (size_of L))) (to_raw L arg))]"
proof -
  let ?wire = "wire H (gen_call_stub my f (of_nat (size_of L))) (to_raw L arg)"
  have ok: "session_ok K (caller_qp c) 8 (s, msg)" "due (w_net w) = card (busy (caller_sessions c))"
    using assms(3,7) unfolding client_ok_def by blast+
  then have s: "ud (ss_inner s) = caller_qp c" "bm_len (msg_bytes msg) = RECV_MTU" "bm_ptr (msg_bytes msg) = unat (mr_virt K (msg_inner msg))"
    by (simp_all add: session_ok_def from_raw_def)
  have len: "length ?wire = size_of H + size_of L"
    using assms(4,5) by (simp add: wire_def layout_simps)
  define m where "m = mem_write (w_mem w) (bm_ptr (msg_bytes msg)) ?wire"
  have gen: "call_generate H L (call_factory_new my f) (w_mem w) (msg_bytes msg) arg = (m, Some (size_of H + size_of L))"
    using generate_stub_writes [OF assms(4,5)] assms(6) s(2) by (simp add: call_generate_def call_factory_new_def m_def)
  obtain r s1 w1 where p: "session_post K msg (size_of H + size_of L) (get_pending_reqs s = 0) (s, w\<lparr>w_mem := m\<rparr>) = Some (r, s1, w1)"
    and s1: "ud (ss_inner s1) = caller_qp c" "get_pending_reqs s1 \<le> 9"
    and due1: "due (w_net w1) = card (busy ((caller_sessions c)(i \<mapsto> (s1, msg))))"
    using throttled_send [where tab = "caller_sessions c" and w = "w\<lparr>w_mem := m\<rparr>" and k = "size_of H + size_of L",
        OF assms(1,7) ok(1)] ok(2) by auto
  have "size_of H + size_of L < 2 ^ 64"
    using assms(6) by (simp add: RECV_MTU_def)
  from session_post_sends [OF assms(2) s(1) p this]
  have r: "r = Inr ()" and sent: "sent (w_net w1) = sent (w_net w) @ [(ss_meta s, ?wire)]"
    using s(3) len by (simp_all add: m_def mem_read_write_same)
  show ?thesis
  proof (cases "8 < get_pending_reqs s1")
    case True
    obtain wc w2 where b: "block_on (session_poll K) (s1, w1) = Some (Inr wc, idle s1, w2)"
      "due (w_net w2) = card (busy ((caller_sessions c)(i \<mapsto> (idle s1, msg))))"
      using throttled_block [where tab = "caller_sessions c", OF assms(1) s1(1) _ due1] True by auto
    have i: "session_ok K (caller_qp c) 8 (idle s1, msg)" "get_pending_reqs (idle s1) = 0"
      using ok(1) s1(1) by (simp_all add: session_ok_def idle_def get_pending_reqs_def)
    have "sync_call K H L i my f arg (c, w) = Some (Inr (), put_caller_session i (idle s1) msg c, w2)"
      using assms(7) gen p r True b(1) i(2) by (simp add: sync_call_def)
    then show ?thesis
      using client_ok_put [OF assms(3) i(1) b(2)] block_on_sent [OF assms(2) s1(1) b(1)] sent
      by (auto simp: put_caller_session_def)
  next
    case False
    then have "session_ok K (caller_qp c) 8 (s1, msg)"
      using ok(1) s1(1) by (simp add: session_ok_def)
    moreover have "sync_call K H L i my f arg (c, w) = Some (Inr (), put_caller_session i s1 msg c, w1)"
      using assms(7) gen p r False by (simp add: sync_call_def)
    ultimately show ?thesis
      using client_ok_put [OF assms(3) _ due1] sent by (auto simp: put_caller_session_def)
  qed
qed

lemma caller_poll_reply:
  assumes "wf_layout H" "receiver_poll K (inner_receiver c, w) = Some (Inr (Ready msg), t, w1)"
    and "arrived H (w_mem w1) msg (gen_reply_stub st (of_nat (length body))) body"
  shows "caller_poll K H (c, w) =
      Some (case st of ReplyOk \<Rightarrow> Inr (Ready (msg, body_view H msg (length body))) | NotExist \<Rightarrow> Inl CallNoID,
            c\<lparr>inner_receiver := t\<rparr>, w1)
    \<and> mem_read (w_mem w1) (bm_ptr (body_view H msg (length body))) (length body) = body"
proof -
  let ?b = "\<lparr>bm_ptr = bm_ptr (msg_bytes msg) + RECV_HEADER, bm_len = bm_len (msg_bytes msg) - RECV_HEADER\<rparr>"
  let ?hdr = "gen_reply_stub st (of_nat (length body))"
  note hdr = arrived_header [OF assms(1,3)]
  have "parse_msg H (w_mem w1) ?b = Some (?hdr, body_view H msg (length body))"
    using arrived_parse(1) [OF assms(1,3)] hdr(1) by simp
  then obtain b where "truncate_header ?b (size_of H) = Some b" "clone_and_resize b (unat (payload ?hdr)) = Some (body_view H msg (length body))"
    using hdr(2) by (auto simp: parse_msg_def bind_eq_Some_conv)
  then show ?thesis
    using assms(2) hdr arrived_parse(2) [OF assms(1,3)]
    by (cases st) (simp_all add: caller_poll_def is_reply_def)
qed

section \<open>A network of datagrams\<close>

text \<open>
  A device for which the hypotheses hold: sends go to a log and complete at once, datagrams of an inbox are
  written behind 40 bytes of routing header into the receive buffers in the order they were posted.
\<close>

record sim_net =
  sn_due :: nat
  sn_sent :: "(nat \<times> u8 list) list"
  sn_inbox :: "u8 list list"
  sn_bufs :: "u64 list"
  sn_next :: u64

definition sim_ud :: "(sim_net, unit, unit, u64, nat, unit) ud_kit" where
  "sim_ud =
     \<lparr>mr_new = (\<lambda>_ n w. Some (sn_next (w_net w), w\<lparr>w_net := (w_net w)\<lparr>sn_next := sn_next (w_net w) + of_nat n\<rparr>\<rparr>)),
      mr_virt = (\<lambda>a. a), mr_rdma_addr = (\<lambda>a. a), mr_capacity = (\<lambda>_. 4096), qp_ctx = (\<lambda>_. ()),
      post_datagram = (\<lambda>_ ep _ r va sg w. (Inr (), w\<lparr>w_net := (w_net w)
        \<lparr>sn_due := sn_due (w_net w) + of_bool sg,
         sn_sent := sn_sent (w_net w) @ [(ep, mem_read (w_mem w) (unat va) (unat (snd r)))]\<rparr>\<rparr>)),
      poll_ud_send = (\<lambda>_ w. if sn_due (w_net w) = 0 then (Inr [], w)
        else (Inr [\<lparr>wc_status = 0\<rparr>], w\<lparr>w_net := (w_net w)\<lparr>sn_due := sn_due (w_net w) - 1\<rparr>\<rparr>)),
      post_recv = (\<lambda>_ a _ _ w. (Inr (), w\<lparr>w_net := (w_net w)\<lparr>sn_bufs := sn_bufs (w_net w) @ [a]\<rparr>\<rparr>)),
      poll_recv_cq = (\<lambda>_ w.
        case (sn_inbox (w_net w), sn_bufs (w_net w)) of
          (d # ds, a # as) \<Rightarrow>
            (Inr [\<lparr>wc_status = 0\<rparr>],
             w\<lparr>w_mem := mem_write (w_mem w) (unat a) (replicate 40 0 @ d),
               w_net := (w_net w)\<lparr>sn_inbox := ds, sn_bufs := as\<rparr>\<rparr>)
        | _ \<Rightarrow> (Inr [], w))\<rparr>"

lemma sim_counts [simp]: "counts_sends sim_ud () sn_due (\<lambda>_. 0)"
  by (auto simp: counts_sends_def sim_ud_def split: if_splits)

lemma sim_sends [simp]: "sends_bytes sim_ud () sn_sent"
  by (auto simp: sends_bytes_def sim_ud_def split: if_splits)

lemma sim_quiet [simp]: "quiet_recv sim_ud () sn_due"
  by (auto simp: quiet_recv_def sim_ud_def split: list.splits prod.splits)

text \<open>Layouts with the fields in order, each in whole words.\<close>

fun marker_code :: "ReqType \<Rightarrow> u64" where
  "marker_code Connect = 0"
| "marker_code Request = 1"
| "marker_code Reply = 2"
| "marker_code DisConnect = 3"
| "marker_code Illegal = 4"

definition code_marker :: "u64 \<Rightarrow> ReqType" where
  "code_marker c = (if c = 0 then Connect else if c = 1 then Request else if c = 2 then Reply else if c = 3 then DisConnect else Illegal)"

fun meta_code :: "RPCMeta \<Rightarrow> u64 \<times> u64 \<times> u64" where
  "meta_code (MetaRequest stub) = (0, call_session_id stub, call_rpc_id stub)"
| "meta_code (MetaReply ReplyOk) = (1, 1, 0)"
| "meta_code (MetaReply NotExist) = (1, 3, 0)"
| "meta_code (MetaConnect (ConnectStub i)) = (2, i, 0)"
| "meta_code MetaNone = (3, 0, 0)"

definition code_meta :: "u64 \<times> u64 \<times> u64 \<Rightarrow> RPCMeta" where
  "code_meta = (\<lambda>(t, a, b).
     if t = 0 then MetaRequest \<lparr>call_session_id = a, call_rpc_id = b\<rparr>
     else if t = 1 then MetaReply (if a = 1 then ReplyOk else NotExist)
     else if t = 2 then MetaConnect (ConnectStub a) else MetaNone)"

lemma code_marker_inverse [simp]: "code_marker (marker_code k) = k"
  by (cases k) (simp_all add: code_marker_def)

lemma code_meta_inverse [simp]: "code_meta (meta_code k) = k"
  by (cases k rule: meta_code.cases) (simp_all add: code_meta_def)

definition header_layout :: "MsgHeader layout" where
  "header_layout = struct_layout
     (\<lambda>h. (marker_code (marker h), payload h, meta_code (meta h)))
     (\<lambda>(k, n, c). \<lparr>marker = code_marker k, payload = n, meta = code_meta c\<rparr>)
     (pair_layout u64_layout (pair_layout u64_layout (pair_layout u64_layout (pair_layout u64_layout u64_layout))))"

lemma wf_header_layout [simp]: "wf_layout header_layout"
  unfolding header_layout_def by (intro wf_struct_layout wf_pair_layout) simp_all

lemma header_layout_size [simp]: "size_of header_layout = 40"
  by (simp add: header_layout_def struct_layout_def pair_layout_def)

definition hyper_meta_layout :: "UDHyperMeta layout" where
  "hyper_meta_layout = struct_layout
     (\<lambda>m. (ucast (hm_gid m), ucast (drop_bit 64 (hm_gid m)), hm_service_id m, hm_qd_hint m, ucast (hm_local_port m)))
     (\<lambda>(lo, hi, sv, qd, p). \<lparr>hm_gid = ucast lo OR push_bit 64 (ucast hi), hm_service_id = sv, hm_qd_hint = qd, hm_local_port = ucast p\<rparr>)
     (pair_layout u64_layout (pair_layout u64_layout (pair_layout u64_layout (pair_layout u64_layout u64_layout))))"

text \<open>A server with one session and an echo callback, and a message in one receive buffer at 4096.\<close>

definition echo :: "sim_net world callback" where
  "echo inp out w =
     (let n = min (bm_len inp) (bm_len out)
      in Some (n, w\<lparr>w_mem := mem_write (w_mem w) (bm_ptr out) (mem_read (w_mem w) (bm_ptr inp) n)\<rparr>))"

definition sim_buf :: "u64 \<Rightarrow> u64 UDMsg" where
  "sim_buf a = \<lparr>msg_inner = a, msg_bytes = from_raw (unat a) 4096, msg_imm = 0\<rparr>"

definition sim_session :: "(unit, nat) UDSession" where
  "sim_session = \<lparr>ss_meta = 3, ss_inner = \<lparr>ud = (), pending = 0\<rparr>\<rparr>"

definition sim_receiver :: "(unit, u64) UDReceiver" where
  "sim_receiver = \<lparr>r_qd_hint = 12, r_inner = \<lparr>ud = (), pending = 0\<rparr>, msg_queues = [sim_buf 4096]\<rparr>"

definition sim_hook :: "(sim_net, unit, unit, u64, nat) RPCHook" where
  "sim_hook = (hook_new () \<lparr>ud = (), pending = 0\<rparr> sim_receiver)
     \<lparr>service := fst (service_register 1 echo service_new), connected_sessions := [7 \<mapsto> (sim_session, sim_buf 8192)]\<rparr>"

definition sim_caller :: "(unit, u64, nat) Caller" where
  "sim_caller = \<lparr>inner_receiver = sim_receiver, caller_sessions = [7 \<mapsto> (sim_session, sim_buf 8192)]\<rparr>"

definition sim_world :: "u8 list list \<Rightarrow> sim_net world" where
  "sim_world ds = \<lparr>w_mem = (\<lambda>_. 0), w_net = \<lparr>sn_due = 0, sn_sent = [], sn_inbox = ds, sn_bufs = [4096], sn_next = 65536\<rparr>\<rparr>"

definition sim_received :: "u8 list \<Rightarrow> sim_net world" where
  "sim_received d = \<lparr>w_mem = mem_write (\<lambda>_. 0) 4096 (replicate 40 0 @ d),
     w_net = \<lparr>sn_due = 0, sn_sent = [], sn_inbox = [], sn_bufs = [], sn_next = 65536\<rparr>\<rparr>"

lemma sim_receive:
  "receiver_poll sim_ud (sim_receiver, sim_world [d]) = Some (Inr (Ready (sim_buf 4096)), sim_receiver\<lparr>msg_queues := []\<rparr>, sim_received d)"
  by (simp add: receiver_poll_def sim_ud_def sim_receiver_def sim_world_def sim_received_def)

lemma buffer_arrived:
  assumes "unat (payload hdr) = length body" "length body \<le> 4016"
  shows "arrived header_layout (mem_write m 4096 (replicate 40 0 @ wire header_layout hdr body)) (sim_buf 4096) hdr body"
proof -
  have "mem_has (mem_write m 4096 (replicate 40 0 @ d)) (4096 + 40) d" for d :: "u8 list"
    using mem_has_write [of m 4096 "replicate 40 0 @ d"] unfolding mem_has_append by simp
  then show ?thesis
    using assms by (simp add: arrived_def sim_buf_def RECV_HEADER_def from_raw_def)
qed

lemma sim_arrived:
  assumes "unat (payload hdr) = length body" "length body \<le> 4016"
  shows "arrived header_layout (w_mem (sim_received (wire header_layout hdr body))) (sim_buf 4096) hdr body"
  using buffer_arrived [OF assms] by (simp add: sim_received_def)

lemma sim_hook_simps [simp]:
  "hook_qp sim_hook = ()" "transport sim_hook = sim_receiver" "analysis sim_hook = analysis_new"
  "callbacks (service sim_hook) = [1 \<mapsto> echo]" "connected_sessions sim_hook = [7 \<mapsto> (sim_session, sim_buf 8192)]"
  by (simp_all add: sim_hook_def hook_new_def service_register_def service_new_def)

lemma sim_server_ok [simp]: "server_ok sim_ud sn_due (sim_hook, sim_world ds)"
  by (auto simp: server_ok_def hook_ok_def session_ok_def busy_def get_pending_reqs_def sim_session_def sim_buf_def
      sim_world_def RECV_MTU_def sim_ud_def sim_hook_def hook_new_def sim_receiver_def split: if_splits)

lemma sim_tame [simp]: "tame_callbacks (service sim_hook) room sn_due"
  by (auto simp: tame_callbacks_def echo_def Let_def split: if_splits)

section \<open>Properties\<close>

text \<open>C5: A server that polls never gets stuck and never panics: with well-behaved callbacks, one call of
  \<open>hook_poll\<close> returns whatever message arrives (a disconnect, which is not implemented, apart), even where it
  blocks until its send queue drains. Afterwards no session has more than 4 requests pending, the queue
  pair owes exactly one completion for each session that has some, and the call counters add up.\<close>

theorem server_never_stuck:
  assumes "counts_sends K (hook_qp h) due delay" "quiet_recv K (hook_qp h) due" "quiet_meta MF due"
    and "tame_callbacks (service h) (RECV_MTU - size_of H) due" "server_ok K due (h, w)" "size_of H \<le> RECV_MTU"
    and "ncalls (analysis h) + 1 < 2 ^ 64" "receiver_poll K (transport h, w) \<noteq> None"
    and "\<forall>hdr args. hook_received K H (h, w) = Some (hdr, args) \<longrightarrow> marker hdr \<noteq> DisConnect"
  shows "\<exists>r h' w'. hook_poll K H L MF (h, w) = Some (r, h', w') \<and> server_ok K due (h', w')
    \<and> (\<forall>i s buf. connected_sessions h' i = Some (s, buf) \<longrightarrow> get_pending_reqs s \<le> 4)
    \<and> due (w_net w') = card (busy (connected_sessions h'))"
proof -
  have "handled K due h (hook_poll K H L MF (h, w))"
    using assms by (intro hook_poll_handled [where delay = delay]) blast+
  then obtain r h' w' where r: "hook_poll K H L MF (h, w) = Some (r, h', w')" "server_ok K due (h', w')"
    unfolding handled_def by blast
  then show ?thesis
    by (auto simp: server_ok_def session_ok_def dest: hook_ok_session)
qed

theorem server_never_stuck_witness:
  "\<exists>r h' w'. hook_poll sim_ud header_layout hyper_meta_layout (\<lambda>c m w. (Inl (), w))
      (sim_hook, sim_world [wire header_layout (gen_call_stub 7 1 2) [5, 6]]) = Some (r, h', w')
    \<and> server_ok sim_ud sn_due (h', w')"
proof -
  let ?d = "wire header_layout (gen_call_stub 7 1 2) [5, 6]"
  have "hook_received sim_ud header_layout (sim_hook, sim_world [?d]) =
      Some (gen_call_stub 7 1 2, body_view header_layout (sim_buf 4096) (length [5, 6 :: u8]))"
    using sim_receive [of ?d] arrived_parse(1) [OF wf_header_layout sim_arrived [of "gen_call_stub 7 1 2" "[5, 6]"]]
    by (simp add: hook_received_def)
  moreover have "quiet_meta (\<lambda>c :: unit. \<lambda>m w. (Inl () :: unit + nat, w)) sn_due"
    by (simp add: quiet_meta_def)
  ultimately show ?thesis
    using server_never_stuck [of sim_ud sim_hook sn_due "\<lambda>_. 0" "\<lambda>c m w. (Inl (), w)" header_layout "sim_world [?d]" hyper_meta_layout]
    by (simp add: sim_receive RECV_MTU_def analysis_new_def) blast
qed

text \<open>C6: A request reaches its callback and the reply is what the callback wrote: the callback is run on a
  view of the receive buffer that holds exactly the bytes of the caller, the client is sent a reply
  header with the size the callback returned followed by that many bytes of the reply buffer, or the
  status \<open>NotExist\<close> when the identifier is not registered, the call is counted, and the receive
  buffer is posted again.\<close>

theorem rpc_served:
  assumes "counts_sends K (hook_qp h) due delay" "sends_bytes K (hook_qp h) sent" "quiet_recv K (hook_qp h) due"
    and "server_ok K due (h, w)" "wf_layout H" "size_of H \<le> RECV_MTU" "ncalls (analysis h) + 1 < 2 ^ 64"
    and "receiver_poll K (transport h, w) = Some (Inr (Ready msg), t, w1)"
    and "arrived H (w_mem w1) msg (gen_call_stub i f (of_nat (length args))) args"
    and "connected_sessions h i = Some (s, buf)"
    and "service_execute f (body_view H msg (length args)) (reply_view H buf) (service h) w1 = Some (rp, w2)"
    and "due (w_net w2) = due (w_net w1)" "\<forall>n. rp = Some n \<longrightarrow> n + size_of H < 2 ^ 64"
  shows "mem_read (w_mem w1) (bm_ptr (body_view H msg (length args))) (length args) = args
    \<and> (\<exists>h' w'. hook_poll K H L MF (h, w) = Some (Inr (Ready ()), h', w')
        \<and> sent (w_net w') = sent (w_net w2) @ [(ss_meta s,
            case rp of
              Some n \<Rightarrow> wire H (gen_reply_stub ReplyOk (of_nat n)) (mem_read (w_mem w2) (bm_ptr (reply_view H buf)) n)
            | None \<Rightarrow> wire H (gen_reply_stub NotExist 0) [])]
        \<and> ncalls (analysis h') = ncalls (analysis h) + 1 \<and> msg_queues (transport h') = msg_queues t @ [msg])"
proof -
  let ?h = "h\<lparr>transport := t\<rparr>"
  let ?args = "body_view H msg (length args)"
  let ?n = "case rp of Some n \<Rightarrow> n | None \<Rightarrow> 0"
  let ?st = "case rp of Some n \<Rightarrow> ReplyOk | None \<Rightarrow> NotExist"
  note parsed = arrived_parse [OF assms(5,9)]
  have rcv: "hook_received K H (h, w) = Some (gen_call_stub i f (of_nat (length args)), ?args)"
    using assms(8) parsed(1) by (simp add: hook_received_def)
  have ok: "server_ok K due (?h, w1)" "hook_qp ?h = hook_qp h"
    using handled_receive [OF assms(4,3,8)] by simp_all
  have buf: "bm_len (msg_bytes buf) = RECV_MTU" "analysis_ok (analysis h)"
    using assms(4) hook_ok_session [OF _ assms(10), of K] by (auto simp: server_ok_def session_ok_def from_raw_def hook_ok_def)
  then have view: "truncate_header (msg_bytes buf) (size_of H) = Some (reply_view H buf)"
    using assms(6) by (simp add: truncate_header_def reply_view_def)
  obtain a where a: "handle_one (analysis h) = Some a"
    using assms(7) by (simp add: handle_one_def)
  obtain a' where a': "handle_session_call i a = Some a'" "analysis_ok a'" "ncalls a' = ncalls (analysis h) + 1"
    using handle_session_fits [OF buf(2) a, of i] count_call_ok [OF buf(2) a] by blast
  let ?g = "?h\<lparr>analysis := a'\<rparr>"
  have g: "hook_qp ?g = hook_qp h" "server_ok K due (?g, w2)"
    using ok a'(2) assms(12) by (simp_all add: server_ok_def hook_ok_def hook_qp_def)
  obtain s2 w3 where rep: "send_reply K H i (reply_factory_new ?st ?n) (?g, w2) = Some (Inr (), put_session i s2 buf ?g, w3)"
    "sent (w_net w3) = sent (w_net w2) @ [(ss_meta s, wire H (gen_reply_stub ?st (of_nat ?n)) (mem_read (w_mem w2) (bm_ptr (msg_bytes buf) + size_of H) ?n))]"
    using send_reply_sends [of K ?g due delay sent w2 H ?n i s buf ?st] assms(1,2,5,6,10,13) g
    by (cases rp) (auto simp: RECV_MTU_def)
  have d: "hook_dispatch K H L MF (gen_call_stub i f (of_nat (length args))) ?args (?h, w1) = Some (Inr (), put_session i s2 buf ?g, w3)"
    using assms(10,11) view a a'(1) rep(1)
    by (cases rp) (simp_all add: hook_dispatch_def hook_request_def)
  obtain w4 where w4: "post_recv_buf K msg (t, w3) = (Inr (), t\<lparr>msg_queues := msg_queues t @ [msg]\<rparr>, w4)"
    "sent (w_net w4) = sent (w_net w3)"
  proof -
    have "ud (r_inner t) = hook_qp h"
      using ok(2) by (simp add: hook_qp_def)
    then obtain w4 where "post_recv K (ud (r_inner t)) (msg_inner msg) (0, of_nat (udmsg_len msg)) (udmsg_get_pa K msg) w3 = (Inr (), w4)"
      "sent (w_net w4) = sent (w_net w3)"
      using assms(2) unfolding sends_bytes_def by metis
    then show ?thesis
      by (intro that [of w4]) (simp_all add: post_recv_buf_def)
  qed
  have "hook_poll K H L MF (h, w) = Some (Inr (Ready ()), (put_session i s2 buf ?g)\<lparr>transport := t\<lparr>msg_queues := msg_queues t @ [msg]\<rparr>\<rparr>, w4)"
    using hook_poll_ready [OF assms(8) rcv d] w4(1) by simp
  moreover have "sent (w_net w4) = sent (w_net w2) @ [(ss_meta s,
            case rp of
              Some n \<Rightarrow> wire H (gen_reply_stub ReplyOk (of_nat n)) (mem_read (w_mem w2) (bm_ptr (reply_view H buf)) n)
            | None \<Rightarrow> wire H (gen_reply_stub NotExist 0) [])]"
    using w4(2) rep(2) by (cases rp) (simp_all add: reply_view_def)
  ultimately show ?thesis
    using parsed(2) a'(3) by simp
qed

theorem rpc_served_witness:
  "\<exists>h' w'. hook_poll sim_ud header_layout hyper_meta_layout (\<lambda>c m w. (Inl (), w))
      (sim_hook, sim_world [wire header_layout (gen_call_stub 7 1 2) [5, 6]]) = Some (Inr (Ready ()), h', w')
    \<and> sn_sent (w_net w') = [(3, wire header_layout (gen_reply_stub ReplyOk 2) [5, 6])]"
proof -
  let ?h = "gen_call_stub 7 1 2"
  let ?w1 = "sim_received (wire header_layout ?h [5, 6])"
  let ?in = "body_view header_layout (sim_buf 4096) (length [5, 6 :: u8])" and ?out = "reply_view header_layout (sim_buf 8192)"
  define w2 where "w2 = ?w1\<lparr>w_mem := mem_write (w_mem ?w1) (bm_ptr ?out) [5, 6]\<rparr>"
  have arr: "arrived header_layout (w_mem ?w1) (sim_buf 4096) ?h [5, 6]"
    by (rule sim_arrived) simp_all
  have "echo ?in ?out ?w1 = Some (2, w2)"
    using arrived_parse(2) [OF wf_header_layout arr]
    by (simp add: echo_def w2_def Let_def body_view_def reply_view_def RECV_MTU_def)
  then have ex: "service_execute 1 ?in ?out (service sim_hook) ?w1 = Some (Some 2, w2)"
    by (simp add: service_execute_def)
  have w2: "sn_due (w_net w2) = sn_due (w_net ?w1)" "sn_sent (w_net w2) = []" "mem_read (w_mem w2) (bm_ptr ?out) 2 = [5, 6]"
    by (simp_all add: w2_def sim_received_def mem_read_write_same)
  show ?thesis
    using rpc_served [of sim_ud sim_hook sn_due "\<lambda>_. 0" sn_sent "sim_world [wire header_layout ?h [5, 6]]" header_layout
        "sim_buf 4096" "sim_receiver\<lparr>msg_queues := []\<rparr>" ?w1 7 1 "[5, 6]" sim_session "sim_buf 8192" "Some 2" w2
        hyper_meta_layout "\<lambda>c m w. (Inl (), w)"] sim_receive arr ex w2
    by (auto simp: RECV_MTU_def analysis_new_def sim_session_def)
qed

text \<open>C29: Only a message that was handled gives its receive buffer back: a poll that succeeds moves the buffer
  of the message to the end of the queue, a poll without a message leaves the queue alone, and every
  error after a message was received loses its buffer.\<close>

theorem hook_poll_buffers:
  assumes "hook_poll K H L MF (h, w) = Some (r, h', w')"
  shows "(case r of
      Inr NotReady \<Rightarrow> msg_queues (transport h') = msg_queues (transport h)
    | Inr (Ready _) \<Rightarrow> msg_queues (transport h) \<noteq> [] \<and> msg_queues (transport h') = rotate1 (msg_queues (transport h))
    | Inl e \<Rightarrow> msg_queues (transport h') =
        (if \<exists>msg t w1. receiver_poll K (transport h, w) = Some (Inr (Ready msg), t, w1)
         then tl (msg_queues (transport h)) else msg_queues (transport h)))"
proof -
  let ?q = "msg_queues (transport h)"
  obtain p t w1 where p: "receiver_poll K (transport h, w) = Some (p, t, w1)"
    using assms by (auto simp: hook_poll_def bind_eq_Some_conv)
  have q: "case p of Inr (Ready msg) \<Rightarrow> ?q = msg # msg_queues t | _ \<Rightarrow> msg_queues t = ?q"
    using p by (auto simp: receiver_poll_def split: prod.splits sum.splits list.splits)
  consider (err) e where "p = Inl e" | (wait) "p = Inr NotReady" | (msg) msg where "p = Inr (Ready msg)"
    by (metis Async.exhaust sum.exhaust)
  then show ?thesis
  proof cases
    case (msg msg)
    note p = p [unfolded msg]
    show ?thesis
    proof (cases "hook_received K H (h, w)")
      case None
      then show ?thesis
        using assms p q msg by (auto simp: hook_poll_def hook_received_def)
    next
      case (Some x)
      then obtain hdr args where x: "hook_received K H (h, w) = Some (hdr, args)"
        by (cases x) auto
      obtain r1 h2 w2 where d: "hook_dispatch K H L MF hdr args (h\<lparr>transport := t\<rparr>, w1) = Some (r1, h2, w2)"
        using assms p x by (auto simp: hook_poll_def hook_received_def bind_eq_Some_conv)
      have t: "transport h2 = t"
        using dispatch_keeps [OF d] by simp
      obtain r2 t2 w3 where post: "post_recv_buf K msg (t, w2) = (r2, t2, w3)"
        by (metis prod_cases3)
      have t2: "msg_queues t2 = (case r2 of Inl _ \<Rightarrow> msg_queues t | Inr _ \<Rightarrow> msg_queues t @ [msg])"
        using post by (auto simp: post_recv_buf_def split: prod.splits sum.splits)
      show ?thesis
        using assms hook_poll_ready [OF p x d] t post t2 q p msg
        by (cases r1; cases r2) auto
    qed
  qed (use assms p q in \<open>auto simp: hook_poll_def\<close>)
qed

theorem hook_poll_buffers_witness:
  "map_option (\<lambda>(r, h, w). (r, msg_queues (transport h)))
     (hook_poll sim_ud header_layout hyper_meta_layout (\<lambda>c m w. (Inl (), w))
       (sim_hook, sim_world [wire header_layout (gen_call_stub 8 1 2) [5, 6]])) = Some (Inl NotConnected, [])"
proof -
  let ?d = "wire header_layout (gen_call_stub 8 1 2) [5, 6]"
  let ?v = "body_view header_layout (sim_buf 4096) (length [5, 6 :: u8])"
  let ?h = "sim_hook\<lparr>transport := sim_receiver\<lparr>msg_queues := []\<rparr>\<rparr>"
  have rcv: "hook_received sim_ud header_layout (sim_hook, sim_world [?d]) = Some (gen_call_stub 8 1 2, ?v)"
    using sim_receive [of ?d] arrived_parse(1) [OF wf_header_layout sim_arrived [of "gen_call_stub 8 1 2" "[5, 6]"]]
    by (simp add: hook_received_def)
  have "hook_dispatch sim_ud header_layout hyper_meta_layout (\<lambda>c m w. (Inl (), w)) (gen_call_stub 8 1 2) ?v (?h, sim_received ?d)
      = Some (Inl NotConnected, ?h, sim_received ?d)"
    by (simp add: hook_dispatch_def hook_request_def)
  from hook_poll_ready [OF _ rcv this] sim_receive
  have e: "hook_poll sim_ud header_layout hyper_meta_layout (\<lambda>c m w. (Inl (), w)) (sim_hook, sim_world [?d])
      = Some (Inl NotConnected, ?h, sim_received ?d)"
    by simp
  from hook_poll_buffers [OF e] sim_receive [of ?d] have "msg_queues (transport ?h) = tl (msg_queues sim_receiver)"
    by simp
  then show ?thesis
    by (simp add: e sim_receiver_def)
qed

text \<open>C23: A call puts exactly its request on the network: \<open>sync_call\<close> on a connected session returns, has sent
  to the session's endpoint a request header with the caller's session, the callback and the size of
  the argument, followed by the bytes of the argument, and keeps at most 8 requests pending.\<close>

theorem call_sent:
  assumes "counts_sends K (caller_qp c) due delay" "sends_bytes K (caller_qp c) sent" "client_ok K due (c, w)"
    and "wf_layout H" "wf_layout L" "size_of H + size_of L \<le> RECV_MTU" "caller_sessions c i = Some (s, msg)"
  shows "\<exists>c' w'. sync_call K H L i my f arg (c, w) = Some (Inr (), c', w') \<and> client_ok K due (c', w')
    \<and> sent (w_net w') = sent (w_net w) @ [(ss_meta s, wire H (gen_call_stub my f (of_nat (size_of L))) (to_raw L arg))]"
  using sync_call_sends [OF assms] by blast

theorem call_sent_witness:
  "\<exists>c' w'. sync_call sim_ud header_layout u64_layout 7 9 1 (0x0201 :: u64) (sim_caller, sim_world []) = Some (Inr (), c', w')
    \<and> sn_sent (w_net w') = [(3, wire header_layout (gen_call_stub 9 1 8) (word_to_le (0x0201 :: u64)))]"
proof -
  have "client_ok sim_ud sn_due (sim_caller, sim_world [])"
    by (auto simp: client_ok_def session_ok_def busy_def get_pending_reqs_def sim_session_def sim_buf_def caller_qp_def
        sim_world_def RECV_MTU_def sim_ud_def sim_caller_def split: if_splits)
  moreover have "to_raw u64_layout (0x0201 :: u64) = word_to_le (0x0201 :: u64)"
    by (simp add: u64_layout_def)
  ultimately show ?thesis
    using call_sent [of sim_ud sim_caller sn_due "\<lambda>_. 0" sn_sent "sim_world []" header_layout u64_layout 7 sim_session "sim_buf 8192" 9 1 "0x0201"]
    by (auto simp: RECV_MTU_def sim_caller_def sim_session_def sim_world_def)
qed

text \<open>C24: The client gets the reply: when a reply message has arrived, polling the caller gives the buffer it
  came in and a view that holds exactly the bytes of the reply; the status \<open>NotExist\<close> gives the error
  that the identifier is not registered.\<close>

theorem reply_returned:
  assumes "wf_layout H" "receiver_poll K (inner_receiver c, w) = Some (Inr (Ready msg), t, w1)"
    and "arrived H (w_mem w1) msg (gen_reply_stub st (of_nat (length body))) body"
  shows "caller_poll K H (c, w) =
      Some (case st of ReplyOk \<Rightarrow> Inr (Ready (msg, body_view H msg (length body))) | NotExist \<Rightarrow> Inl CallNoID,
            c\<lparr>inner_receiver := t\<rparr>, w1)
    \<and> mem_read (w_mem w1) (bm_ptr (body_view H msg (length body))) (length body) = body"
  by (rule caller_poll_reply [OF assms])

theorem reply_returned_witness:
  "caller_poll sim_ud header_layout (sim_caller, sim_world [wire header_layout (gen_reply_stub ReplyOk 2) [5, 6]]) =
     Some (Inr (Ready (sim_buf 4096, body_view header_layout (sim_buf 4096) (length [5, 6 :: u8]))),
       sim_caller\<lparr>inner_receiver := sim_receiver\<lparr>msg_queues := []\<rparr>\<rparr>, sim_received (wire header_layout (gen_reply_stub ReplyOk 2) [5, 6]))"
proof -
  let ?d = "wire header_layout (gen_reply_stub ReplyOk 2) [5, 6]"
  have "arrived header_layout (w_mem (sim_received ?d)) (sim_buf 4096) (gen_reply_stub ReplyOk (of_nat (length [5, 6 :: u8]))) [5, 6]"
    using sim_arrived [of "gen_reply_stub ReplyOk 2" "[5, 6]"] by simp
  moreover have "receiver_poll sim_ud (inner_receiver sim_caller, sim_world [?d]) =
      Some (Inr (Ready (sim_buf 4096)), sim_receiver\<lparr>msg_queues := []\<rparr>, sim_received ?d)"
    using sim_receive by (simp add: sim_caller_def)
  ultimately show ?thesis
    using reply_returned [OF wf_header_layout, of sim_ud sim_caller "sim_world [?d]" "sim_buf 4096" _ "sim_received ?d" ReplyOk "[5, 6]"]
    by simp
qed

end
