(* ===== verification/Node_Startup.thy ===== *)
theory Node_Startup
  imports Datagram
begin

text \<open>
  Starting a node: the configuration (mitosis/src/lib.rs), the RDMA objects of every NIC
  (rdma_context.rs), the pools of DC queue pairs and DC targets and the cache of access information
  (dc_pool.rs), the pool of serialisation buffers (mem_pools.rs), the pool of RC connections
  (rc_conn_pool.rs) with the lock wrapper around pooled objects (lock_bundler.rs), the machine descriptor
  taken from the target pool (descriptors/rdma.rs) and the session numbers (startup.rs). The control path
  of KRdmaKit is a value of type \<open>node_ctl\<close>. The globals of the crate are arguments and results; a
  \<open>usize\<close> is a 64-bit word, and its arithmetic is checked. A panic is the outer \<^term>\<open>None\<close>.
\<close>

section \<open>Counting loops and checked arithmetic\<close>

definition checked_mul :: "'a::len word \<Rightarrow> 'a word \<Rightarrow> 'a word option" where
  "checked_mul a b = (if unat a * unat b < 2 ^ LENGTH('a) then Some (a * b) else None)"

definition checked_rem :: "u64 \<Rightarrow> u64 \<Rightarrow> u64 option" where
  "checked_rem a b = (if b = 0 then None else Some (a mod b))"

definition vec_get :: "'a list \<Rightarrow> u64 \<Rightarrow> 'a option" where
  "vec_get xs i = (if unat i < length xs then Some (xs ! unat i) else None)"

definition vec_put :: "'a list \<Rightarrow> u64 \<Rightarrow> 'a \<Rightarrow> 'a list" where
  "vec_put xs i v = xs[unat i := v]"

text \<open>\<open>0..n\<close>, and a loop that pushes one element per round.\<close>

definition usize_range :: "u64 \<Rightarrow> u64 list" where
  "usize_range n = map of_nat [0..<unat n]"

fun collect :: "('a \<Rightarrow> 's \<Rightarrow> ('b \<times> 's) option) \<Rightarrow> 'a list \<Rightarrow> 's \<Rightarrow> ('b list \<times> 's) option" where
  "collect f [] s = Some ([], s)"
| "collect f (x # xs) s = do { (y, s) \<leftarrow> f x s; (ys, s) \<leftarrow> collect f xs s; Some (y # ys, s) }"

section \<open>Configuration\<close>

definition MAX_RPC_THREADS_CNT :: u64 where
  "MAX_RPC_THREADS_CNT = 10"

definition PREFETCH_STEP :: u64 where
  "PREFETCH_STEP = 1"

record Config =
  default_nic_port :: u8
  num_nics_used :: u64
  rpc_threads_num :: u64
  machine_id :: u64
  max_core_cnt :: u64
  peers_gid :: "string list"
  init_dc_targets :: u64
  max_cluster_size :: u64
  mem_pool_size :: u64

definition config_default :: Config where
  "config_default =
     \<lparr>default_nic_port = 1, num_nics_used = 1, rpc_threads_num = 2, machine_id = 0, max_core_cnt = 48,
      peers_gid = [], init_dc_targets = 256, max_cluster_size = 128, mem_pool_size = 20\<rparr>"

definition set_default_nic_port :: "u8 \<Rightarrow> Config \<Rightarrow> Config" where
  "set_default_nic_port port c = c\<lparr>default_nic_port := port\<rparr>"

definition set_num_nics_used :: "u64 \<Rightarrow> Config \<Rightarrow> Config" where
  "set_num_nics_used num c = c\<lparr>num_nics_used := num\<rparr>"

definition set_rpc_threads :: "u64 \<Rightarrow> Config \<Rightarrow> Config option" where
  "set_rpc_threads num c = do { require (num \<le> MAX_RPC_THREADS_CNT); Some (c\<lparr>rpc_threads_num := num\<rparr>) }"

definition set_machine_id :: "u64 \<Rightarrow> Config \<Rightarrow> Config" where
  "set_machine_id i c = c\<lparr>machine_id := i\<rparr>"

definition add_gid :: "string \<Rightarrow> Config \<Rightarrow> Config" where
  "add_gid g c = c\<lparr>peers_gid := peers_gid c @ [g]\<rparr>"

definition set_max_core_cnt :: "u64 \<Rightarrow> Config \<Rightarrow> Config" where
  "set_max_core_cnt cnt c = c\<lparr>max_core_cnt := cnt\<rparr>"

definition set_init_dc_targets :: "u64 \<Rightarrow> Config \<Rightarrow> Config" where
  "set_init_dc_targets num c = c\<lparr>init_dc_targets := num\<rparr>"

definition set_mem_pool_size :: "u64 \<Rightarrow> Config \<Rightarrow> Config" where
  "set_mem_pool_size sz c = c\<lparr>mem_pool_size := sz\<rparr>"

section \<open>The control path\<close>

record DatagramMeta =
  dm_lid :: u16
  dm_gid :: ib_gid

record ('n, 'c, 'b, 'raw, 'qp, 'cp, 'dev, 'sv, 'cm, 'tgt) node_ctl = "('n, 'c, 'b, 'raw, 'qp, 'cp) qp_ctl" +
  kdriver_create :: "'n world \<Rightarrow> 'dev list option \<times> 'n world"
  open_context :: "'dev \<Rightarrow> 'n world \<Rightarrow> 'c option \<times> 'n world"
  ctx_rkey :: "'c \<Rightarrow> u32"
  query_gid :: "'c \<Rightarrow> u8 \<Rightarrow> ib_gid option"
  ud_service_create :: "'n world \<Rightarrow> 'sv \<times> 'n world"
  reg_qp :: "'sv \<Rightarrow> u64 \<Rightarrow> 'qp \<Rightarrow> 'n world \<Rightarrow> 'n world"
  cm_server_new :: "u64 \<Rightarrow> 'sv \<Rightarrow> 'c \<Rightarrow> 'n world \<Rightarrow> 'cm option \<times> 'n world"
  listen_id :: "'cm \<Rightarrow> u64"
  build_dc :: "'b \<Rightarrow> 'n world \<Rightarrow> ('cp + 'raw) \<times> 'n world"
  bring_up_dc :: "'raw \<Rightarrow> 'n world \<Rightarrow> ('cp + 'qp) \<times> 'n world"
  qp_port_num :: "'qp \<Rightarrow> u8"
  build_dct :: "'b \<Rightarrow> u64 \<Rightarrow> 'n world \<Rightarrow> ('cp + 'tgt) \<times> 'n world"
  tgt_port_num :: "'tgt \<Rightarrow> u8"
  tgt_dc_key :: "'tgt \<Rightarrow> u64"
  tgt_dct_num :: "'tgt \<Rightarrow> u32"
  tgt_ctx :: "'tgt \<Rightarrow> 'c"
  get_datagram_meta :: "'tgt \<Rightarrow> DatagramMeta option"

record 'qp DCConn =
  conn_dc :: 'qp
  watermark :: u64

definition dc_conn_clone :: "'qp DCConn \<Rightarrow> 'qp DCConn" where
  "dc_conn_clone d = \<lparr>conn_dc = conn_dc d, watermark = 0\<rparr>"

text \<open>\<open>DCFactory\<close> is its context.\<close>

definition dc_create ::
  "('n, 'c, 'b, 'raw, 'qp, 'cp, 'dev, 'sv, 'cm, 'tgt) node_ctl \<Rightarrow> 'c \<Rightarrow> u8 \<Rightarrow> 'n world \<Rightarrow> ('cp + 'qp DCConn) \<times> 'n world" where
  "dc_create N ctx port w =
     (let builder = set_port_num N port (allow_remote_atomic N (allow_remote_rw N (builder_new N ctx)))
      in case build_dc N builder w of
           (Inl e, w) \<Rightarrow> (Inl e, w)
         | (Inr raw, w) \<Rightarrow>
             (case bring_up_dc N raw w of
                (Inl e, w) \<Rightarrow> (Inl e, w)
              | (Inr qp, w) \<Rightarrow> (Inr \<lparr>conn_dc = qp, watermark = 0\<rparr>, w)))"

definition create_target ::
  "('n, 'c, 'b, 'raw, 'qp, 'cp, 'dev, 'sv, 'cm, 'tgt) node_ctl \<Rightarrow> 'c \<Rightarrow> u64 \<Rightarrow> u8 \<Rightarrow> 'n world \<Rightarrow> 'tgt option \<times> 'n world" where
  "create_target N ctx key port w =
     (let builder = set_port_num N port (allow_remote_atomic N (allow_remote_rw N (builder_new N ctx)))
      in case build_dct N builder key w of
           (Inl _, w) \<Rightarrow> (None, w)
         | (Inr tgt, w) \<Rightarrow> (Some tgt, w))"

text \<open>A result that the code unwraps.\<close>

definition expect :: "'a option \<times> 's \<Rightarrow> ('a \<times> 's) option" where
  "expect r = (case r of (None, _) \<Rightarrow> None | (Some v, s) \<Rightarrow> Some (v, s))"

definition expect_ok :: "('e + 'a) \<times> 's \<Rightarrow> ('a \<times> 's) option" where
  "expect_ok r = (case r of (Inl _, _) \<Rightarrow> None | (Inr v, s) \<Rightarrow> Some (v, s))"

section \<open>RDMA objects of every NIC\<close>

definition SERVICE_ID_BASE :: u64 where
  "SERVICE_ID_BASE = 73"

definition GLOBAL_DC_KEY :: u64 where
  "GLOBAL_DC_KEY = 73"

definition RC_SERVICE_ID_BASE :: u64 where
  "RC_SERVICE_ID_BASE = 33"

record ('c, 'sv, 'cm, 'tgt) rdma_globals =
  rdma_contexts :: "'c list"
  ud_service :: "'sv list"
  dc_target :: "'tgt list"
  dc_target_meta :: "DatagramMeta list"
  rdma_cm_service :: "'cm list"

definition open_nic ::
  "('n, 'c, 'b, 'raw, 'qp, 'cp, 'dev, 'sv, 'cm, 'tgt) node_ctl \<Rightarrow> 'dev list \<Rightarrow> u64 \<Rightarrow> 'n world \<Rightarrow> ('c \<times> 'n world) option" where
  "open_nic N devs i w = do { d \<leftarrow> vec_get devs i; expect (open_context N d w) }"

definition global_target ::
  "('n, 'c, 'b, 'raw, 'qp, 'cp, 'dev, 'sv, 'cm, 'tgt) node_ctl \<Rightarrow> Config \<Rightarrow> 'c list \<Rightarrow> u64 \<Rightarrow> 'n world \<Rightarrow>
    (('tgt \<times> DatagramMeta) \<times> 'n world) option" where
  "global_target N cfg ctxs i w =
     do { ctx \<leftarrow> vec_get ctxs i;
          (tgt, w) \<leftarrow> expect (create_target N ctx GLOBAL_DC_KEY (default_nic_port cfg) w);
          m \<leftarrow> get_datagram_meta N tgt;
          Some ((tgt, m), w) }"

definition start_cm ::
  "('n, 'c, 'b, 'raw, 'qp, 'cp, 'dev, 'sv, 'cm, 'tgt) node_ctl \<Rightarrow> 'c list \<Rightarrow> 'sv list \<Rightarrow> u64 \<Rightarrow> 'n world \<Rightarrow> ('cm \<times> 'n world) option" where
  "start_cm N ctxs svs i w =
     do { sid \<leftarrow> checked_add SERVICE_ID_BASE i;
          sv \<leftarrow> vec_get svs i;
          ctx \<leftarrow> vec_get ctxs i;
          expect (cm_server_new N sid sv ctx w) }"

text \<open>Without the feature \<open>use_rc\<close>; an inner None is the result None.\<close>

definition start_rdma ::
  "('n, 'c, 'b, 'raw, 'qp, 'cp, 'dev, 'sv, 'cm, 'tgt) node_ctl \<Rightarrow> Config \<Rightarrow> 'n world \<Rightarrow>
    (('c, 'sv, 'cm, 'tgt) rdma_globals option \<times> 'n world) option" where
  "start_rdma N cfg w =
     (case kdriver_create N w of
        (None, w) \<Rightarrow> Some (None, w)
      | (Some devs, w) \<Rightarrow>
          do { let nics = usize_range (num_nics_used cfg);
               (ctxs, w) \<leftarrow> collect (open_nic N devs) nics w;
               (svs, w) \<leftarrow> collect (\<lambda>_ w. Some (ud_service_create N w)) nics w;
               (tgts, w) \<leftarrow> collect (global_target N cfg ctxs) nics w;
               (cms, w) \<leftarrow> collect (start_cm N ctxs svs) nics w;
               Some (Some \<lparr>rdma_contexts = ctxs, ud_service = svs, dc_target = map fst tgts,
                           dc_target_meta = map snd tgts, rdma_cm_service = cms\<rparr>, w) })"

text \<open>The factory for the calling core: \<open>random_select_dc_factory_on_core\<close>.\<close>

definition random_select_dc_factory_on_core :: "u64 \<Rightarrow> 'c list \<Rightarrow> 'c option option" where
  "random_select_dc_factory_on_core cpu factories =
     do { i \<leftarrow> checked_rem cpu (of_nat (length factories)); Some (vec_get factories i) }"

section \<open>Pools\<close>

text \<open>A pooled object behind a mutex: \<open>lock\<close> runs the closure on it; one caller runs at a time.\<close>

record 'a LockBundler =
  lb_inner :: 'a

definition bundler_new :: "'a \<Rightarrow> 'a LockBundler" where
  "bundler_new x = \<lparr>lb_inner = x\<rparr>"

definition bundler_lock :: "('a \<Rightarrow> ('r \<times> 'a) option) \<Rightarrow> 'a LockBundler \<Rightarrow> ('r \<times> 'a LockBundler) option" where
  "bundler_lock f b = do { (r, x) \<leftarrow> f (lb_inner b); Some (r, b\<lparr>lb_inner := x\<rparr>) }"

record 'qp DCPool =
  dc_pool :: "'qp DCConn LockBundler list"
  nic_idxs :: "u64 list"

definition pooled_qp ::
  "('n, 'c, 'b, 'raw, 'qp, 'cp, 'dev, 'sv, 'cm, 'tgt) node_ctl \<Rightarrow> Config \<Rightarrow> 'c list \<Rightarrow> u64 \<Rightarrow> 'n world \<Rightarrow>
    (('qp DCConn LockBundler \<times> u64) \<times> 'n world) option" where
  "pooled_qp N cfg factories i w =
     do { nic_idx \<leftarrow> checked_rem i (num_nics_used cfg);
          factory \<leftarrow> vec_get factories nic_idx;
          (qp, w) \<leftarrow> expect_ok (dc_create N factory (default_nic_port cfg) w);
          Some ((bundler_new qp, nic_idx), w) }"

definition dc_pool_new ::
  "('n, 'c, 'b, 'raw, 'qp, 'cp, 'dev, 'sv, 'cm, 'tgt) node_ctl \<Rightarrow> Config \<Rightarrow> 'c list \<Rightarrow> 'n world \<Rightarrow> ('qp DCPool \<times> 'n world) option" where
  "dc_pool_new N cfg factories w =
     do { (res, w) \<leftarrow> collect (pooled_qp N cfg factories) (usize_range (max_core_cnt cfg)) w;
          Some (\<lparr>dc_pool = map fst res, nic_idxs = map snd res\<rparr>, w) }"

definition get_dc_qp :: "'qp DCPool \<Rightarrow> u64 \<Rightarrow> 'qp DCConn LockBundler option" where
  "get_dc_qp p idx = vec_get (dc_pool p) idx"

definition get_ctx_id :: "'qp DCPool \<Rightarrow> u64 \<Rightarrow> u64 option" where
  "get_ctx_id p idx = vec_get (nic_idxs p) idx"

text \<open>\<open>Vec::pop\<close> takes the last element.\<close>

definition vec_pop :: "'a list \<Rightarrow> 'a option \<times> 'a list" where
  "vec_pop xs = (if xs = [] then (None, []) else (Some (last xs), butlast xs))"

definition pop_one_qp :: "'qp DCPool \<Rightarrow> 'qp DCConn LockBundler option \<times> 'qp DCPool" where
  "pop_one_qp p = (let (r, xs) = vec_pop (dc_pool p) in (r, p\<lparr>dc_pool := xs\<rparr>))"

definition push_one_qp :: "'qp DCConn \<Rightarrow> 'qp DCPool \<Rightarrow> 'qp DCPool" where
  "push_one_qp qp p = p\<lparr>dc_pool := dc_pool p @ [bundler_new qp]\<rparr>"

definition create_one_qp ::
  "('n, 'c, 'b, 'raw, 'qp, 'cp, 'dev, 'sv, 'cm, 'tgt) node_ctl \<Rightarrow> 'c list \<Rightarrow> 'qp DCPool \<times> 'n world \<Rightarrow> ('qp DCPool \<times> 'n world) option" where
  "create_one_qp N factories = (\<lambda>(p, w).
     do { factory \<leftarrow> vec_get factories 0;
          (qp, w) \<leftarrow> expect_ok (dc_create N factory 1 w);
          Some (push_one_qp qp p, w) })"

text \<open>Access information by core and machine; a core out of range panics.\<close>

type_synonym 'ep AccessInfoPool = "(u64 \<Rightarrow> 'ep AccessInfo option) list"

definition access_pool_new :: "u64 \<Rightarrow> 'ep AccessInfoPool" where
  "access_pool_new sz = replicate (unat sz) Map.empty"

definition access_query :: "'ep AccessInfoPool \<Rightarrow> u64 \<Rightarrow> u64 \<Rightarrow> 'ep AccessInfo option option" where
  "access_query p idx i = do { m \<leftarrow> vec_get p idx; Some (m i) }"

definition access_insert :: "u64 \<Rightarrow> u64 \<Rightarrow> 'ep AccessInfo \<Rightarrow> 'ep AccessInfoPool \<Rightarrow> 'ep AccessInfoPool option" where
  "access_insert idx i access p = do { m \<leftarrow> vec_get p idx; Some (vec_put p idx (m(i \<mapsto> access))) }"

record 'tgt DCTargetMeta =
  dt_target :: 'tgt
  dt_nic_idx :: u64
  dt_rkey :: u32
  dt_meta :: DatagramMeta

type_synonym 'tgt DCTargetPool = "'tgt DCTargetMeta list"

definition pooled_target ::
  "('n, 'c, 'b, 'raw, 'qp, 'cp, 'dev, 'sv, 'cm, 'tgt) node_ctl \<Rightarrow> Config \<Rightarrow> 'c list \<Rightarrow> u64 \<Rightarrow> 'n world \<Rightarrow>
    ('tgt DCTargetMeta \<times> 'n world) option" where
  "pooled_target N cfg factories i w =
     do { nic_idx \<leftarrow> checked_rem i (num_nics_used cfg);
          factory \<leftarrow> vec_get factories nic_idx;
          key \<leftarrow> checked_add i 73;
          (tgt, w) \<leftarrow> expect (create_target N factory key (default_nic_port cfg) w);
          m \<leftarrow> get_datagram_meta N tgt;
          Some (\<lparr>dt_target = tgt, dt_nic_idx = nic_idx, dt_rkey = ctx_rkey N factory, dt_meta = m\<rparr>, w) }"

definition target_pool_new ::
  "('n, 'c, 'b, 'raw, 'qp, 'cp, 'dev, 'sv, 'cm, 'tgt) node_ctl \<Rightarrow> Config \<Rightarrow> 'c list \<Rightarrow> 'n world \<Rightarrow> ('tgt DCTargetPool \<times> 'n world) option" where
  "target_pool_new N cfg factories w = collect (pooled_target N cfg factories) (usize_range (init_dc_targets cfg)) w"

definition target_pop_one :: "'tgt DCTargetPool \<Rightarrow> 'tgt DCTargetMeta option \<times> 'tgt DCTargetPool" where
  "target_pop_one p = vec_pop p"

text \<open>The machine descriptor of a forked process. An empty pool panics.\<close>

definition new_from_dc_target_pool ::
  "('n, 'c, 'b, 'raw, 'qp, 'cp, 'dev, 'sv, 'cm, 'tgt) node_ctl \<Rightarrow> u64 \<Rightarrow> 'tgt DCTargetPool \<Rightarrow>
    (('tgt \<times> RDMADescriptor) \<times> 'tgt DCTargetPool) option" where
  "new_from_dc_target_pool N mac p =
     do { (tm, p) \<leftarrow> expect (target_pop_one p);
          let tgt = dt_target tm;
          Some ((tgt, \<lparr>service_id = 0, port_num = tgt_port_num N tgt, gid = dm_gid (dt_meta tm), lid = dm_lid (dt_meta tm),
                       rkey = dt_rkey tm, dct_key = tgt_dc_key N tgt, dct_num = tgt_dct_num N tgt, mac_id = mac\<rparr>), p) }"

text \<open>Serialisation buffers. \<open>max_kmalloc\<close> is the constant \<open>MAX_KMALLOC_SZ\<close> of KRdmaKit.\<close>

record ('c, 'mr) MemPool =
  mp_pool :: "'mr UDMsg list"
  mp_capacity :: u64
  mp_context :: 'c

definition fill_up ::
  "('n, 'c, 'qp, 'mr, 'ep, 'e) ud_kit \<Rightarrow> nat \<Rightarrow> u64 \<Rightarrow> ('c, 'mr) MemPool \<times> 'n world \<Rightarrow> (('c, 'mr) MemPool \<times> 'n world) option" where
  "fill_up K max_kmalloc n = (\<lambda>(p, w).
     do { (bufs, w) \<leftarrow> collect (\<lambda>_. udmsg_new K max_kmalloc 0 (mp_context p)) (usize_range n) w;
          Some (p\<lparr>mp_pool := mp_pool p @ bufs\<rparr>, w) })"

definition mem_pool_new ::
  "('n, 'c, 'qp, 'mr, 'ep, 'e) ud_kit \<Rightarrow> nat \<Rightarrow> u64 \<Rightarrow> 'c \<Rightarrow> 'n world \<Rightarrow> (('c, 'mr) MemPool \<times> 'n world) option" where
  "mem_pool_new K max_kmalloc pool_len ctx w =
     fill_up K max_kmalloc pool_len (\<lparr>mp_pool = [], mp_capacity = pool_len, mp_context = ctx\<rparr>, w)"

definition mem_pool_len :: "('c, 'mr) MemPool \<Rightarrow> nat" where
  "mem_pool_len p = length (mp_pool p)"

definition mem_pool_is_empty :: "('c, 'mr) MemPool \<Rightarrow> bool" where
  "mem_pool_is_empty p \<longleftrightarrow> mem_pool_len p = 0"

definition pop_one ::
  "('n, 'c, 'qp, 'mr, 'ep, 'e) ud_kit \<Rightarrow> nat \<Rightarrow> ('c, 'mr) MemPool \<times> 'n world \<Rightarrow> ('mr UDMsg \<times> ('c, 'mr) MemPool \<times> 'n world) option" where
  "pop_one K max_kmalloc = (\<lambda>(p, w).
     do { (p, w) \<leftarrow> (if mem_pool_is_empty p then fill_up K max_kmalloc (mp_capacity p) (p, w) else Some (p, w));
          (case vec_pop (mp_pool p) of
             (None, _) \<Rightarrow> None
           | (Some buf, bufs) \<Rightarrow> Some (buf, p\<lparr>mp_pool := bufs\<rparr>, w)) })"

section \<open>Session numbers\<close>

definition calculate_session_id :: "u64 \<Rightarrow> u64 \<Rightarrow> u64 \<Rightarrow> u64 option" where
  "calculate_session_id mac thread_id max_callers =
     do { x \<leftarrow> checked_mul mac max_callers; checked_add x thread_id }"

section \<open>RC connections\<close>

record RCConnectInfo =
  rci_gid :: string
  rci_service_id :: u64
  rci_local_port :: u8

definition rc_info_create_with_port :: "u64 \<Rightarrow> string \<Rightarrow> u64 \<Rightarrow> u8 \<Rightarrow> RCConnectInfo option" where
  "rc_info_create_with_port max_nics_used g nic_idx port =
     do { r \<leftarrow> checked_rem nic_idx max_nics_used;
          sid \<leftarrow> checked_add RC_SERVICE_ID_BASE r;
          Some \<lparr>rci_gid = g, rci_service_id = sid, rci_local_port = port\<rparr> }"

definition rc_info_create :: "u64 \<Rightarrow> string \<Rightarrow> u64 \<Rightarrow> RCConnectInfo option" where
  "rc_info_create max_nics_used g nic_idx = rc_info_create_with_port max_nics_used g nic_idx 1"

type_synonym 'rc RCPool = "u64 \<Rightarrow> 'rc option"

definition rc_pool_new :: "'rc RCPool" where
  "rc_pool_new = Map.empty"

definition get_rc_conn :: "'rc RCPool \<Rightarrow> u64 \<Rightarrow> 'rc option" where
  "get_rc_conn p sid = p sid"

text \<open>Creating a connection: a queue pair, the route to the peer and the handshake with its server.\<close>

record ('n, 'c, 'b, 'raw, 'qp, 'cp, 'path, 'cme) rc_ctl = "('n, 'c, 'b, 'raw, 'qp, 'cp) qp_ctl" +
  build_rc :: "'b \<Rightarrow> 'n world \<Rightarrow> ('cp + 'raw) \<times> 'n world"
  rc_resolve :: "'c \<Rightarrow> u64 \<Rightarrow> u8 \<Rightarrow> ib_gid \<Rightarrow> 'n world \<Rightarrow> ('cme + 'path) \<times> 'n world"
  handshake :: "'raw \<Rightarrow> u64 \<Rightarrow> 'path \<Rightarrow> 'n world \<Rightarrow> ('cp + 'qp) \<times> 'n world"

datatype ('cp, 'cme) RCFactoryError = RCControlpathError 'cp | RCCMError 'cme

definition rc_create ::
  "('n, 'c, 'b, 'raw, 'qp, 'cp, 'path, 'cme) rc_ctl \<Rightarrow> 'c \<Rightarrow> ib_gid \<Rightarrow> u64 \<Rightarrow> u8 \<Rightarrow> 'n world \<Rightarrow>
    (('cp, 'cme) RCFactoryError + 'qp) \<times> 'n world" where
  "rc_create R ctx g sid port w =
     (let builder = set_port_num R port (allow_remote_atomic R (allow_remote_rw R (builder_new R ctx)))
      in case build_rc R builder w of
           (Inl e, w) \<Rightarrow> (Inl (RCControlpathError e), w)
         | (Inr raw, w) \<Rightarrow>
             (case rc_resolve R ctx sid port g w of
                (Inl e, w) \<Rightarrow> (Inl (RCCMError e), w)
              | (Inr path, w) \<Rightarrow>
                  (case handshake R raw sid path w of
                     (Inl e, w) \<Rightarrow> (Inl (RCControlpathError e), w)
                   | (Inr qp, w) \<Rightarrow> (Inr qp, w))))"

text \<open>\<open>string_to_gid\<close> is the parser of KRdmaKit.\<close>

definition create_rc_connection ::
  "('n, 'c, 'b, 'raw, 'qp, 'cp, 'path, 'cme) rc_ctl \<Rightarrow> (string \<Rightarrow> ib_gid option) \<Rightarrow> 'c list \<Rightarrow> u64 \<Rightarrow> u64 \<Rightarrow>
    u64 \<Rightarrow> u64 \<Rightarrow> RCConnectInfo \<Rightarrow> 'qp RCPool \<times> 'n world \<Rightarrow> (unit option \<times> 'qp RCPool \<times> 'n world) option" where
  "create_rc_connection R string_to_gid factories max_caller_num max_nics_used idx mac info = (\<lambda>(p, w).
     do { sid \<leftarrow> calculate_session_id mac idx max_caller_num;
          i \<leftarrow> checked_rem idx max_nics_used;
          factory \<leftarrow> vec_get factories i;
          g \<leftarrow> string_to_gid (rci_gid info);
          (if p sid \<noteq> None then Some (None, p, w)
           else case rc_create R factory g (rci_service_id info) 1 w of
                  (Inr conn, w) \<Rightarrow> Some (Some (), p(sid \<mapsto> conn), w)
                | (Inl _, w) \<Rightarrow> Some (None, p, w)) })"

section \<open>What starting gives\<close>

lemma collect_total:
  assumes "\<And>x s. x \<in> set xs \<Longrightarrow> \<exists>y s'. f x s = Some (y, s') \<and> P x y"
  shows "\<exists>ys s'. collect f xs s = Some (ys, s') \<and> list_all2 P xs ys"
  using assms
proof (induction xs arbitrary: s)
  case (Cons x xs)
  obtain y s1 where y: "f x s = Some (y, s1)" "P x y"
    using Cons.prems [of x s] by auto
  obtain ys s2 where "collect f xs s1 = Some (ys, s2)" "list_all2 P xs ys"
    using Cons.IH [of s1] Cons.prems by auto
  then show ?case
    using y by auto
qed simp

lemma collect_length:
  assumes "\<And>x s. x \<in> set xs \<Longrightarrow> \<exists>y s'. f x s = Some (y, s')"
  shows "\<exists>ys s'. collect f xs s = Some (ys, s') \<and> length ys = length xs"
  using collect_total [of xs f "\<lambda>_ _. True" s] assms by (auto dest!: list_all2_lengthD)

lemma inj_on_of_nat_range: "inj_on (of_nat :: nat \<Rightarrow> u64) {0..<unat (n :: u64)}"
proof (rule inj_onI)
  fix x y
  assume "x \<in> {0..<unat n}" "y \<in> {0..<unat n}" and eq: "(of_nat x :: u64) = of_nat y"
  then have "x < 2 ^ 64" "y < 2 ^ 64"
    using unsigned_less [where 'a = nat, of n] by auto
  then show "x = y"
    using arg_cong [OF eq, of unat] by (simp add: unat_of_nat)
qed

lemma set_usize_range: "set (usize_range n) = {i. i < n}"
proof (intro set_eqI iffI)
  fix i
  assume "i \<in> set (usize_range n)"
  then obtain k where "i = of_nat k" "k < unat n"
    by (auto simp: usize_range_def)
  then show "i \<in> {i. i < n}"
    using unsigned_less [where 'a = nat, of n] by (simp add: word_less_nat_alt unat_of_nat)
next
  fix i
  assume "i \<in> {i. i < n}"
  then have "unat i \<in> {0..<unat n}" "i = of_nat (unat i)"
    by (simp_all add: word_less_nat_alt)
  then show "i \<in> set (usize_range n)"
    by (metis image_eqI list.set_map set_upt usize_range_def)
qed

lemma expect_ok_Some: "expect_ok x = Some (v, s) \<longleftrightarrow> x = (Inr v, s)"
  by (cases x; cases "fst x") (auto simp: expect_ok_def)

lemma length_usize_range [simp]: "length (usize_range n) = unat n"
  by (simp add: usize_range_def)

lemma nth_usize_range [simp]: "i < unat n \<Longrightarrow> usize_range n ! i = of_nat i"
  by (simp add: usize_range_def)

lemma unat_of_nat_below: "i < unat (n :: u64) \<Longrightarrow> unat (of_nat i :: u64) = i"
  using unsigned_less [of n, where ?'a = nat] by (simp add: unat_of_nat)

lemma mem_usize_range [simp]: "i \<in> set (usize_range n) \<longleftrightarrow> i < n"
proof
  assume "i \<in> set (usize_range n)"
  then obtain k where "k < unat n" "i = of_nat k"
    by (auto simp: usize_range_def)
  then show "i < n"
    by (simp add: word_less_nat_alt unat_of_nat_below)
next
  assume "i < n"
  then have "unat i < unat n" "of_nat (unat i) = i"
    by (simp_all add: word_less_nat_alt)
  then show "i \<in> set (usize_range n)"
    unfolding usize_range_def set_map by (metis atLeast0LessThan imageI lessThan_iff set_upt)
qed

lemma distinct_usize_range: "distinct (usize_range n)"
  by (auto simp: usize_range_def distinct_map inj_on_def dest!: arg_cong [where f = unat] simp: unat_of_nat_below)

lemma vec_get_Some: "unat i < length xs \<Longrightarrow> vec_get xs i = Some (xs ! unat i)"
  by (simp add: vec_get_def)

lemma checked_rem_below: "0 < b \<Longrightarrow> \<exists>r. checked_rem a b = Some r \<and> r < b \<and> r = a mod b"
  by (auto simp: checked_rem_def word_gt_0 word_less_nat_alt unat_mod)

lemma checked_mul_unat:
  assumes "checked_mul a b = Some (c :: 'a::len word)"
  shows "unat c = unat a * unat b"
  using assms by (auto simp: checked_mul_def unat_mult_lem split: if_splits)

lemma calculate_session_id_eq:
  "calculate_session_id mac t n =
     (if unat mac * unat n + unat t < 2 ^ 64 then Some (mac * n + t) else None)"
proof -
  have "unat (mac * n) = unat mac * unat n" if "unat mac * unat n < 2 ^ 64"
    using that by (simp add: unat_mult_lem [symmetric])
  then show ?thesis
    by (auto simp: calculate_session_id_def checked_mul_def checked_add_def)
qed

lemma session_id_unat:
  assumes "calculate_session_id mac t n = Some i"
  shows "unat i = unat mac * unat n + unat t"
  using assms
  by (auto simp: calculate_session_id_def bind_eq_Some_conv dest!: checked_mul_unat checked_add_unat)

text \<open>A control path that does not fail, on enough devices; servers and targets are what they were asked to be.\<close>

definition control_path_works :: "('n, 'c, 'b, 'raw, 'qp, 'cp, 'dev, 'sv, 'cm, 'tgt) node_ctl \<Rightarrow> Config \<Rightarrow> bool" where
  "control_path_works N cfg \<longleftrightarrow>
     (\<forall>w. \<exists>devs w'. kdriver_create N w = (Some devs, w') \<and> unat (num_nics_used cfg) \<le> length devs)
   \<and> (\<forall>d w. \<exists>c w'. open_context N d w = (Some c, w'))
   \<and> (\<forall>i sv c w. \<exists>cm w'. cm_server_new N i sv c w = (Some cm, w') \<and> listen_id N cm = i)
   \<and> (\<forall>b w. \<exists>raw w'. build_dc N b w = (Inr raw, w'))
   \<and> (\<forall>raw w. \<exists>qp w'. bring_up_dc N raw w = (Inr qp, w'))
   \<and> (\<forall>b key w. \<exists>t w'. build_dct N b key w = (Inr t, w') \<and> tgt_dc_key N t = key \<and> get_datagram_meta N t \<noteq> None)"

lemma dc_create_works:
  assumes "control_path_works N cfg"
  shows "\<exists>qp w'. dc_create N ctx port w = (Inr qp, w')"
proof -
  let ?b = "set_port_num N port (allow_remote_atomic N (allow_remote_rw N (builder_new N ctx)))"
  obtain raw w1 where b: "build_dc N ?b w = (Inr raw, w1)"
    using assms unfolding control_path_works_def by blast
  obtain qp w2 where "bring_up_dc N raw w1 = (Inr qp, w2)"
    using assms unfolding control_path_works_def by blast
  with b show ?thesis
    by (simp add: dc_create_def)
qed

lemma create_target_works:
  assumes "control_path_works N cfg"
  shows "\<exists>t m w'. create_target N ctx key port w = (Some t, w') \<and> tgt_dc_key N t = key \<and> get_datagram_meta N t = Some m"
proof -
  let ?b = "set_port_num N port (allow_remote_atomic N (allow_remote_rw N (builder_new N ctx)))"
  obtain t w1 where "build_dct N ?b key w = (Inr t, w1)" "tgt_dc_key N t = key" "get_datagram_meta N t \<noteq> None"
    using assms unfolding control_path_works_def by blast
  then show ?thesis
    by (auto simp: create_target_def)
qed

lemma pooled_qp_works:
  assumes "control_path_works N cfg" "0 < num_nics_used cfg" "length ctxs = unat (num_nics_used cfg)"
  shows "\<exists>y w'. pooled_qp N cfg ctxs i w = Some (y, w') \<and> snd y = i mod num_nics_used cfg"
proof -
  obtain r where r: "checked_rem i (num_nics_used cfg) = Some r" "r < num_nics_used cfg" "r = i mod num_nics_used cfg"
    using checked_rem_below [OF assms(2)] by blast
  obtain qp w' where "dc_create N (ctxs ! unat r) (default_nic_port cfg) w = (Inr qp, w')"
    using dc_create_works [OF assms(1)] by blast
  with r assms(3) show ?thesis
    by (auto simp: pooled_qp_def vec_get_def expect_ok_def word_less_nat_alt)
qed

lemma pooled_target_works:
  assumes "control_path_works N cfg" "0 < num_nics_used cfg" "length ctxs = unat (num_nics_used cfg)"
    and "unat i + 73 < 2 ^ 64"
  shows "\<exists>y w'. pooled_target N cfg ctxs i w = Some (y, w') \<and> tgt_dc_key N (dt_target y) = i + 73
    \<and> dt_nic_idx y < num_nics_used cfg \<and> dt_rkey y = ctx_rkey N (ctxs ! unat (dt_nic_idx y))"
proof -
  obtain r where r: "checked_rem i (num_nics_used cfg) = Some r" "r < num_nics_used cfg"
    using checked_rem_below [OF assms(2)] by blast
  obtain t m w' where "create_target N (ctxs ! unat r) (i + 73) (default_nic_port cfg) w = (Some t, w')"
    "tgt_dc_key N t = i + 73" "get_datagram_meta N t = Some m"
    using create_target_works [OF assms(1)] by blast
  with r assms(3,4) show ?thesis
    by (auto simp: pooled_target_def vec_get_def expect_def word_less_nat_alt checked_add_def)
qed

lemma list_all2_range:
  "list_all2 P (usize_range n) ys \<longleftrightarrow> length ys = unat n \<and> (\<forall>i < unat n. P (of_nat i) (ys ! i))"
  by (auto simp: list_all2_conv_all_nth)

lemma start_rdma_works:
  assumes "control_path_works N cfg" "unat (num_nics_used cfg) + 73 \<le> 2 ^ 64"
  shows "\<exists>g w'. start_rdma N cfg w = Some (Some g, w')
    \<and> length (rdma_contexts g) = unat (num_nics_used cfg) \<and> length (ud_service g) = unat (num_nics_used cfg)
    \<and> length (dc_target g) = unat (num_nics_used cfg) \<and> length (dc_target_meta g) = unat (num_nics_used cfg)
    \<and> map (listen_id N) (rdma_cm_service g) = map (\<lambda>i. SERVICE_ID_BASE + i) (usize_range (num_nics_used cfg))"
proof -
  let ?n = "num_nics_used cfg"
  obtain devs w0 where devs: "kdriver_create N w = (Some devs, w0)" "unat ?n \<le> length devs"
    using assms(1) unfolding control_path_works_def by blast
  have "\<exists>y w'. open_nic N devs i w = Some (y, w')" if "i \<in> set (usize_range ?n)" for i w
  proof -
    obtain c w' where "open_context N (devs ! unat i) w = (Some c, w')"
      using assms(1) unfolding control_path_works_def by blast
    then show ?thesis
      using that devs(2) by (simp add: open_nic_def vec_get_def expect_def word_less_nat_alt)
  qed
  from collect_length [of "usize_range ?n" "open_nic N devs" w0, OF this] obtain ctxs w1 where
    ctxs: "collect (open_nic N devs) (usize_range ?n) w0 = Some (ctxs, w1)" "length ctxs = unat ?n"
    unfolding length_usize_range by blast
  have "\<exists>y w'. Some (ud_service_create N w) = Some (y, w')" for w
    by (cases "ud_service_create N w") simp
  from collect_length [of "usize_range ?n" "\<lambda>_ w. Some (ud_service_create N w)" w1, OF this] obtain svs w2 where
    svs: "collect (\<lambda>_ w. Some (ud_service_create N w)) (usize_range ?n) w1 = Some (svs, w2)" "length svs = unat ?n"
    unfolding length_usize_range by blast
  have "\<exists>y w'. global_target N cfg ctxs i w = Some (y, w')" if "i \<in> set (usize_range ?n)" for i w
    using that ctxs(2) create_target_works [OF assms(1), of "ctxs ! unat i" GLOBAL_DC_KEY "default_nic_port cfg" w]
    by (auto simp: global_target_def vec_get_def expect_def word_less_nat_alt)
  from collect_length [of "usize_range ?n" "global_target N cfg ctxs" w2, OF this] obtain tgts w3 where
    tgts: "collect (global_target N cfg ctxs) (usize_range ?n) w2 = Some (tgts, w3)" "length tgts = unat ?n"
    unfolding length_usize_range by blast
  have "\<exists>y w'. start_cm N ctxs svs i w = Some (y, w') \<and> listen_id N y = SERVICE_ID_BASE + i"
    if "i \<in> set (usize_range ?n)" for i w
  proof -
    obtain cm w' where "cm_server_new N (SERVICE_ID_BASE + i) (svs ! unat i) (ctxs ! unat i) w = (Some cm, w')"
      "listen_id N cm = SERVICE_ID_BASE + i"
      using assms(1) unfolding control_path_works_def by blast
    then show ?thesis
      using that ctxs(2) svs(2) assms(2)
      by (simp add: start_cm_def vec_get_def expect_def word_less_nat_alt checked_add_def SERVICE_ID_BASE_def)
  qed
  from collect_total [of "usize_range ?n" "start_cm N ctxs svs" "\<lambda>i y. listen_id N y = SERVICE_ID_BASE + i" w3, OF this]
  obtain cms w4 where
    cms: "collect (start_cm N ctxs svs) (usize_range ?n) w3 = Some (cms, w4)"
    "list_all2 (\<lambda>i y. listen_id N y = SERVICE_ID_BASE + i) (usize_range ?n) cms"
    by blast
  have "map (listen_id N) cms = map (\<lambda>i. SERVICE_ID_BASE + i) (usize_range ?n)"
    using cms(2) by (intro nth_equalityI) (auto simp: list_all2_range)
  then show ?thesis
    using devs(1) ctxs svs tgts cms(1) by (simp add: start_rdma_def)
qed

text \<open>Numbers for a node with two NICs.\<close>

definition sim_ctl :: "(unit, u64, u64, u64, u64, unit, u64, unit, u64, u64) node_ctl" where
  "sim_ctl =
     \<lparr>builder_new = (\<lambda>c. c), allow_remote_rw = (\<lambda>b. b), allow_remote_atomic = (\<lambda>b. b), set_max_send_wr = (\<lambda>_ b. b),
      set_port_num = (\<lambda>_ b. b), build_ud = (\<lambda>b w. (Inr b, w)), bring_up_ud = (\<lambda>b w. (Inr b, w)),
      kdriver_create = (\<lambda>w. (Some [10, 20], w)), open_context = (\<lambda>d w. (Some d, w)), ctx_rkey = (\<lambda>c. ucast c),
      query_gid = (\<lambda>c _. Some (ucast c)), ud_service_create = (\<lambda>w. ((), w)), reg_qp = (\<lambda>_ _ _ w. w),
      cm_server_new = (\<lambda>i _ _ w. (Some i, w)), listen_id = (\<lambda>i. i), build_dc = (\<lambda>b w. (Inr b, w)),
      bring_up_dc = (\<lambda>b w. (Inr b, w)), qp_port_num = (\<lambda>_. 1), build_dct = (\<lambda>_ key w. (Inr key, w)), tgt_port_num = (\<lambda>_. 1),
      tgt_dc_key = (\<lambda>t. t), tgt_dct_num = (\<lambda>t. ucast t), tgt_ctx = (\<lambda>_. 0),
      get_datagram_meta = (\<lambda>t. Some \<lparr>dm_lid = 1, dm_gid = 2\<rparr>)\<rparr>"

definition two_nics :: Config where
  "two_nics = config_default\<lparr>num_nics_used := 2, max_core_cnt := 3, init_dc_targets := 4\<rparr>"

lemma sim_ctl_works: "control_path_works sim_ctl two_nics"
  by (simp add: control_path_works_def sim_ctl_def two_nics_def)

lemma dc_pool_works:
  assumes "control_path_works N cfg" "0 < num_nics_used cfg" "length ctxs = unat (num_nics_used cfg)"
  shows "\<exists>p w'. dc_pool_new N cfg ctxs w = Some (p, w') \<and> length (dc_pool p) = unat (max_core_cnt cfg)
    \<and> nic_idxs p = map (\<lambda>i. i mod num_nics_used cfg) (usize_range (max_core_cnt cfg))"
proof -
  obtain res w' where res: "collect (pooled_qp N cfg ctxs) (usize_range (max_core_cnt cfg)) w = Some (res, w')"
    "list_all2 (\<lambda>i y. snd y = i mod num_nics_used cfg) (usize_range (max_core_cnt cfg)) res"
    using collect_total [of "usize_range (max_core_cnt cfg)" "pooled_qp N cfg ctxs" "\<lambda>i y. snd y = i mod num_nics_used cfg" w]
      pooled_qp_works [OF assms] by blast
  then have "map snd res = map (\<lambda>i. i mod num_nics_used cfg) (usize_range (max_core_cnt cfg))"
    by (auto intro!: nth_equalityI simp: list_all2_range)
  with res show ?thesis
    by (simp add: dc_pool_new_def list_all2_range)
qed

lemma target_pool_works:
  assumes "control_path_works N cfg" "0 < num_nics_used cfg" "length ctxs = unat (num_nics_used cfg)"
    and "unat (init_dc_targets cfg) + 73 \<le> 2 ^ 64"
  shows "\<exists>ts w'. target_pool_new N cfg ctxs w = Some (ts, w')
    \<and> map (tgt_dc_key N \<circ> dt_target) ts = map (\<lambda>i. i + 73) (usize_range (init_dc_targets cfg))
    \<and> (\<forall>t \<in> set ts. dt_nic_idx t < num_nics_used cfg \<and> dt_rkey t = ctx_rkey N (ctxs ! unat (dt_nic_idx t)))"
proof -
  let ?P = "\<lambda>i t. tgt_dc_key N (dt_target t) = i + 73 \<and> dt_nic_idx t < num_nics_used cfg
    \<and> dt_rkey t = ctx_rkey N (ctxs ! unat (dt_nic_idx t))"
  have "\<exists>y w'. pooled_target N cfg ctxs i w = Some (y, w') \<and> ?P i y"
    if "i \<in> set (usize_range (init_dc_targets cfg))" for i w
    using that assms(4) by (intro pooled_target_works [OF assms(1-3)]) (simp add: word_less_nat_alt)
  from collect_total [of "usize_range (init_dc_targets cfg)" "pooled_target N cfg ctxs" ?P w, OF this]
  obtain ts w' where
    ts: "target_pool_new N cfg ctxs w = Some (ts, w')" "list_all2 ?P (usize_range (init_dc_targets cfg)) ts"
    unfolding target_pool_new_def by blast
  moreover have "map (tgt_dc_key N \<circ> dt_target) ts = map (\<lambda>i. i + 73) (usize_range (init_dc_targets cfg))"
    using ts(2) by (auto intro!: nth_equalityI simp: list_all2_range)
  moreover have "\<forall>t \<in> set ts. dt_nic_idx t < num_nics_used cfg \<and> dt_rkey t = ctx_rkey N (ctxs ! unat (dt_nic_idx t))"
    using ts(2) by (auto simp: list_all2_range in_set_conv_nth)
  ultimately show ?thesis
    by blast
qed

section \<open>Properties\<close>



end
