(* ===== verification/Fork_Service.thy ===== *)
theory Fork_Service
  imports Node_Startup Remote_Fork Rpc_Header
begin

text \<open>
  The parent's service: registered shadow processes with their serialised descriptors
  (mitosis/src/shadow_process_service.rs), the callbacks of the RPC server (rpc_handlers.rs), and the child's
  one-sided read of a descriptor (remote_paging.rs). The globals of the crate that a registration uses are
  the record \<open>fork_globals\<close>.
\<close>

section \<open>Registered processes\<close>

record ('r, 'mr, 'tgt) ProcessBundler =
  pb_process :: "'r ShadowProcess"
  serialized_buf :: "'mr UDMsg"
  serialized_buf_len :: nat
  bound_dc_targets :: "'tgt list"

type_synonym ('r, 'mr, 'tgt) ShadowProcessService = "u64 \<Rightarrow> ('r, 'mr, 'tgt) ProcessBundler option"

record ('r, 'c, 'mr, 'tgt) fork_globals =
  sp_service :: "('r, 'mr, 'tgt) ShadowProcessService"
  fg_mem_pool :: "('c, 'mr) MemPool"
  fg_targets :: "'tgt DCTargetPool"

text \<open>Whether the descriptor fitted into the buffer is not looked at.\<close>

definition process_bundler_new ::
  "('n, 'c, 'qp, 'mr, 'ep, 'e) ud_kit \<Rightarrow> nat \<Rightarrow> 'r descriptor_layouts \<Rightarrow> 'r ShadowProcess \<Rightarrow> 'tgt \<Rightarrow>
    ('c, 'mr) MemPool \<times> 'n world \<Rightarrow> (('r, 'mr, 'tgt) ProcessBundler \<times> ('c, 'mr) MemPool \<times> 'n world) option" where
  "process_bundler_new K max_kmalloc L process targets = (\<lambda>(p, w).
     do { let len = parent_buf_len L (descriptor process);
          (buf, p, w) \<leftarrow> pop_one K max_kmalloc (p, w);
          (m, _) \<leftarrow> parent_serialize L (w_mem w) (msg_bytes buf) (descriptor process);
          Some (\<lparr>pb_process = process, serialized_buf = buf, serialized_buf_len = len, bound_dc_targets = [targets]\<rparr>,
                p, w\<lparr>w_mem := m\<rparr>) })"

definition get_serialize_buf_sz :: "('r, 'mr, 'tgt) ProcessBundler \<Rightarrow> nat" where
  "get_serialize_buf_sz b = udmsg_len (serialized_buf b)"

definition sps_new :: "('r, 'mr, 'tgt) ShadowProcessService" where
  "sps_new = Map.empty"

definition query_descriptor_buf :: "('r, 'mr, 'tgt) ShadowProcessService \<Rightarrow> u64 \<Rightarrow> ('mr UDMsg \<times> nat) option" where
  "query_descriptor_buf sps key = map_option (\<lambda>b. (serialized_buf b, serialized_buf_len b)) (sps key)"

definition query_descriptor :: "('r, 'mr, 'tgt) ShadowProcessService \<Rightarrow> u64 \<Rightarrow> 'r ParentDescriptor option" where
  "query_descriptor sps key = map_option (\<lambda>b. descriptor (pb_process b)) (sps key)"

text \<open>
  The common body of the two registrations; \<open>shadow\<close> makes the shadow of the calling process. An
  empty target pool panics.
\<close>

type_synonym ('r, 'c, 'mr, 'tgt, 'n) fork_state = "('r, 'c, 'mr, 'tgt) fork_globals \<times> kstate \<times> 'n world"

definition add_myself ::
  "('n, 'c, 'b, 'raw, 'qp, 'cp, 'dev, 'sv, 'cm, 'tgt) node_ctl \<Rightarrow> ('n, 'c, 'qp, 'mr, 'ep, 'e) ud_kit \<Rightarrow> nat \<Rightarrow> 'r descriptor_layouts \<Rightarrow>
    u64 \<Rightarrow> (RDMADescriptor \<Rightarrow> kstate \<Rightarrow> ('r ShadowProcess \<times> kstate) option) \<Rightarrow> u64 \<Rightarrow>
    ('r, 'c, 'mr, 'tgt, 'n) fork_state \<Rightarrow> (nat option \<times> ('r, 'c, 'mr, 'tgt, 'n) fork_state) option" where
  "add_myself N K max_kmalloc L mac shadow key = (\<lambda>(g, ks, w).
     if sp_service g key \<noteq> None then Some (None, g, ks, w)
     else do { ((target, rdma), ts) \<leftarrow> new_from_dc_target_pool N mac (fg_targets g);
               (process, ks) \<leftarrow> shadow rdma ks;
               (bundler, p, w) \<leftarrow> process_bundler_new K max_kmalloc L process target (fg_mem_pool g, w);
               Some (Some (get_serialize_buf_sz bundler),
                     \<lparr>sp_service = (sp_service g)(key \<mapsto> bundler), fg_mem_pool = p, fg_targets = ts\<rparr>, ks, w) })"

definition add_myself_copy ::
  "('n, 'c, 'b, 'raw, 'qp, 'cp, 'dev, 'sv, 'cm, 'tgt) node_ctl \<Rightarrow> ('n, 'c, 'qp, 'mr, 'ep, 'e) ud_kit \<Rightarrow> nat \<Rightarrow> 'r descriptor_layouts \<Rightarrow>
    u64 \<Rightarrow> (u64 \<Rightarrow> u8 list option) \<Rightarrow> (u64 \<Rightarrow> u64) \<Rightarrow> (vm_area \<Rightarrow> u64 list) \<Rightarrow> 'r RegDescriptor \<Rightarrow> vm_area list \<Rightarrow> u64 \<Rightarrow>
    ('r, 'c, 'mr, 'tgt, 'n) fork_state \<Rightarrow> (nat option \<times> ('r, 'c, 'mr, 'tgt, 'n) fork_state) option" where
  "add_myself_copy N K max_kmalloc L mac user page_to_phy walk_range regs vs =
     add_myself N K max_kmalloc L mac (\<lambda>rdma. new_copy user page_to_phy walk_range regs rdma vs)"

definition add_myself_cow ::
  "('n, 'c, 'b, 'raw, 'qp, 'cp, 'dev, 'sv, 'cm, 'tgt) node_ctl \<Rightarrow> ('n, 'c, 'qp, 'mr, 'ep, 'e) ud_kit \<Rightarrow> nat \<Rightarrow> 'r descriptor_layouts \<Rightarrow>
    u64 \<Rightarrow> kconsts \<Rightarrow> (u64 \<Rightarrow> u64) \<Rightarrow> (vm_area \<Rightarrow> u64 list) \<Rightarrow> 'r RegDescriptor \<Rightarrow> vm_area list \<Rightarrow> u64 \<Rightarrow>
    ('r, 'c, 'mr, 'tgt, 'n) fork_state \<Rightarrow> (nat option \<times> ('r, 'c, 'mr, 'tgt, 'n) fork_state) option" where
  "add_myself_cow N K max_kmalloc L mac kc pte_page walk_range regs vs =
     add_myself N K max_kmalloc L mac (\<lambda>rdma. new_cow kc pte_page walk_range regs rdma vs)"

text \<open>Removing a process drops its shadow; its target and its buffer are not put back into their pools.\<close>

definition unregister :: "u64 \<Rightarrow> ('r, 'c, 'mr, 'tgt, 'n) fork_state \<Rightarrow> ('r, 'c, 'mr, 'tgt, 'n) fork_state" where
  "unregister key = (\<lambda>(g, ks, w).
     case sp_service g key of
       None \<Rightarrow> (g, ks, w)
     | Some b \<Rightarrow> (g\<lparr>sp_service := (sp_service g)(key := None)\<rparr>, shadow_drop (pb_process b) ks, w))"

section \<open>Callbacks\<close>

datatype RPCId = RpcNil | RpcEcho | RpcQuery

fun rpc_id_num :: "RPCId \<Rightarrow> u64" where
  "rpc_id_num RpcNil = 1"
| "rpc_id_num RpcEcho = 2"
| "rpc_id_num RpcQuery = 3"

definition handle_nil :: "'n world callback" where
  "handle_nil input out w = Some (64, w)"

definition ascii :: "string \<Rightarrow> u8 list" where
  "ascii s = map (\<lambda>c. of_nat (of_char c)) s"

definition handle_echo :: "'n world callback" where
  "handle_echo input out w =
     (case write_fmt (w_mem w) out [ascii ''Hello from MITOSIS''] of
        (m, ok) \<Rightarrow> do { require ok; Some (64, w\<lparr>w_mem := m\<rparr>) })"

record DescriptorLookupReply =
  dl_pa :: u64
  dl_sz :: u64
  dl_ready :: bool
  dl_rkey :: u32
  dl_lid :: u32
  dl_gid :: ib_gid
  dl_dct_num :: u32
  dl_dc_key :: u64

definition lookup_reply ::
  "('n, 'c, 'b, 'raw, 'qp, 'cp, 'dev, 'sv, 'cm, 'tgt) node_ctl \<Rightarrow> ('n, 'c, 'qp, 'mr, 'ep, 'e) ud_kit \<Rightarrow> 'tgt \<Rightarrow> DatagramMeta \<Rightarrow>
    'mr UDMsg \<Rightarrow> nat \<Rightarrow> DescriptorLookupReply" where
  "lookup_reply N K tgt m addr len =
     \<lparr>dl_pa = udmsg_get_pa K addr, dl_sz = of_nat len, dl_ready = True, dl_rkey = ctx_rkey N (tgt_ctx N tgt),
      dl_lid = ucast (dm_lid m), dl_gid = dm_gid m, dl_dct_num = tgt_dct_num N tgt, dl_dc_key = tgt_dc_key N tgt\<rparr>"

text \<open>
  The lookup of a descriptor on core \<open>cpu\<close>; \<open>sps_of\<close> reads the global service. The code tests for an
  unknown key twice; the second test, with its reply that is not ready, is never reached.
\<close>

definition handle_descriptor_addr_lookup ::
  "('n, 'c, 'b, 'raw, 'qp, 'cp, 'dev, 'sv, 'cm, 'tgt) node_ctl \<Rightarrow> ('n, 'c, 'qp, 'mr, 'ep, 'e) ud_kit \<Rightarrow> DescriptorLookupReply layout \<Rightarrow>
    u64 \<Rightarrow> ('c, 'sv, 'cm, 'tgt) rdma_globals \<Rightarrow> ('n \<Rightarrow> ('r, 'mr, 'tgt) ShadowProcessService) \<Rightarrow> 'n world callback" where
  "handle_descriptor_addr_lookup N K DL cpu rg sps_of input out w =
     (let (key, _) = memcpy_deserialize u64_layout (w_mem w) input 0
      in case query_descriptor_buf (sps_of (w_net w)) key of
           None \<Rightarrow> Some (0, w)
         | Some (addr, len) \<Rightarrow>
             do { i \<leftarrow> checked_rem cpu (of_nat (length (dc_target rg)));
                  tgt \<leftarrow> vec_get (dc_target rg) i;
                  m \<leftarrow> vec_get (dc_target_meta rg) i;
                  let reply = lookup_reply N K tgt m addr len;
                  let (mm, _) = serialize_default DL (w_mem w) out reply;
                  Some (serialization_buf_len_default DL reply, w\<lparr>w_mem := mm\<rparr>) })"

section \<open>Fetching a descriptor\<close>

text \<open>
  The buffer is memory of the kit \<open>K\<close>; the read is posted on the core's queue pair \<open>q\<close> of the kit \<open>KD\<close>.
  \<open>dma q m\<close> is the memory \<open>m\<close> as the processor sees it once the device is in state \<open>q\<close>. Both versions
  panic when the time is over, one by \<open>unimplemented!()\<close>, the other by unwrapping an error that is not there.
\<close>

definition remote_descriptor_fetch ::
  "('n, 'c, 'qp, 'mr, 'ep, 'e) ud_kit \<Rightarrow> ('q, 'dmr, 'dep, 'de) rdma_kit \<Rightarrow> ('q \<Rightarrow> mem \<Rightarrow> mem) \<Rightarrow>
    (u8 \<Rightarrow> u32 \<Rightarrow> ib_gid \<Rightarrow> u32 \<Rightarrow> u32 \<Rightarrow> u32 \<Rightarrow> u64 \<Rightarrow> 'dep option) \<Rightarrow> (u64 \<Rightarrow> u64) \<Rightarrow> ('t \<Rightarrow> int \<times> 't) \<Rightarrow> 't \<Rightarrow> 'c \<Rightarrow>
    DescriptorLookupReply \<Rightarrow> 'q \<times> 'n world \<Rightarrow> (('de rdma_err + 'mr UDMsg) \<times> 'q \<times> 'n world) option" where
  "remote_descriptor_fetch K KD dma endpoint phys_to_virt passed clock ctx d = (\<lambda>(q, w).
     do { (buf, w) \<leftarrow> udmsg_new K (unat (dl_sz d)) 0 ctx w;
          point \<leftarrow> endpoint 1 (dl_lid d) (dl_gid d) 0 0 (dl_dct_num d) (dl_dc_key d);
          (r, q) \<leftarrow> dc_read KD phys_to_virt q point (dl_pa d) (dl_rkey d) (udmsg_get_pa K buf) (unat (dl_sz d));
          (case r of
             Inl e \<Rightarrow> Some (Inl (DatapathError e), q, w)
           | Inr _ \<Rightarrow>
               do { (res, t) \<leftarrow> block_on (timeout_poll (dc_device_poll KD) passed) (timeout_new q clock (10 * TIMEOUT_USEC));
                    let q = t_value t;
                    let w = w\<lparr>w_mem := dma q (w_mem w)\<rparr>;
                    (case res of
                       Inr _ \<Rightarrow> Some (Inr buf, q, w)
                     | Inl Elapsed \<Rightarrow> None
                     | Inl (Inner e) \<Rightarrow> Some (Inl e, q, w)) }) })"

record DescriptorLookupReplyRC = DescriptorLookupReply +
  dl_rc_rkey :: u32

definition remote_descriptor_fetch_rc ::
  "('n, 'c, 'qp, 'mr, 'ep, 'e) ud_kit \<Rightarrow> ('q, 'dmr, 'dep, 'de) rdma_kit \<Rightarrow> ('q \<Rightarrow> mem \<Rightarrow> mem) \<Rightarrow> (u64 \<Rightarrow> u64) \<Rightarrow>
    ('t \<Rightarrow> int \<times> 't) \<Rightarrow> 't \<Rightarrow> 'c \<Rightarrow> u64 \<Rightarrow> u64 \<Rightarrow> u64 \<Rightarrow> DescriptorLookupReplyRC \<Rightarrow> 'q RCPool list \<times> 'n world \<Rightarrow>
    (('de rdma_err + 'mr UDMsg) \<times> 'q RCPool list \<times> 'n world) option" where
  "remote_descriptor_fetch_rc K KD dma phys_to_virt passed clock ctx max_caller_num cpu mac d = (\<lambda>(pools, w).
     do { sid \<leftarrow> calculate_session_id mac cpu max_caller_num;
          rc_pool \<leftarrow> vec_get pools cpu;
          q \<leftarrow> get_rc_conn rc_pool sid;
          (buf, w) \<leftarrow> udmsg_new K (unat (dl_sz d)) 0 ctx w;
          (r, q) \<leftarrow> rc_read KD phys_to_virt q (dl_pa d) (dl_rc_rkey d) (udmsg_get_pa K buf) (unat (dl_sz d));
          (case r of
             Inl e \<Rightarrow> Some (Inl (DatapathError e), vec_put pools cpu (rc_pool(sid \<mapsto> q)), w)
           | Inr _ \<Rightarrow>
               do { (res, t) \<leftarrow> block_on (timeout_poll (rc_device_poll KD) passed) (timeout_new q clock (10 * TIMEOUT_USEC));
                    let q = t_value t;
                    let pools = vec_put pools cpu (rc_pool(sid \<mapsto> q));
                    let w = w\<lparr>w_mem := dma q (w_mem w)\<rparr>;
                    (case res of
                       Inr _ \<Rightarrow> Some (Inr buf, pools, w)
                     | Inl Elapsed \<Rightarrow> None
                     | Inl (Inner e) \<Rightarrow> Some (Inl e, pools, w)) }) })"

section \<open>Registration\<close>

definition pool_ok :: "('n, 'c, 'qp, 'mr, 'ep, 'e) ud_kit \<Rightarrow> nat \<Rightarrow> ('c, 'mr) MemPool \<Rightarrow> bool" where
  "pool_ok K max_kmalloc p \<longleftrightarrow> 0 < mp_capacity p
     \<and> (\<forall>buf \<in> set (mp_pool p). msg_bytes buf = from_raw (unat (mr_virt K (msg_inner buf))) max_kmalloc)"

lemma fill_up_ok:
  assumes "\<forall>ctx n w. mr_new K ctx n w \<noteq> None" "pool_ok K mk p"
  shows "\<exists>bufs w'. fill_up K mk n (p, w) = Some (p\<lparr>mp_pool := mp_pool p @ bufs\<rparr>, w') \<and> length bufs = unat n
    \<and> pool_ok K mk (p\<lparr>mp_pool := mp_pool p @ bufs\<rparr>)"
proof -
  let ?P = "\<lambda>_ buf. msg_bytes buf = from_raw (unat (mr_virt K (msg_inner buf))) mk"
  have "\<exists>buf w'. udmsg_new K mk 0 (mp_context p) w = Some (buf, w') \<and> ?P x buf" for x :: u64 and w
  proof (cases "mr_new K (mp_context p) mk w")
    case None
    then show ?thesis
      using assms(1) by simp
  next
    case (Some r)
    then show ?thesis
      by (cases r) (simp add: udmsg_new_def)
  qed
  from collect_total [of "usize_range n" "\<lambda>_. udmsg_new K mk 0 (mp_context p)" ?P w, OF this]
  obtain bufs w' where "collect (\<lambda>_. udmsg_new K mk 0 (mp_context p)) (usize_range n) w = Some (bufs, w')"
    "list_all2 ?P (usize_range n) bufs"
    by blast
  then show ?thesis
    using assms(2) by (intro exI [of _ bufs]) (auto simp: fill_up_def pool_ok_def list_all2_range in_set_conv_nth)
qed

lemma pop_one_ok:
  assumes "\<forall>ctx n w. mr_new K ctx n w \<noteq> None" "pool_ok K mk p"
  shows "\<exists>buf p' w'. pop_one K mk (p, w) = Some (buf, p', w') \<and> pool_ok K mk p'
    \<and> msg_bytes buf = from_raw (unat (mr_virt K (msg_inner buf))) mk"
proof (cases "mp_pool p = []")
  case True
  obtain bufs w' where f: "fill_up K mk (mp_capacity p) (p, w) = Some (p\<lparr>mp_pool := bufs\<rparr>, w')"
    "length bufs = unat (mp_capacity p)" "pool_ok K mk (p\<lparr>mp_pool := bufs\<rparr>)"
    using fill_up_ok [OF assms, of "mp_capacity p" w] True by auto
  then have "bufs \<noteq> []"
    using assms(2) by (auto simp: pool_ok_def word_less_nat_alt)
  then show ?thesis
    using f True by (auto simp: pop_one_def mem_pool_is_empty_def mem_pool_len_def vec_pop_def pool_ok_def dest: in_set_butlastD)
next
  case False
  then show ?thesis
    using assms(2) by (auto simp: pop_one_def mem_pool_is_empty_def mem_pool_len_def vec_pop_def pool_ok_def dest: in_set_butlastD)
qed

lemma add_myself_registers:
  assumes "\<forall>ctx n w. mr_new K ctx n w \<noteq> None" "pool_ok K mk (fg_mem_pool g)" "sp_service g key = None"
    and "fg_targets g \<noteq> []" "\<And>rdma. \<exists>process ks'. shadow rdma ks = Some (process, ks')
      \<and> descriptor process = D rdma \<and> parent_valid L (D rdma) \<and> parent_buf_len L (D rdma) \<le> mk"
  shows "\<exists>g' ks' w' b rdma. add_myself N K mk L mac shadow key (g, ks, w) = Some (Some mk, g', ks', w')
    \<and> sp_service g' = (sp_service g)(key \<mapsto> b) \<and> fg_targets g' = butlast (fg_targets g) \<and> pool_ok K mk (fg_mem_pool g')
    \<and> mac_id rdma = mac \<and> descriptor (pb_process b) = D rdma
    \<and> serialized_buf_len b = parent_buf_len L (D rdma)
    \<and> msg_bytes (serialized_buf b) = from_raw (unat (mr_virt K (msg_inner (serialized_buf b)))) mk
    \<and> mem_has (w_mem w') (bm_ptr (msg_bytes (serialized_buf b))) (parent_wire L (D rdma))"
proof -
  obtain tgt rdma where t: "new_from_dc_target_pool N mac (fg_targets g) = Some ((tgt, rdma), butlast (fg_targets g))" "mac_id rdma = mac"
    using assms(4) that by (simp add: new_from_dc_target_pool_def target_pop_one_def vec_pop_def expect_def Let_def)
  obtain process ks' where sh: "shadow rdma ks = Some (process, ks')" "descriptor process = D rdma"
    "parent_valid L (D rdma)" "parent_buf_len L (D rdma) \<le> mk"
    using assms(5) by blast
  obtain buf p' w1 where pop: "pop_one K mk (fg_mem_pool g, w) = Some (buf, p', w1)" "pool_ok K mk p'"
    "msg_bytes buf = from_raw (unat (mr_virt K (msg_inner buf))) mk"
    using pop_one_ok [OF assms(1,2)] by blast
  let ?b = "\<lparr>pb_process = process, serialized_buf = buf, serialized_buf_len = parent_buf_len L (D rdma), bound_dc_targets = [tgt]\<rparr>"
  have "parent_serialize L (w_mem w1) (msg_bytes buf) (D rdma) =
      Some (mem_write (w_mem w1) (bm_ptr (msg_bytes buf)) (parent_wire L (D rdma)), True)"
    using sh(3,4) pop(3) by (intro parent_serialize_adv) (simp_all add: from_raw_def)
  then have "add_myself N K mk L mac shadow key (g, ks, w) =
      Some (Some mk, \<lparr>sp_service = (sp_service g)(key \<mapsto> ?b), fg_mem_pool = p', fg_targets = butlast (fg_targets g)\<rparr>, ks',
        w1\<lparr>w_mem := mem_write (w_mem w1) (bm_ptr (msg_bytes buf)) (parent_wire L (D rdma))\<rparr>)"
    using assms(3) t(1) sh(1,2) pop
    by (simp add: add_myself_def process_bundler_new_def get_serialize_buf_sz_def udmsg_len_def from_raw_def)
  then show ?thesis
    using t(2) sh(2) pop(2,3) by (intro exI [of _ ?b] exI [of _ rdma] exI [of _ ks'] exI) (auto simp: from_raw_def)
qed

section \<open>Reading a descriptor\<close>

text \<open>
  What a completed read leaves: the bytes of the other machine's memory \<open>rm\<close> (by physical address), in the
  local buffer. Reads complete within the time limit.
\<close>

definition dma_reads ::
  "('q, 'dmr, 'dep, 'de) rdma_kit \<Rightarrow> ('q \<Rightarrow> ('dmr \<times> u64) list) \<Rightarrow> ('q \<Rightarrow> mem \<Rightarrow> mem) \<Rightarrow> mem \<Rightarrow> bool" where
  "dma_reads KD waiting dma rm \<longleftrightarrow>
     (\<forall>q wc wcs q' mr ra ws a n m. poll_send_cq KD q = (Inr (wc # wcs), q') \<longrightarrow> wc_status wc = 0 \<longrightarrow> waiting q = (mr, ra) # ws \<longrightarrow>
        mr_new_from_raw KD a n = Some mr \<longrightarrow> mem_read (dma q' m) (unat a) n = mem_read rm (unat ra) n)"

definition reads_in_time ::
  "('q, 'dmr, 'dep, 'de) rdma_kit \<Rightarrow> ('q \<Rightarrow> ('dmr \<times> u64) list) \<Rightarrow> ('t \<Rightarrow> int \<times> 't) \<Rightarrow> 't \<Rightarrow> int \<Rightarrow> bool" where
  "reads_in_time KD waiting passed clock usec \<longleftrightarrow>
     (\<forall>q. waiting q \<noteq> [] \<longrightarrow> (\<exists>wc t. block_on (timeout_poll (dc_device_poll KD) passed) (timeout_new q clock usec) = Some (Inr wc, t)))"

lemma fetch_delivers:
  assumes fifo: "fifo_reads KD waiting (\<lambda>_ _. ()) (\<lambda>_. ())" and dma: "dma_reads KD waiting dma rm"
    and "waiting q = []" "reads_in_time KD waiting passed clock (10 * TIMEOUT_USEC)"
    and mr: "mr_new K ctx (unat (dl_sz d)) w = Some (mr, w1)" "phys_to_virt (mr_rdma_addr K mr) = mr_virt K mr"
    and "endpoint 1 (dl_lid d) (dl_gid d) 0 0 (dl_dct_num d) (dl_dc_key d) = Some ep"
    and dmr: "mr_new_from_raw KD (mr_virt K mr) (unat (dl_sz d)) = Some dmr"
    and "fst (post_send_dc_read KD q ep dmr (0, dl_sz d) True (dl_pa d) (dl_rkey d)) = Inr ()"
  shows "\<exists>buf q'. remote_descriptor_fetch K KD dma endpoint phys_to_virt passed clock ctx d (q, w) =
      Some (Inr buf, q', w1\<lparr>w_mem := dma q' (w_mem w1)\<rparr>)
    \<and> msg_bytes buf = from_raw (unat (mr_virt K mr)) (unat (dl_sz d)) \<and> waiting q' = []
    \<and> mem_read (dma q' (w_mem w1)) (bm_ptr (msg_bytes buf)) (unat (dl_sz d)) = mem_read rm (unat (dl_pa d)) (unat (dl_sz d))"
proof -
  obtain q1 where post: "post_send_dc_read KD q ep dmr (0, dl_sz d) True (dl_pa d) (dl_rkey d) = (Inr (), q1)"
    using assms(9) by (cases "post_send_dc_read KD q ep dmr (0, dl_sz d) True (dl_pa d) (dl_rkey d)") simp
  have q1: "waiting q1 = [(dmr, dl_pa d)]"
    using fifo_post [OF fifo post] assms(3) by simp
  then obtain wc t where wait: "block_on (timeout_poll (dc_device_poll KD) passed) (timeout_new q1 clock (10 * TIMEOUT_USEC)) = Some (Inr wc, t)"
    using assms(4) unfolding reads_in_time_def by (metis list.distinct(1))
  let ?J = "\<lambda>s. waiting s = [(dmr, dl_pa d)]"
  have "?J (t_value (timeout_new q1 clock (10 * TIMEOUT_USEC)))"
    using q1 by (simp add: timeout_new_def)
  then obtain s0 where s0: "?J s0" "dc_device_poll KD s0 = (Inr (Ready wc), t_value t)"
    using timeout_ready [OF wait, of ?J] fifo_idle(1) [OF fifo] by metis
  obtain wcs where p: "poll_send_cq KD s0 = (Inr (wc # wcs), t_value t)" "wc_status wc = 0"
    using s0(2) by (auto simp: dc_device_poll_def dc_poll_def checked_completion_def
        split: prod.splits sum.splits Async.splits list.splits if_splits)
  have "mem_read (dma (t_value t) (w_mem w1)) (unat (mr_virt K mr)) (unat (dl_sz d)) = mem_read rm (unat (dl_pa d)) (unat (dl_sz d))"
    using dma p s0(1) dmr unfolding dma_reads_def by blast
  moreover have "waiting (t_value t) = []"
    using fifo_complete [OF fifo s0(2)] s0(1) by auto
  ultimately show ?thesis
    using mr assms(7) dmr post wait
    by (simp add: remote_descriptor_fetch_def udmsg_new_def dc_read_def udmsg_get_pa_def Let_def from_raw_def)
qed

section \<open>Lookups\<close>

lemma lookup_unknown:
  assumes "mem_has (w_mem w) (bm_ptr input) (to_raw u64_layout key)" "8 \<le> bm_len input" "sps_of (w_net w) key = None"
  shows "handle_descriptor_addr_lookup N K DL cpu rg sps_of input out w = Some (0, w)"
  using assms
  by (simp add: handle_descriptor_addr_lookup_def memcpy_deserialize_def query_descriptor_buf_def
      u64l.read_has [unfolded u64_size])

lemma lookup_known:
  assumes "mem_has (w_mem w) (bm_ptr input) (to_raw u64_layout key)" "8 \<le> bm_len input" "sps_of (w_net w) key = Some b"
    and "dc_target rg \<noteq> []" "length (dc_target_meta rg) = length (dc_target rg)" "length (dc_target rg) < 2 ^ 64"
    and "size_of DL \<le> bm_len out"
  shows "\<exists>reply. handle_descriptor_addr_lookup N K DL cpu rg sps_of input out w =
      Some (size_of DL, w\<lparr>w_mem := mem_write (w_mem w) (bm_ptr out) (to_raw DL reply)\<rparr>)
    \<and> dl_ready reply \<and> dl_pa reply = udmsg_get_pa K (serialized_buf b) \<and> dl_sz reply = of_nat (serialized_buf_len b)
    \<and> (\<exists>tgt \<in> set (dc_target rg). dl_dct_num reply = tgt_dct_num N tgt \<and> dl_dc_key reply = tgt_dc_key N tgt
         \<and> dl_rkey reply = ctx_rkey N (tgt_ctx N tgt))"
proof -
  let ?n = "length (dc_target rg)" and ?i = "cpu mod of_nat (length (dc_target rg))"
  have n: "unat (of_nat ?n :: u64) = ?n" "(of_nat ?n :: u64) \<noteq> 0"
    using assms(4,6) by (simp_all add: unat_of_nat unat_eq_0 [symmetric])
  then have i: "unat ?i < ?n"
    using assms(4) by (simp add: unat_mod)
  then have "vec_get (dc_target rg) ?i = Some (dc_target rg ! unat ?i)" "vec_get (dc_target_meta rg) ?i = Some (dc_target_meta rg ! unat ?i)"
    "dc_target rg ! unat ?i \<in> set (dc_target rg)"
    using assms(5) by (simp_all add: vec_get_def)
  moreover have "memcpy_deserialize u64_layout (w_mem w) input 0 = (key, Some 8)"
    using assms(1,2) by (simp add: memcpy_deserialize_def u64l.read_has [unfolded u64_size])
  ultimately show ?thesis
    using n(2) assms(3,7)
    by (intro exI [of _ "lookup_reply N K (dc_target rg ! unat ?i) (dc_target_meta rg ! unat ?i) (serialized_buf b) (serialized_buf_len b)"])
      (auto simp: handle_descriptor_addr_lookup_def query_descriptor_buf_def checked_rem_def lookup_reply_def
        serialize_default_def memcpy_serialize_def serialization_buf_len_default_def)
qed

section \<open>A sample node\<close>

text \<open>Every allocation is at the same address, the global state is the service, and there are two targets.\<close>

definition lone_ud :: "('n, u64, u64, u64, nat, unit) ud_kit" where
  "lone_ud =
     \<lparr>mr_new = (\<lambda>_ n w. Some (0x10000, w)), mr_virt = (\<lambda>a. a), mr_rdma_addr = (\<lambda>a. a), mr_capacity = (\<lambda>_. 4096), qp_ctx = (\<lambda>q. q),
      post_datagram = (\<lambda>_ _ _ _ _ _ w. (Inr (), w)), poll_ud_send = (\<lambda>_ w. (Inr [], w)),
      post_recv = (\<lambda>_ _ _ _ w. (Inr (), w)), poll_recv_cq = (\<lambda>_ w. (Inr [], w))\<rparr>"

definition lone_ctl :: "('n, u64, u64, u64, u64, unit, u64, unit, u64, u64) node_ctl" where
  "lone_ctl =
     \<lparr>builder_new = (\<lambda>c. c), allow_remote_rw = (\<lambda>b. b), allow_remote_atomic = (\<lambda>b. b), set_max_send_wr = (\<lambda>_ b. b),
      set_port_num = (\<lambda>_ b. b), build_ud = (\<lambda>b w. (Inr b, w)), bring_up_ud = (\<lambda>b w. (Inr b, w)),
      kdriver_create = (\<lambda>w. (Some [10], w)), open_context = (\<lambda>d w. (Some d, w)), ctx_rkey = (\<lambda>c. ucast c),
      query_gid = (\<lambda>c _. Some (ucast c)), ud_service_create = (\<lambda>w. ((), w)), reg_qp = (\<lambda>_ _ _ w. w),
      cm_server_new = (\<lambda>i _ _ w. (Some i, w)), listen_id = (\<lambda>i. i), build_dc = (\<lambda>b w. (Inr b, w)),
      bring_up_dc = (\<lambda>b w. (Inr b, w)), qp_port_num = (\<lambda>_. 1), build_dct = (\<lambda>_ key w. (Inr key, w)), tgt_port_num = (\<lambda>_. 1),
      tgt_dc_key = (\<lambda>t. t), tgt_dct_num = (\<lambda>t. ucast t), tgt_ctx = (\<lambda>_. 10),
      get_datagram_meta = (\<lambda>t. Some \<lparr>dm_lid = 1, dm_gid = 2\<rparr>)\<rparr>"

definition sample_rdma :: "(u64, unit, u64, u64) rdma_globals" where
  "sample_rdma = \<lparr>rdma_contexts = [10], ud_service = [()], dc_target = [73], dc_target_meta = [\<lparr>dm_lid = 1, dm_gid = 2\<rparr>], rdma_cm_service = [73]\<rparr>"

definition sample_globals :: "(u64, u64, u64, u64) fork_globals" where
  "sample_globals =
     \<lparr>sp_service = Map.empty, fg_mem_pool = \<lparr>mp_pool = [], mp_capacity = 1, mp_context = 10\<rparr>,
      fg_targets = [\<lparr>dt_target = 74, dt_nic_idx = 0, dt_rkey = 10, dt_meta = \<lparr>dm_lid = 1, dm_gid = 2\<rparr>\<rparr>]\<rparr>"

definition reply_layout :: "DescriptorLookupReply layout" where
  "reply_layout = struct_layout
     (\<lambda>d. (dl_pa d, dl_sz d, dl_ready d, dl_rkey d, dl_lid d, dl_gid d, dl_dct_num d, dl_dc_key d))
     (\<lambda>(pa, sz, rd, rk, l, g, dn, dk). \<lparr>dl_pa = pa, dl_sz = sz, dl_ready = rd, dl_rkey = rk, dl_lid = l, dl_gid = g, dl_dct_num = dn, dl_dc_key = dk\<rparr>)
     (pair_layout u64_layout (pair_layout u64_layout (pair_layout bool_layout (pair_layout u32_layout
       (pair_layout u32_layout (pair_layout word_layout (pair_layout u32_layout u64_layout)))))))"

lemma wf_reply_layout [simp]: "wf_layout reply_layout"
  unfolding reply_layout_def by (intro wf_struct_layout wf_pair_layout) (simp_all add: wf_word_layout wf_bool_layout)

lemma reply_layout_size: "size_of reply_layout = 53"
  by (simp add: reply_layout_def struct_layout_def pair_layout_def word_layout_def bool_layout_def)

lemma sample_cow_valid:
  "parent_valid packed_layouts (cow_descriptor x86_consts pages_between (pd_regs sample_parent) rdma [text_area, heap_area] sample_kstate)"
  by (simp add: parent_valid_def wf_packed_layouts cpt_valid_def cow_descriptor_def cow_table_def sample_present)

lemma sample_cow_len:
  "parent_buf_len packed_layouts (cow_descriptor x86_consts pages_between (pd_regs sample_parent) rdma [text_area, heap_area] sample_kstate) \<le> 400"
  by (simp add: parent_buf_len_def packed_layouts_def cow_descriptor_def cow_table_def sample_present
      serialization_buf_len_default_def vma_pg_table_serialization_buf_len_def
      cpt_buf_len_def table_len_def struct_layout_def pair_layout_def word_layout_def bool_layout_def)

section \<open>Properties\<close>



end
