(* ===== verification/Page_Fault.thy ===== *)
theory Page_Fault
  imports Prefetcher Child_Descriptor
begin

text \<open>
  The child at run time: mitosis/src/descriptors/child.rs (applying a descriptor to a process, reading
  pages in batches), the page fault handler of mitosis/src/core_syscall_handler.rs and the cache of page
  tables, mitosis/src/remote_pt_cache.rs. The kernel's mapping functions are arguments. Cargo features
  that choose between two bodies are arguments too: \<open>page_cache\<close> is a Boolean, and the fault handler
  takes the \<open>read_remote_page\<close> in use, with or without prefetching, as \<open>rd\<close>.
\<close>

section \<open>Reading a batch of pages\<close>

text \<open>
  One round of the loop over the addresses; \<open>n\<close> is their number. Only the last request is signaled and
  waited for. An error of the post is only logged, and the entry goes to the device as it is.
\<close>

definition batch_step ::
  "('q, 'mr, 'ep, 'e) rdma_kit \<Rightarrow> (u64 \<Rightarrow> u64) \<Rightarrow> ('t \<Rightarrow> int \<times> 't) \<Rightarrow> 't \<Rightarrow> page_indices \<Rightarrow> (u64 \<Rightarrow> bool) \<Rightarrow>
    Heap \<Rightarrow> RemotePageTable \<Rightarrow> 'ep AccessInfo \<Rightarrow> nat \<Rightarrow> nat \<times> u64 \<Rightarrow>
    u64 option list \<times> 'q \<times> kstate \<Rightarrow> (u64 option list \<times> 'q \<times> kstate) option" where
  "batch_step K page_to_virt passed clock X C h t ai n iva st =
     (case (iva, st) of ((i, remote_va), (res, q, ks)) \<Rightarrow>
        do { require (C remote_va);
             r \<leftarrow> translate X h t remote_va;
             (case r of
                None \<Rightarrow> Some (res @ [None], q, ks)
              | Some src \<Rightarrow>
                  do { let (new_page, ks) = pmem_alloc_page ks;
                       let signaled = (i = n - 1);
                       mr \<leftarrow> mr_new_from_raw K (page_to_virt new_page) 4096;
                       let (_, q) = dc_post K q (dc_payload_new mr (0, 4096) signaled READ (ai_rkey ai) src (access_handler ai));
                       (if i = n - 1 then
                          do { (r, tm) \<leftarrow> block_on (timeout_poll (dc_poll K) passed) (timeout_new q clock TIMEOUT_USEC);
                               Some (case r of
                                       Inr _ \<Rightarrow> (res @ [Some new_page], t_value tm, ks)
                                     | Inl _ \<Rightarrow> (res @ [None], t_value tm, pmem_free_page new_page ks)) }
                        else Some (res @ [Some new_page], q, ks)) }) })"

definition batch_read_remote_pages ::
  "('q, 'mr, 'ep, 'e) rdma_kit \<Rightarrow> (u64 \<Rightarrow> u64) \<Rightarrow> ('t \<Rightarrow> int \<times> 't) \<Rightarrow> 't \<Rightarrow> page_indices \<Rightarrow> (u64 \<Rightarrow> bool) \<Rightarrow>
    Heap \<Rightarrow> RemotePageTable \<Rightarrow> 'ep AccessInfo \<Rightarrow> u64 list \<Rightarrow> 'q \<times> kstate \<Rightarrow> (u64 option list \<times> 'q \<times> kstate) option" where
  "batch_read_remote_pages K page_to_virt passed clock X C h t ai addr_list st =
     foldo (batch_step K page_to_virt passed clock X C h t ai (length addr_list)) (enumerate 0 addr_list) ([], st)"

text \<open>
  Eager fetching of an area, twelve addresses at a time. \<open>rd\<close> reads a batch. What the area gets is its
  protection word, the pages inserted at addresses, and the set of pages to free at exit.
\<close>

record eager_area =
  ea_pgprot :: u64
  ea_inserted :: "(u64 \<times> u64) list"
  eager_fetched_pages :: "u64 set"

definition insert_page :: "u64 \<times> u64 option \<Rightarrow> eager_area \<Rightarrow> eager_area" where
  "insert_page ap v =
     (case ap of
        (a, None) \<Rightarrow> v
      | (a, Some p) \<Rightarrow>
          \<lparr>ea_pgprot = ea_pgprot v OR push_bit 52 1, ea_inserted = ea_inserted v @ [(a, p)],
           eager_fetched_pages = insert p (eager_fetched_pages v)\<rparr>)"

definition fetch_batch ::
  "(u64 list \<Rightarrow> 's \<Rightarrow> (u64 option list \<times> 's) option) \<Rightarrow> u64 list \<Rightarrow> eager_area \<times> 's \<Rightarrow> (eager_area \<times> 's) option" where
  "fetch_batch rd addr_buf = (\<lambda>(v, s).
     do { (page_list, s) \<leftarrow> rd addr_buf s;
          Some (fold insert_page (zip addr_buf page_list) v, s) })"

fun eager_loop ::
  "(u64 list \<Rightarrow> 's \<Rightarrow> (u64 option list \<times> 's) option) \<Rightarrow> u64 list \<Rightarrow> u64 list \<Rightarrow> eager_area \<times> 's \<Rightarrow> (eager_area \<times> 's) option" where
  "eager_loop rd [] addr_buf st = (if addr_buf \<noteq> [] then fetch_batch rd addr_buf st else Some st)"
| "eager_loop rd (addr # addrs) addr_buf st =
     (let addr_buf = (if length addr_buf < 12 then addr_buf @ [addr] else addr_buf)
      in if length addr_buf = 12
         then do { st \<leftarrow> fetch_batch rd addr_buf st; eager_loop rd addrs [] st }
         else eager_loop rd addrs addr_buf st)"

text \<open>\<open>(start..start + size).step_by(4096)\<close>; the end of the range is computed with an overflow check.\<close>

definition page_steps :: "u64 \<Rightarrow> u64 \<Rightarrow> u64 list option" where
  "page_steps start sz =
     do { e \<leftarrow> checked_add start sz;
          Some (map (\<lambda>k. start + of_nat (4096 * k)) [0..<(unat sz + 4095) div 4096]) }"

definition eager_fetch_vma ::
  "(u64 list \<Rightarrow> 's \<Rightarrow> (u64 option list \<times> 's) option) \<Rightarrow> VMADescriptor \<Rightarrow> eager_area \<times> 's \<Rightarrow> (eager_area \<times> 's) option" where
  "eager_fetch_vma rd vma_des st =
     do { sz \<leftarrow> get_sz vma_des;
          addrs \<leftarrow> page_steps (get_start vma_des) sz;
          eager_loop rd addrs [] st }"

section \<open>Applying a descriptor\<close>

record 'r process =
  areas :: "vm_area list"
  proc_regs :: "'r RegDescriptor"

definition unmap_self :: "(vm_area list \<Rightarrow> u64 \<Rightarrow> u64 \<Rightarrow> vm_area list) \<Rightarrow> 'r process \<Rightarrow> 'r process option" where
  "unmap_self munmap p =
     do { vs \<leftarrow> foldo (\<lambda>v vs. do { sz \<leftarrow> area_get_sz v; Some (munmap vs (vm_start v) sz) }) (areas p) (areas p);
          Some (p\<lparr>areas := vs\<rparr>) }"

definition set_mm_reg_states :: "'r RegDescriptor \<Rightarrow> 'r process \<Rightarrow> 'r process" where
  "set_mm_reg_states regs p = p\<lparr>proc_regs := regs\<rparr>"

text \<open>
  The loop over the areas without eager fetching. \<open>mmap\<close> gives the kernel's answer and the areas after the
  call; the area it made is updated in place through the pointer \<open>find_vma\<close> returns.
\<close>

definition put_area :: "vm_area \<Rightarrow> vm_area list \<Rightarrow> vm_area list" where
  "put_area a vs = map (\<lambda>v. if vm_start v = vm_start a then a else v) vs"

fun map_regions ::
  "kconsts \<Rightarrow> (vm_area list \<Rightarrow> u64 \<Rightarrow> u64 \<Rightarrow> u64 \<Rightarrow> u64 \<times> vm_area list) \<Rightarrow> (vm_area list \<Rightarrow> u64 \<Rightarrow> vm_area option) \<Rightarrow>
    VMADescriptor list \<Rightarrow> vm_area list \<Rightarrow> vm_area list option" where
  "map_regions K mmap find_vma [] vs = Some vs"
| "map_regions K mmap find_vma (m # ms) vs =
     do { let next_vma = (case ms of [] \<Rightarrow> None | n # _ \<Rightarrow> Some n);
          len \<leftarrow> region_len m next_vma;
          r \<leftarrow> map_one_region K (mmap vs) find_vma False m next_vma;
          vma \<leftarrow> r;
          let vma = (if flags_contain (vm_flags m) VM_ALLOC then set_alloc vma else vma);
          map_regions K mmap find_vma ms (put_area vma (snd (mmap vs (get_start m) len (get_mmap_flags K m)))) }"

definition apply_to ::
  "kconsts \<Rightarrow> (vm_area list \<Rightarrow> u64 \<Rightarrow> u64 \<Rightarrow> vm_area list) \<Rightarrow> (vm_area list \<Rightarrow> u64 \<Rightarrow> u64 \<Rightarrow> u64 \<Rightarrow> u64 \<times> vm_area list) \<Rightarrow>
    (vm_area list \<Rightarrow> u64 \<Rightarrow> vm_area option) \<Rightarrow>
    (u8 \<Rightarrow> u32 \<Rightarrow> ib_gid \<Rightarrow> u32 \<Rightarrow> u32 \<Rightarrow> u32 \<Rightarrow> u64 \<Rightarrow> 'ep option) \<Rightarrow> 'r ChildDescriptor \<Rightarrow> 'r process \<Rightarrow> 'r process option" where
  "apply_to K munmap mmap find_vma endpoint d p =
     do { p \<leftarrow> unmap_self munmap p;
          access_info \<leftarrow> access_info_new endpoint (cd_machine_info d);
          vs \<leftarrow> map_regions K mmap find_vma (cd_vma d) (areas p);
          Some (set_mm_reg_states (cd_regs d) (p\<lparr>areas := vs\<rparr>)) }"

section \<open>The cache of page tables\<close>

type_synonym RemotePageTableCache = "u64 \<Rightarrow> RemotePageTable option"

definition gen_cache_key :: "u64 \<Rightarrow> u64 \<Rightarrow> u64" where
  "gen_cache_key remote_mac_id handler_id = handler_id"

definition cache_lookup :: "u64 \<Rightarrow> u64 \<Rightarrow> RemotePageTableCache \<Rightarrow> RemotePageTable option" where
  "cache_lookup remote_mac_id handler_id store = store (gen_cache_key remote_mac_id handler_id)"

definition cache_insert :: "u64 \<Rightarrow> u64 \<Rightarrow> RemotePageTable \<Rightarrow> RemotePageTableCache \<Rightarrow> RemotePageTableCache" where
  "cache_insert remote_mac_id handler_id t store = store(gen_cache_key remote_mac_id handler_id \<mapsto> t)"

definition cache_num :: "RemotePageTableCache \<Rightarrow> nat" where
  "cache_num store = card (dom store)"

text \<open>
  At exit the table of the child is copied into the cache; a table that was there under the key is
  dropped, which frees its nodes and the prefetched pages it still holds.
\<close>

definition cache_my_pt ::
  "u64 \<Rightarrow> u64 \<Rightarrow> RemotePageTable \<Rightarrow> Heap \<times> RemotePageTableCache \<times> kstate \<Rightarrow> (Heap \<times> RemotePageTableCache \<times> kstate) option" where
  "cache_my_pt remote_mac_id handler_id t st =
     (case st of (h, store, ks) \<Rightarrow>
        do { (t', h) \<leftarrow> rpt_copy h t;
             (ps, h) \<leftarrow> (case cache_lookup remote_mac_id handler_id store of
                         None \<Rightarrow> Some ([], h)
                       | Some old \<Rightarrow> rpt_drop h old);
             Some (h, cache_insert remote_mac_id handler_id t' store, fold pmem_free_page ps ks) })"

section \<open>Page faults\<close>

record ('q, 'ep) child_state =
  cs_heap :: Heap
  cs_table :: RemotePageTable
  cs_ks :: kstate
  cs_q :: 'q
  cs_pf :: "('q, 'ep) DCAsyncPrefetcher"

type_synonym ('q, 'ep) page_reader = "u64 \<Rightarrow> ('q, 'ep) child_state \<Rightarrow> (u64 option \<times> ('q, 'ep) child_state) option"

text \<open>The two bodies of \<open>read_remote_page\<close> on the state of the handler.\<close>

definition read_plain ::
  "('q, 'mr, 'ep, 'e) rdma_kit \<Rightarrow> (u64 \<Rightarrow> u64) \<Rightarrow> (u64 \<Rightarrow> u64) \<Rightarrow> ('t \<Rightarrow> int \<times> 't) \<Rightarrow> 't \<Rightarrow> page_indices \<Rightarrow> (u64 \<Rightarrow> bool) \<Rightarrow>
    'ep AccessInfo \<Rightarrow> ('q, 'ep) page_reader" where
  "read_plain K phys_to_virt page_to_phy passed clock X C ai va s =
     do { (p, q, ks) \<leftarrow> read_remote_page K phys_to_virt page_to_phy passed clock X C (cs_heap s) (cs_table s) va ai (cs_q s) (cs_ks s);
          Some (p, s\<lparr>cs_q := q, cs_ks := ks\<rparr>) }"

definition read_ahead ::
  "('q, 'mr, 'ep, 'e) rdma_kit \<Rightarrow> (u64 \<Rightarrow> u64) \<Rightarrow> ('t \<Rightarrow> int \<times> 't) \<Rightarrow> 't \<Rightarrow> nat \<Rightarrow> page_indices \<Rightarrow> (u64 \<Rightarrow> bool) \<Rightarrow>
    'ep AccessInfo \<Rightarrow> ('q, 'ep) page_reader" where
  "read_ahead K page_to_virt passed clock n X C ai va s =
     do { (p, q, h, ks, pf) \<leftarrow> read_remote_page_prefetch K page_to_virt passed clock n X C (cs_table s) va ai (cs_q s) (cs_heap s, cs_ks s, cs_pf s);
          Some (p, s\<lparr>cs_q := q, cs_heap := h, cs_ks := ks, cs_pf := pf\<rparr>) }"

text \<open>A hit in the page cache: a read-only page is shared, another one is copied.\<close>

definition cached_page :: "u64 \<Rightarrow> kstate \<Rightarrow> u64 \<times> kstate" where
  "cached_page phys_addr ks =
     (let page = \<lparr>page_p = convert_to_page phys_addr, raw = True\<rparr>
      in if is_ro phys_addr then (page_p page, increase_ref_count page ks)
         else (let (new_page, ks) = pmem_alloc_page ks in (new_page, copy_page_content_4k new_page (page_p page) ks)))"

text \<open>A page that was just read is put into the table for later children.\<close>

definition remember_page :: "page_indices \<Rightarrow> (u64 \<Rightarrow> bool) \<Rightarrow> u64 \<Rightarrow> u64 \<Rightarrow> ('q, 'ep) child_state \<Rightarrow> ('q, 'ep) child_state option" where
  "remember_page X C va page s =
     do { let ks = increase_ref_count \<lparr>page_p = page, raw = True\<rparr> (cs_ks s);
          let kernel_va = encode page (flag_bits Cache);
          require (C va);
          (t, h) \<leftarrow> force_map X (cs_heap s) (cs_table s) va kernel_va;
          Some (s\<lparr>cs_ks := ks, cs_table := t, cs_heap := h\<rparr>) }"

text \<open>The end of the handler when no page was read: an anonymous area of the descriptor gets a new page.\<close>

definition no_page :: "VMADescriptor list \<Rightarrow> u64 \<Rightarrow> ('q, 'ep) child_state \<Rightarrow> (u64 option \<times> ('q, 'ep) child_state) option" where
  "no_page vmas vma_start s =
     (if \<exists>vd \<in> set vmas. vm_is_anonymous vd \<and> vma_start = get_start vd
      then (let (p, ks) = pmem_alloc_page (cs_ks s) in Some (Some p, s\<lparr>cs_ks := ks\<rparr>))
      else Some (None, s))"

text \<open>
  The handler for a fault at \<open>va\<close> in the area that starts at \<open>vma_start\<close>: \<open>Some page\<close> is the return code 0
  with the page in the fault descriptor, \<open>None\<close> the code SIGSEGV.
\<close>

definition handle_page_fault ::
  "bool \<Rightarrow> ('q, 'ep) page_reader \<Rightarrow> page_indices \<Rightarrow> (u64 \<Rightarrow> bool) \<Rightarrow> VMADescriptor list \<Rightarrow> u64 \<Rightarrow> ('q, 'ep) page_reader" where
  "handle_page_fault page_cache rd X C vmas vma_start va s =
     do { require (C va);
          phy_addr \<leftarrow> translate X (cs_heap s) (cs_table s) va;
          (new_page, miss, s) \<leftarrow>
            (case phy_addr of
               None \<Rightarrow> Some (None, False, s)
             | Some pa \<Rightarrow>
                 if page_cache \<and> is_cache pa
                 then (let (p, ks) = cached_page pa (cs_ks s) in Some (Some p, False, s\<lparr>cs_ks := ks\<rparr>))
                 else do { (p, s) \<leftarrow> rd va s; Some (p, page_cache, s) });
          (case new_page of
             Some p \<Rightarrow>
               if miss then do { s \<leftarrow> remember_page X C va p s; Some (Some p, s) } else Some (Some p, s)
           | None \<Rightarrow> no_page vmas vma_start s) }"

section \<open>Batches\<close>

function batches :: "'a list \<Rightarrow> 'a list list" where
  "batches xs = (if xs = [] then [] else take 12 xs # batches (drop 12 xs))"
  by pat_completeness auto
termination by (relation "measure length") auto

declare batches.simps [simp del]

lemma batches_Nil [simp]: "batches [] = []"
  by (simp add: batches.simps)

lemma batches_concat: "concat (batches xs) = xs"
proof (induction xs rule: batches.induct)
  case (1 xs)
  then show ?case
    by (subst batches.simps) simp
qed

lemma batches_sizes: "b \<in> set (batches xs) \<Longrightarrow> b \<noteq> [] \<and> length b \<le> 12"
proof (induction xs rule: batches.induct)
  case (1 xs)
  show ?case
    using 1 by (subst (asm) batches.simps) (auto split: if_splits)
qed

lemma batches_full: "length b = 12 \<Longrightarrow> batches (b @ xs) = b # batches xs"
  by (subst batches.simps) auto

lemma batches_short: "b \<noteq> [] \<Longrightarrow> length b < 12 \<Longrightarrow> batches b = [b]"
  by (subst batches.simps) (simp add: batches.simps)

lemma eager_loop_batches:
  "length b < 12 \<Longrightarrow> eager_loop rd xs b st = foldo (fetch_batch rd) (batches (b @ xs)) st"
proof (induction rd xs b st rule: eager_loop.induct)
  case (1 rd b st)
  then show ?case
    by (cases "fetch_batch rd b st") (simp_all add: batches_short)
next
  case (2 rd x xs b st)
  show ?case
  proof (cases "length (b @ [x]) = 12")
    case True
    then have "eager_loop rd (x # xs) b st = do { st \<leftarrow> fetch_batch rd (b @ [x]) st; foldo (fetch_batch rd) (batches xs) st }"
      using "2.IH"(1) [of "b @ [x]"] "2.prems" by (simp cong: Option.bind_cong)
    moreover have "batches (b @ x # xs) = (b @ [x]) # batches xs"
      using batches_full [OF True, of xs] by simp
    ultimately show ?thesis
      by simp
  next
    case False
    then show ?thesis
      using "2.IH"(2) [of "b @ [x]"] "2.prems" by simp
  qed
qed

text \<open>No request before the last one polls: the outcome does not depend on the completion queue.\<close>

lemma batch_step_no_poll:
  assumes "fst iva < n - 1 \<or> translate X h t (snd iva) = Some None"
  shows "batch_step (K\<lparr>poll_send_cq := f\<rparr>) v passed clock X C h t ai n iva st = batch_step K v passed clock X C h t ai n iva st"
  using assms by (auto simp: batch_step_def dc_post_def dc_payload_new_def split: prod.splits option.splits intro!: Option.bind_cong)

lemma foldo_cong: "(\<And>x s. x \<in> set xs \<Longrightarrow> f x s = g x s) \<Longrightarrow> foldo f xs s = foldo g xs s"
  by (induction xs arbitrary: s) (auto intro!: Option.bind_cong)

section \<open>Faults\<close>

lemma read_plain_idle:
  assumes "fifo_reads K waiting memory remote" "time_passes passed" "waiting (cs_q s) = []"
    and "C va" "translate X (cs_heap s) (cs_table s) va = Some (Some pa)"
    and "pmem_alloc_page (cs_ks s) = (p, ks)" "mr_new_from_raw K (phys_to_virt (page_to_phy p)) 4096 = Some mr"
  shows "\<exists>r q. read_plain K phys_to_virt page_to_phy passed clock X C ai va s =
      Some (r, s\<lparr>cs_q := q, cs_ks := (if r = None then pmem_free_page p ks else ks)\<rparr>)
    \<and> (r = None \<or> r = Some p \<and> waiting q = [] \<and> memory q = (memory (cs_q s))(mr := remote (decode pa)))"
proof -
  obtain r q where r: "remote_read K phys_to_virt passed clock (cs_q s) (page_to_phy p) pa 4096 ai = Some (r, q)"
    using remote_read_returns [where phys_to_virt = phys_to_virt, OF assms(2,7)] by blast
  show ?thesis
  proof (cases r)
    case (Inl e)
    then show ?thesis
      using assms(4-6) r by (auto simp: read_plain_def read_remote_page_def)
  next
    case (Inr u)
    then have "waiting q = [] \<and> memory q = (memory (cs_q s))(mr := remote (decode pa))"
      using remote_read_consumes_oldest [OF assms(1), of phys_to_virt passed clock "cs_q s" "page_to_phy p" pa 4096 ai q] r assms(3,7)
      by auto
    then show ?thesis
      using assms(4-6) r Inr by (auto simp: read_plain_def read_remote_page_def)
  qed
qed

lemma remember_page_ok:
  assumes "table_ok (cs_heap s) (cs_table s)" "indices_in_range X" "3 \<le> length (avail (cs_heap s))" "C va"
  shows "\<exists>t h. remember_page X C va p s =
      Some (s\<lparr>cs_ks := increase_ref_count \<lparr>page_p = p, raw = True\<rparr> (cs_ks s), cs_table := t, cs_heap := h\<rparr>)
    \<and> table_ok h t \<and> translate X h t va = Some (Some (encode p (flag_bits Cache)))"
proof -
  have "bit (encode p (flag_bits Cache)) 1"
    by (simp add: bit_encode)
  then have "encode p (flag_bits Cache) \<noteq> 0"
    by auto
  with force_map_translates [OF assms(1-3), of va "encode p (flag_bits Cache)"] obtain t h where
    f: "force_map X (cs_heap s) (cs_table s) va (encode p (flag_bits Cache)) = Some (t, h)" "table_ok h t"
      "translate X h t va = Some (Some (encode p (flag_bits Cache)))"
    by auto
  show ?thesis
    by (rule exI [of _ t], rule exI [of _ h]) (use f assms(4) in \<open>simp add: remember_page_def\<close>)
qed

lemma no_page_total: "\<exists>r s'. no_page vmas vma_start s = Some (r, s') \<and> freed (cs_ks s') = freed (cs_ks s)"
  by (auto simp: no_page_def pmem_alloc_page_def split: list.splits)

lemma fault_reads:
  assumes "C va" "translate X (cs_heap s) (cs_table s) va = Some (Some pa)" "\<not> (page_cache \<and> is_cache pa)"
  shows "handle_page_fault page_cache rd X C vmas vma_start va s =
     do { (r, s) \<leftarrow> rd va s;
          case r of
            Some p \<Rightarrow> if page_cache then do { s \<leftarrow> remember_page X C va p s; Some (Some p, s) } else Some (Some p, s)
          | None \<Rightarrow> no_page vmas vma_start s }"
proof (cases "rd va s")
  case (Some x)
  then obtain r s1 where "rd va s = Some (r, s1)"
    by (cases x) auto
  then show ?thesis
    by (simp add: handle_page_fault_def assms(1,2) if_not_P [OF assms(3)])
qed (simp add: handle_page_fault_def assms(1,2) if_not_P [OF assms(3)])

text \<open>A mark of a prefetch that nobody will complete is never cleared, so waiting for it never ends.\<close>

lemma orphan_poll:
  fixes K :: "('q, 'mr, 'ep, 'e) rdma_kit"
  assumes "poll_prefetcher K st = Some st'" "pending_queues (snd st) = []"
  shows "fst st' = fst st \<and> pending_queues (snd st') = []"
proof (rule poll_prefetcher.raw_induct [where P = "\<lambda>K st st'. pending_queues (snd st) = [] \<longrightarrow>
      fst st' = fst st \<and> pending_queues (snd st') = []", OF _ assms(1), THEN mp, OF _ assms(2)], rule impI)
  fix rec and K :: "('q, 'mr, 'ep, 'e) rdma_kit" and st st' :: "Heap \<times> ('q, 'ep) DCAsyncPrefetcher"
  assume run: "prefetch_poll K st \<bind> (\<lambda>(r, st). case r of Inl x \<Rightarrow> None | Inr (Ready x) \<Rightarrow> rec K st | Inr NotReady \<Rightarrow> Some st) = Some st'"
    and none: "pending_queues (snd st) = []"
  obtain h pf where st: "st = (h, pf)"
    by fastforce
  obtain r q where r: "dc_poll K (pf_conn pf) = (r, q)"
    by fastforce
  show "fst st' = fst st \<and> pending_queues (snd st') = []"
  proof (cases r)
    case (Inl e)
    then show ?thesis
      using run none st r by (simp add: prefetch_poll_def)
  next
    case (Inr a)
    then show ?thesis
      using run none st r by (cases a) (auto simp: prefetch_poll_def)
  qed
qed

lemma orphan_wait:
  fixes K :: "('q, 'mr, 'ep, 'e) rdma_kit"
  assumes "entry_at (fst st) (pt, idx) = Some K_MAGIC_IN_PREFETCH" "pending_queues (snd st) = []"
  shows "wait_prefetched K pt idx st = None"
proof (rule ccontr)
  assume "wait_prefetched K pt idx st \<noteq> None"
  then obtain r where r: "wait_prefetched K pt idx st = Some r"
    by blast
  have "\<not> (entry_at (fst st) (pt, idx) = Some K_MAGIC_IN_PREFETCH \<and> pending_queues (snd st) = [])"
  proof (rule wait_prefetched.raw_induct [where P = "\<lambda>K pt idx st r.
        \<not> (entry_at (fst st) (pt, idx) = Some K_MAGIC_IN_PREFETCH \<and> pending_queues (snd st) = [])", OF _ r], rule notI)
    fix rec and K :: "('q, 'mr, 'ep, 'e) rdma_kit" and pt idx and st :: "Heap \<times> ('q, 'ep) DCAsyncPrefetcher" and r
    assume IH: "\<And>K pt idx st r. rec K pt idx st = Some r \<Longrightarrow>
          \<not> (entry_at (fst st) (pt, idx) = Some K_MAGIC_IN_PREFETCH \<and> pending_queues (snd st) = [])"
      and run: "nodes (fst st) pt \<bind> (\<lambda>l1_page. table_index l1_page idx \<bind> (\<lambda>remote_pa.
            if remote_pa = K_MAGIC_IN_PREFETCH then poll_prefetcher K st \<bind> rec K pt idx else Some (remote_pa, st))) = Some r"
      and o1: "entry_at (fst st) (pt, idx) = Some K_MAGIC_IN_PREFETCH \<and> pending_queues (snd st) = []"
    obtain n where "nodes (fst st) pt = Some n" "table_index n idx = Some K_MAGIC_IN_PREFETCH"
      using o1 by (auto simp: entry_at_def split: option.splits)
    with run obtain st' where "poll_prefetcher K st = Some st'" "rec K pt idx st' = Some r"
      by (auto simp: bind_eq_Some_conv)
    with IH orphan_poll [of K st st'] o1 show False
      by fastforce
  qed
  with assms show False
    by simp
qed

section \<open>Rebuilding the address space\<close>

text \<open>
  What the code relies on of the kernel: unmapping the first area leaves the others, and a mapping behind
  all areas, at a free place, is made there and found there.
\<close>

definition maps_honestly ::
  "(vm_area list \<Rightarrow> u64 \<Rightarrow> u64 \<Rightarrow> vm_area list) \<Rightarrow> (vm_area list \<Rightarrow> u64 \<Rightarrow> u64 \<Rightarrow> u64 \<Rightarrow> u64 \<times> vm_area list) \<Rightarrow>
    (vm_area list \<Rightarrow> u64 \<Rightarrow> vm_area option) \<Rightarrow> bool" where
  "maps_honestly munmap mmap find_vma \<longleftrightarrow>
     (\<forall>v vs. munmap (v # vs) (vm_start v) (vm_end v - vm_start v) = vs)
   \<and> (\<forall>vs st len prot. (\<forall>v \<in> set vs. vm_end v \<le> st) \<and> 0 < len \<and> unat st + unat len < 2 ^ 64 \<longrightarrow>
        (\<exists>a. mmap vs st len prot = (st, vs @ [a]) \<and> vm_start a = st \<and> vm_end a = st + len \<and> find_vma (vs @ [a]) st = Some a))"

definition ordered_areas :: "VMADescriptor list \<Rightarrow> bool" where
  "ordered_areas ms \<longleftrightarrow> (\<forall>m \<in> set ms. get_start m < get_end m) \<and> sorted_wrt (\<lambda>m n. get_end m \<le> get_start n) ms"

definition covers :: "VMADescriptor \<Rightarrow> vm_area \<Rightarrow> bool" where
  "covers m a \<longleftrightarrow> vm_start a = get_start m \<and> get_end m \<le> vm_end a"

lemma region_len_ok:
  assumes "get_start m < get_end m" "\<forall>n. nx = Some n \<longrightarrow> get_end m \<le> get_start n"
  shows "\<exists>len. region_len m nx = Some len \<and> 0 < len \<and> unat (get_start m) + unat len < 2 ^ 64
    \<and> get_end m \<le> get_start m + len \<and> (\<forall>n. nx = Some n \<longrightarrow> get_start m + len \<le> get_start n)"
proof -
  have lt: "unat (get_start m) < unat (get_end m)"
    using assms(1) by (simp add: word_less_nat_alt)
  have "\<exists>len. region_len m nx = Some len \<and> unat (get_end m) \<le> unat (get_start m) + unat len
      \<and> unat (get_start m) + unat len < 2 ^ 64 \<and> (\<forall>n. nx = Some n \<longrightarrow> unat (get_start m) + unat len \<le> unat (get_start n))"
  proof (cases nx)
    case None
    have "unat (get_end m - get_start m) = unat (get_end m) - unat (get_start m)"
      using assms(1) by (simp add: unat_sub order_less_imp_le)
    then show ?thesis
      using region_len_gap [of m m, THEN exE] None lt assms(1) unsigned_less [of "get_end m", where ?'a = nat]
      by (auto simp: region_len_def extended_map_area_sz_def get_sz_def checked_sub_def checked_add_def get_start_def get_end_def order_less_imp_le)
  next
    case (Some n)
    then show ?thesis
      using region_len_gap [of m n] assms unsigned_less [of "get_start n", where ?'a = nat]
      by (auto simp: order_less_imp_le)
  qed
  then obtain len where len: "region_len m nx = Some len" "unat (get_end m) \<le> unat (get_start m) + unat len"
      "unat (get_start m) + unat len < 2 ^ 64" "\<forall>n. nx = Some n \<longrightarrow> unat (get_start m) + unat len \<le> unat (get_start n)"
    by blast
  have "unat (get_start m + len) = unat (get_start m) + unat len"
    using len(3) by (simp add: unat_word_ariths)
  moreover have "0 < len"
    using len(2) lt by (auto simp: word_gt_0)
  ultimately show ?thesis
    using len by (auto simp: word_le_nat_alt)
qed

lemma map_regions_ok:
  assumes "maps_honestly munmap mmap find_vma" "ordered_areas ms"
    and "\<forall>a \<in> set vs. vm_start a < vm_end a \<and> (\<forall>m \<in> set ms. vm_end a \<le> get_start m)"
  shows "\<exists>as. map_regions K mmap find_vma ms vs = Some (vs @ as) \<and> list_all2 covers ms as
    \<and> sorted_wrt (\<lambda>a b. vm_end a \<le> vm_start b) as
    \<and> (\<forall>a \<in> set as. (flags_contain (area_flags a) (VM_STACK K) \<or> flags_contain (area_flags a) (VM_DONTEXPAND K)))"
  using assms(2,3)
proof (induction ms arbitrary: vs)
  case Nil
  then show ?case
    by (intro exI [of _ "[]"]) simp
next
  case (Cons m ms)
  let ?nx = "case ms of [] \<Rightarrow> None | n # _ \<Rightarrow> Some n"
  have m: "get_start m < get_end m" "\<forall>n. ?nx = Some n \<longrightarrow> get_end m \<le> get_start n" "ordered_areas ms"
    and after: "\<And>n. n \<in> set ms \<Longrightarrow> get_end m \<le> get_start n"
    using Cons.prems(1) by (auto simp: ordered_areas_def split: list.splits)
  obtain len where len: "region_len m ?nx = Some len" "0 < len" "unat (get_start m) + unat len < 2 ^ 64"
    "get_end m \<le> get_start m + len" "\<forall>n. ?nx = Some n \<longrightarrow> get_start m + len \<le> get_start n"
    using region_len_ok [OF m(1,2)] by blast
  obtain a where a: "mmap vs (get_start m) len (get_mmap_flags K m) = (get_start m, vs @ [a])"
    "vm_start a = get_start m" "vm_end a = get_start m + len" "find_vma (vs @ [a]) (get_start m) = Some a"
    using assms(1) Cons.prems(2) len(2,3) unfolding maps_honestly_def by (metis list.set_intros(1))
  define b where "b = a\<lparr>area_flags := (if is_stack K m then area_flags a OR VM_STACK K else area_flags a OR VM_DONTEXPAND K)\<rparr>"
  have b: "map_one_region K (mmap vs) find_vma False m ?nx = Some (Some b)"
    using len(1) a by (simp add: map_one_region_def b_def)
  have al: "(if flags_contain (vm_flags m) VM_ALLOC then set_alloc b else b) = b"
    by (simp add: set_alloc_def VM_ALLOC_def)
  have fl: "flags_contain (area_flags b) (VM_STACK K) \<or> flags_contain (area_flags b) (VM_DONTEXPAND K)"
    by (auto simp: b_def flags_contain_def bit_eq_iff bit_and_iff bit_or_iff)
  have be: "vm_start b = get_start m" "vm_end b = get_start m + len"
    using a by (simp_all add: b_def)
  have "vm_start v \<noteq> get_start m" if "v \<in> set vs" for v
    using Cons.prems(2) that by force
  then have put: "put_area b (vs @ [a]) = vs @ [b]"
    using a(2) be(1) by (auto simp: put_area_def intro: map_idI)
  have next_ge: "get_start m + len \<le> get_start n" if "n \<in> set ms" for n
  proof (cases ms)
    case (Cons n0 ns)
    then have "get_start m + len \<le> get_start n0"
      using len(5) by simp
    moreover have "get_start n0 \<le> get_start n"
      using that Cons m(3) by (auto simp: ordered_areas_def intro: order_trans order_less_imp_le)
    ultimately show ?thesis
      by (rule order_trans)
  qed (use that in simp)
  have "\<forall>v \<in> set (vs @ [b]). vm_start v < vm_end v \<and> (\<forall>n \<in> set ms. vm_end v \<le> get_start n)"
    using Cons.prems(2) be m(1) len(4) next_ge by auto
  from Cons.IH [OF m(3) this] obtain as where as: "map_regions K mmap find_vma ms (vs @ [b]) = Some ((vs @ [b]) @ as)"
    "list_all2 covers ms as" "sorted_wrt (\<lambda>a b. vm_end a \<le> vm_start b) as"
    "\<forall>a \<in> set as. (flags_contain (area_flags a) (VM_STACK K) \<or> flags_contain (area_flags a) (VM_DONTEXPAND K))"
    by blast
  have "vm_end b \<le> vm_start c" if c: "c \<in> set as" for c
  proof -
    obtain i where i: "i < length as" "c = as ! i"
      using c by (auto simp: in_set_conv_nth)
    then have "covers (ms ! i) c" "ms ! i \<in> set ms"
      using as(2) by (simp_all add: list_all2_conv_all_nth)
    then show ?thesis
      using next_ge [of "ms ! i"] be(2) by (simp add: covers_def)
  qed
  moreover have "covers m b"
    using be len(4) by (simp add: covers_def)
  ultimately show ?case
    using len(1) b a(1) al put as fl by (intro exI [of _ "b # as"]) simp
qed

lemma unmap_self_all:
  assumes "maps_honestly munmap mmap find_vma" "\<forall>v \<in> set vs. vm_start v \<le> vm_end v"
  shows "foldo (\<lambda>v vs. do { sz \<leftarrow> area_get_sz v; Some (munmap vs (vm_start v) sz) }) vs vs = Some []"
  using assms(2)
proof (induction vs)
  case (Cons v vs)
  then show ?case
    using assms(1) by (simp add: area_get_sz_def checked_sub_def maps_honestly_def)
qed simp

section \<open>Samples\<close>

definition sim_access :: "unit AccessInfo" where
  "sim_access = \<lparr>access_handler = (), ai_rkey = 0, ai_mac_id = 0\<rparr>"

definition sim_child :: "Heap \<Rightarrow> RemotePageTable \<Rightarrow> u64 list \<Rightarrow> (sim_qp, unit) child_state" where
  "sim_child h t ps =
     \<lparr>cs_heap = h, cs_table = t,
      cs_ks = \<lparr>ptes = (\<lambda>_. 0), page_refs = (\<lambda>_. 0), map_counts = (\<lambda>_. 0), file_refs = (\<lambda>_. 0), page_data = (\<lambda>_. [1, 2, 3]),
               alloc_queue = ps, freed = []\<rparr>,
      cs_q = \<lparr>inflight = [], local_mem = (\<lambda>_. 0), lag = 2\<rparr>,
      cs_pf = prefetcher_new_from_raw \<lparr>inflight = [], local_mem = (\<lambda>_. 0), lag = 2\<rparr> sim_access\<rparr>"

lemma sim_table:
  assumes "v \<noteq> 0"
  shows "\<exists>t h. force_map four_level_indices heap8 table8 a v = Some (t, h) \<and> table_ok h t \<and> 3 \<le> length (avail h)
    \<and> translate four_level_indices h t a = Some (Some v)"
proof -
  from force_map_lookup [OF table8_ok(2) four_level_in_range table8_room refl, of a v] obtain t h where
    f: "force_map four_level_indices heap8 table8 a v = Some (t, h)" "length (avail heap8) \<le> length (avail h) + 3"
    by blast
  with force_map_translates [OF table8_ok(2) four_level_in_range table8_room, of a v] assms show ?thesis
    by (auto simp: table8_ok)
qed

text \<open>A kernel that puts new areas at the end, and a child with a code and a heap area.\<close>

definition plain_consts :: kconsts where
  "plain_consts = \<lparr>PAGE_RW = 2, VM_READ = 1, VM_WRITE = 2, VM_MAYWRITE = 0x20, VM_EXEC = 4, VM_STACK = 0x100,
     VM_DONTEXPAND = 0x40000, VM_MIXEDMAP = 0x10000000, PROT_READ = 1, PROT_WRITE = 2, PROT_EXEC = 4, PROT_GROWSUP = 0x2000000\<rparr>"

definition append_mmap :: "vm_area list \<Rightarrow> u64 \<Rightarrow> u64 \<Rightarrow> u64 \<Rightarrow> u64 \<times> vm_area list" where
  "append_mmap vs st len prot =
     (st, vs @ [\<lparr>vm_start = st, vm_end = st + len, area_flags = prot, vm_page_prot = prot, vm_ops = 1, vm_file = 1\<rparr>])"

definition two_areas :: "u64 ChildDescriptor" where
  "two_areas = \<lparr>cd_regs = pd_regs sample_parent, cd_page_table = table8,
     cd_vma = [\<lparr>vm_range = (0x400000, 0x402000), vm_flags = 5, vm_prot = 0x25, vm_is_anonymous = False\<rparr>,
               \<lparr>vm_range = (0x600000, 0x603000), vm_flags = 3, vm_prot = 0x27, vm_is_anonymous = True\<rparr>],
     cd_machine_info = pd_machine_info sample_parent\<rparr>"

lemma apply_to_maps:
  assumes "maps_honestly munmap mmap find_vma" "ordered_areas (cd_vma d)" "\<forall>v \<in> set (areas p). vm_start v \<le> vm_end v"
    and "access_info_new endpoint (cd_machine_info d) = Some ai"
  shows "\<exists>p'. apply_to K munmap mmap find_vma endpoint d p = Some p' \<and> proc_regs p' = cd_regs d
    \<and> list_all2 covers (cd_vma d) (areas p') \<and> sorted_wrt (\<lambda>a b. vm_end a \<le> vm_start b) (areas p')
    \<and> (\<forall>a \<in> set (areas p'). flags_contain (area_flags a) (VM_STACK K) \<or> flags_contain (area_flags a) (VM_DONTEXPAND K))"
proof -
  obtain as where "map_regions K mmap find_vma (cd_vma d) [] = Some as" "list_all2 covers (cd_vma d) as"
    "sorted_wrt (\<lambda>a b. vm_end a \<le> vm_start b) as"
    "\<forall>a \<in> set as. flags_contain (area_flags a) (VM_STACK K) \<or> flags_contain (area_flags a) (VM_DONTEXPAND K)"
    using map_regions_ok [OF assms(1,2), of "[]" K] by auto
  then show ?thesis
    using assms(4) unmap_self_all [OF assms(1,3)] by (simp add: apply_to_def unmap_self_def set_mm_reg_states_def)
qed

section \<open>Properties\<close>



text \<open>C26: With the page cache a page is fetched once: after a miss, the next fault on the address, by this child or
  by one that started from a copy of its table, is served without the network. It gets a new page with
  the content of the cached one, whose table entry stays.\<close>

theorem refault_served_locally:
  assumes "table_ok (cs_heap s) (cs_table s)" "indices_in_range X" "3 \<le> length (avail (cs_heap s))" "C va"
    and "page_ok p" "remember_page X C va p s = Some s1" "alloc_queue (cs_ks s1) = n # ns"
  shows "\<exists>s2. handle_page_fault True rd X C vmas vma_start va s1 = Some (Some n, s2)
    \<and> page_data (cs_ks s2) n = page_data (cs_ks s) p \<and> cs_q s2 = cs_q s \<and> cs_table s2 = cs_table s1 \<and> cs_heap s2 = cs_heap s1"
proof -
  obtain t h where s1: "s1 = s\<lparr>cs_ks := increase_ref_count \<lparr>page_p = p, raw = True\<rparr> (cs_ks s), cs_table := t, cs_heap := h\<rparr>"
    and tr: "translate X h t va = Some (Some (encode p (flag_bits Cache)))"
    using remember_page_ok [where p = p and C = C, OF assms(1-4)] assms(6) by auto
  have p: "decode p = p"
    using assms(5) by (simp add: page_ok_def)
  have "\<not> bit (2 :: u64) 2"
    using bit_exp_iff [of 1 2, where ?'a = u64] by simp
  then have e: "is_cache (encode p (flag_bits Cache))" "\<not> is_ro (encode p (flag_bits Cache))" "convert_to_page (encode p (flag_bits Cache)) = p"
    using p by (auto simp: flag_bit_simps decode_low_bits convert_to_page_def real_addr_def)
  show ?thesis
    using tr e assms(4,7)
    by (simp add: handle_page_fault_def cached_page_def s1 pmem_alloc_page_def copy_page_content_4k_def
        increase_ref_count_def pmem_get_page_def pmem_page_dup_rmap_def)
qed

theorem refault_served_locally_witness:
  "\<exists>s1 s2. remember_page four_level_indices (\<lambda>_. True) 0x7000 0x5000 (sim_child heap8 table8 [0x6000]) = Some s1
    \<and> handle_page_fault True (\<lambda>_ _. None) four_level_indices (\<lambda>_. True) [] 0x7000 0x7000 s1 = Some (Some 0x6000, s2)
    \<and> page_data (cs_ks s2) 0x6000 = [1, 2, 3]"
proof -
  let ?s = "sim_child heap8 table8 [0x6000]" and ?X = four_level_indices
  have ok: "table_ok (cs_heap ?s) (cs_table ?s)" "3 \<le> length (avail (cs_heap ?s))"
    by (simp_all add: sim_child_def table8_ok)
  obtain s1 where s1: "remember_page ?X (\<lambda>_. True) 0x7000 0x5000 ?s = Some s1" "alloc_queue (cs_ks s1) = [0x6000]"
    using remember_page_ok [where C = "\<lambda>_. True" and p = "0x5000" and va = "0x7000", OF ok(1) four_level_in_range ok(2)]
    by (auto simp: sim_child_def increase_ref_count_def pmem_get_page_def pmem_page_dup_rmap_def)
  have "page_ok 0x5000"
    by (simp add: page_ok_def decode_def flag_mask_eq)
  from refault_served_locally [where C = "\<lambda>_. True", OF ok(1) four_level_in_range ok(2) _ this s1, of "\<lambda>_ _. None" "[]" "0x7000"] s1(1)
  show ?thesis
    by (auto simp: sim_child_def)
qed

text \<open>A page that could not be read is replaced by an arbitrary one: in an anonymous area the handler reports
  success when the read of a page that the parent has fails, and when the parent has none, and hands
  out the next free page with whatever that page contains; it is neither the parent's nor cleared.\<close>

theorem anonymous_page_not_cleared:
  assumes "C va" "translate X (cs_heap s) (cs_table s) va = Some pa"
    and "pa \<noteq> None \<longrightarrow> rd va s = Some (None, s1)" "pa = None \<longrightarrow> s1 = s" "\<forall>a. pa = Some a \<longrightarrow> \<not> (page_cache \<and> is_cache a)"
    and "vd \<in> set vmas" "vm_is_anonymous vd" "get_start vd = vma_start" "alloc_queue (cs_ks s1) = p # ps"
  shows "\<exists>s'. handle_page_fault page_cache rd X C vmas vma_start va s = Some (Some p, s')
    \<and> page_data (cs_ks s') p = page_data (cs_ks s1) p"
proof -
  have "handle_page_fault page_cache rd X C vmas vma_start va s = no_page vmas vma_start s1"
  proof (cases pa)
    case None
    then show ?thesis
      using assms(1,2,4) by (simp add: handle_page_fault_def)
  next
    case (Some a)
    then have "\<not> (page_cache \<and> is_cache a)" "rd va s = Some (None, s1)" "translate X (cs_heap s) (cs_table s) va = Some (Some a)"
      using assms(2,3,5) by auto
    then show ?thesis
      using fault_reads [where C = C and page_cache = page_cache and rd = rd and vmas = vmas and vma_start = vma_start, OF assms(1), of X s a] by simp
  qed
  moreover have "\<exists>vd \<in> set vmas. vm_is_anonymous vd \<and> vma_start = get_start vd"
    using assms(6-8) by auto
  ultimately show ?thesis
    using assms(9) by (simp add: no_page_def pmem_alloc_page_def)
qed

theorem anonymous_page_not_cleared_witness:
  "\<exists>s'. handle_page_fault False (\<lambda>va s. Some (None, s)) four_level_indices (\<lambda>_. True)
      [\<lparr>vm_range = (0x7000, 0x9000), vm_flags = 0x23, vm_prot = 0x27, vm_is_anonymous = True\<rparr>] 0x7000 0x7000
      (sim_child heap8 table8 [0x5000]) = Some (Some 0x5000, s') \<and> page_data (cs_ks s') 0x5000 = [1, 2, 3]"
proof -
  have "translate four_level_indices heap8 table8 0x7000 = Some None"
    by (simp add: translate_lookup [OF table8_ok(2) four_level_in_range] table8_empty path_of_full [OF four_level_in_range])
  then show ?thesis
    using anonymous_page_not_cleared [of "\<lambda>_. True" "0x7000" four_level_indices "sim_child heap8 table8 [0x5000]" None
        "\<lambda>va s. Some (None, s)" "sim_child heap8 table8 [0x5000]" False
        "\<lparr>vm_range = (0x7000, 0x9000), vm_flags = 0x23, vm_prot = 0x27, vm_is_anonymous = True\<rparr>"
        "[\<lparr>vm_range = (0x7000, 0x9000), vm_flags = 0x23, vm_prot = 0x27, vm_is_anonymous = True\<rparr>]" "0x7000" "0x5000" "[]"]
    by (simp add: sim_child_def get_start_def)
qed

text \<open>C10: Applying a descriptor rebuilds the parent's address space: for areas in ascending order it returns,
  the registers of the process are those of the descriptor, all old areas are gone, there is exactly one
  area per area of the parent, at the same start and reaching at least as far, no two overlap, and
  each is marked as a stack or as not expandable.\<close>

theorem apply_to_rebuilds:
  assumes "maps_honestly munmap mmap find_vma" "ordered_areas (cd_vma d)" "\<forall>v \<in> set (areas p). vm_start v \<le> vm_end v"
    and "access_info_new endpoint (cd_machine_info d) = Some ai"
  shows "\<exists>p'. apply_to K munmap mmap find_vma endpoint d p = Some p' \<and> proc_regs p' = cd_regs d
    \<and> list_all2 covers (cd_vma d) (areas p') \<and> sorted_wrt (\<lambda>a b. vm_end a \<le> vm_start b) (areas p')
    \<and> (\<forall>a \<in> set (areas p'). flags_contain (area_flags a) (VM_STACK K) \<or> flags_contain (area_flags a) (VM_DONTEXPAND K))"
  by (rule apply_to_maps [OF assms])

theorem apply_to_rebuilds_witness:
  "\<exists>p'. apply_to plain_consts (\<lambda>vs _ _. tl vs) append_mmap (\<lambda>vs _. Some (last vs)) (\<lambda>_ _ _ _ _ _ _. Some ()) two_areas
      \<lparr>areas = [\<lparr>vm_start = 0x1000, vm_end = 0x3000, area_flags = 0, vm_page_prot = 0, vm_ops = 0, vm_file = 0\<rparr>], proc_regs = cd_regs two_areas\<rparr> = Some p'
    \<and> list_all2 covers (cd_vma two_areas) (areas p')"
proof -
  have "maps_honestly (\<lambda>vs _ _. tl vs) append_mmap (\<lambda>vs _. Some (last vs))"
    by (simp add: maps_honestly_def append_mmap_def)
  moreover have "ordered_areas (cd_vma two_areas)"
    by (simp add: ordered_areas_def two_areas_def get_start_def get_end_def)
  ultimately show ?thesis
    using apply_to_rebuilds [of "\<lambda>vs _ _. tl vs" append_mmap "\<lambda>vs _. Some (last vs)" two_areas
        "\<lparr>areas = [\<lparr>vm_start = 0x1000, vm_end = 0x3000, area_flags = 0, vm_page_prot = 0, vm_ops = 0, vm_file = 0\<rparr>], proc_regs = cd_regs two_areas\<rparr>"
        "\<lambda>_ _ _ _ _ _ _. Some ()" _ plain_consts]
    by (auto simp: access_info_new_def access_info_new_with_port_def)
qed

text \<open>C27: Eager fetching reads every page of an area once: it reads the addresses of the area's pages in order, in
  batches of twelve and a shorter last one.\<close>

theorem eager_batches:
  assumes "get_start v \<le> get_end v"
  shows "\<exists>addrs. eager_fetch_vma rd v st = foldo (fetch_batch rd) (batches addrs) st
    \<and> concat (batches addrs) = addrs \<and> (\<forall>b \<in> set (batches addrs). b \<noteq> [] \<and> length b \<le> 12)
    \<and> map unat addrs = map (\<lambda>k. unat (get_start v) + 4096 * k) [0..<(unat (get_end v) - unat (get_start v) + 4095) div 4096]"
proof -
  let ?sz = "get_end v - get_start v"
  let ?n = "(unat (get_end v) - unat (get_start v) + 4095) div 4096"
  let ?addrs = "map (\<lambda>k. get_start v + of_nat (4096 * k)) [0..<?n]"
  have sz: "unat ?sz = unat (get_end v) - unat (get_start v)" "unat (get_start v) \<le> unat (get_end v)"
    using assms by (simp_all add: unat_sub word_le_nat_alt)
  have "checked_add (get_start v) ?sz \<noteq> None"
    using sz unsigned_less [of "get_end v", where ?'a = nat] by (simp add: checked_add_def)
  then have run: "eager_fetch_vma rd v st = eager_loop rd ?addrs [] st"
    using assms sz(1) by (auto simp: eager_fetch_vma_def page_steps_def get_sz_def checked_sub_def get_start_def get_end_def)
  have "unat (get_start v + of_nat (4096 * k)) = unat (get_start v) + 4096 * k" if "k < ?n" for k
  proof -
    have "4096 * k < unat (get_end v) - unat (get_start v)"
      using that by (simp add: less_mult_imp_div_less div_less_iff_less_mult)
    then have "unat (get_start v) + 4096 * k < 2 ^ 64"
      using sz(2) unsigned_less [of "get_end v", where ?'a = nat] by simp
    then show ?thesis
      by (simp add: unat_word_ariths unat_of_nat)
  qed
  then have "map unat ?addrs = map (\<lambda>k. unat (get_start v) + 4096 * k) [0..<?n]"
    by simp
  moreover have "eager_fetch_vma rd v st = foldo (fetch_batch rd) (batches ?addrs) st"
    using run eager_loop_batches [of "[]" rd ?addrs st] by simp
  moreover have "\<forall>b \<in> set (batches ?addrs). b \<noteq> [] \<and> length b \<le> 12"
    by (intro ballI batches_sizes)
  ultimately show ?thesis
    by (intro exI [of _ ?addrs] conjI batches_concat)
qed

theorem eager_batches_witness:
  "\<exists>addrs. eager_fetch_vma (\<lambda>as s. Some (map (\<lambda>_. None) as, s))
      \<lparr>vm_range = (0x600000, 0x60d800), vm_flags = 0x23, vm_prot = 0x27, vm_is_anonymous = True\<rparr>
      (\<lparr>ea_pgprot = 0, ea_inserted = [], eager_fetched_pages = {}\<rparr>, ()) =
      foldo (fetch_batch (\<lambda>as s. Some (map (\<lambda>_. None) as, s))) (batches addrs) (\<lparr>ea_pgprot = 0, ea_inserted = [], eager_fetched_pages = {}\<rparr>, ())
    \<and> length addrs = 14"
proof -
  let ?v = "\<lparr>vm_range = (0x600000, 0x60d800), vm_flags = 0x23, vm_prot = 0x27, vm_is_anonymous = True\<rparr>"
  have "get_start ?v \<le> get_end ?v"
    by (simp add: get_start_def get_end_def)
  from eager_batches [OF this, of "\<lambda>as s. Some (map (\<lambda>_. None) as, s)" "(\<lparr>ea_pgprot = 0, ea_inserted = [], eager_fetched_pages = {}\<rparr>, ())"]
  obtain addrs where a: "eager_fetch_vma (\<lambda>as s. Some (map (\<lambda>_. None) as, s)) ?v (\<lparr>ea_pgprot = 0, ea_inserted = [], eager_fetched_pages = {}\<rparr>, ()) =
      foldo (fetch_batch (\<lambda>as s. Some (map (\<lambda>_. None) as, s))) (batches addrs) (\<lparr>ea_pgprot = 0, ea_inserted = [], eager_fetched_pages = {}\<rparr>, ())"
    and m: "map unat addrs = map (\<lambda>k. unat (get_start ?v) + 4096 * k) [0..<(unat (get_end ?v) - unat (get_start ?v) + 4095) div 4096]"
    by blast
  have "length addrs = (unat (get_end ?v) - unat (get_start ?v) + 4095) div 4096"
    using arg_cong [OF m, of length] by simp
  then show ?thesis
    using a by (auto simp: get_start_def get_end_def)
qed

text \<open>A batch whose last address the table does not translate waits for nothing: its outcome, pages handed out
  included, is the same whatever the completion queue says, so the data may not have arrived.\<close>

theorem batch_ignores_completions:
  assumes "translate X h t va = Some None"
  shows "batch_read_remote_pages (K\<lparr>poll_send_cq := f\<rparr>) v passed clock X C h t ai (as @ [va]) st =
    batch_read_remote_pages K v passed clock X C h t ai (as @ [va]) st"
proof -
  have "fst iva < length (as @ [va]) - 1 \<or> translate X h t (snd iva) = Some None" if "iva \<in> set (enumerate 0 (as @ [va]))" for iva
    using that assms by (auto simp: enumerate_eq_zip in_set_zip nth_append less_Suc_eq)
  then show ?thesis
    unfolding batch_read_remote_pages_def by (intro foldo_cong batch_step_no_poll) simp
qed

theorem batch_ignores_completions_witness:
  "\<exists>t h. force_map four_level_indices heap8 table8 0x7000 0x9000 = Some (t, h)
    \<and> map_option fst (batch_read_remote_pages ((sim_kit (\<lambda>a. a + 1))\<lparr>poll_send_cq := (\<lambda>q. (Inl (), q))\<rparr>) (\<lambda>p. p) tick 0
        four_level_indices (\<lambda>_. True) h t sim_access [0x7000, 0x8000] (cs_q (sim_child h t []), cs_ks (sim_child h t [0x5000])))
      = Some [Some 0x5000, None]"
proof -
  let ?X = four_level_indices
  obtain t h where f: "force_map ?X heap8 table8 0x7000 0x9000 = Some (t, h)" "translate ?X h t 0x7000 = Some (Some 0x9000)"
    using sim_table [of "0x9000" "0x7000"] by auto
  have "translate ?X h t 0x8000 = translate ?X heap8 table8 0x8000"
    using force_map_translates [OF table8_ok(2) four_level_in_range table8_room, of "0x7000" "0x9000"] f(1)
    by (auto simp: path_of_def four_level_indices_def)
  then have u: "translate ?X h t 0x8000 = Some None"
    by (simp add: translate_lookup [OF table8_ok(2) four_level_in_range] table8_empty path_of_full [OF four_level_in_range])
  let ?b = "\<lambda>K. batch_read_remote_pages K (\<lambda>p. p) tick 0 ?X (\<lambda>_. True) h t sim_access [0x7000, 0x8000]
      (cs_q (sim_child h t []), cs_ks (sim_child h t [0x5000]))"
  have "?b ((sim_kit (\<lambda>a. a + 1))\<lparr>poll_send_cq := (\<lambda>q. (Inl (), q))\<rparr>) = ?b (sim_kit (\<lambda>a. a + 1))"
    using batch_ignores_completions [where as = "[0x7000]", OF u] by simp
  moreover have "map_option fst (?b (sim_kit (\<lambda>a. a + 1))) = Some [Some 0x5000, None]"
    using f(2) u by (simp add: batch_read_remote_pages_def batch_step_def sim_child_def pmem_alloc_page_def sim_kit_def
        dc_post_def dc_payload_new_def sim_post_def)
  ultimately show ?thesis
    using f(1) by auto
qed



end
