(* ===== verification/Rpc_Service.thy ===== *)
theory Rpc_Service
  imports Rpc_Calls Fork_Service Page_Fault
begin

text \<open>
  The RPC threads of a node and its callers: connection information and the server thread
  (mitosis/src/rpc_service.rs), one caller per core and how they connect to a machine (rpc_caller_pool.rs),
  and the probe of another node (startup.rs). The address parser and printer of KRdmaKit and the kernel's
  threads are arguments.
\<close>

section \<open>Connection information\<close>

definition QD_HINT_BASE :: u64 where
  "QD_HINT_BASE = 12"

definition calculate_qd_hint :: "u64 \<Rightarrow> u64 option" where
  "calculate_qd_hint idx = checked_add QD_HINT_BASE idx"

record HandlerConnectInfo =
  hci_gid :: string
  hci_service_id :: u64
  hci_qd_hint :: u64
  hci_local_port :: u8

definition connect_info_create_with_port :: "u64 \<Rightarrow> string \<Rightarrow> u64 \<Rightarrow> u64 \<Rightarrow> u8 \<Rightarrow> HandlerConnectInfo option" where
  "connect_info_create_with_port max_nics_used g nic_idx tid port =
     do { r \<leftarrow> checked_rem nic_idx max_nics_used;
          sid \<leftarrow> checked_add SERVICE_ID_BASE r;
          qd \<leftarrow> calculate_qd_hint tid;
          Some \<lparr>hci_gid = g, hci_service_id = sid, hci_qd_hint = qd, hci_local_port = port\<rparr> }"

definition connect_info_create :: "u64 \<Rightarrow> string \<Rightarrow> u64 \<Rightarrow> u64 \<Rightarrow> HandlerConnectInfo option" where
  "connect_info_create max_nics_used g nic_idx tid = connect_info_create_with_port max_nics_used g nic_idx tid 1"

section \<open>Server threads\<close>

record ThreadCTX =
  tc_id :: u64
  nic_to_use :: u64

record 'j RpcService =
  threads :: "'j list"
  connect_infos :: "HandlerConnectInfo list"

definition own_connect_info ::
  "('n, 'c, 'b, 'raw, 'qp, 'cp, 'dev, 'sv, 'cm, 'tgt) node_ctl \<Rightarrow> (ib_gid \<Rightarrow> string) \<Rightarrow> Config \<Rightarrow> 'c list \<Rightarrow> u64 \<Rightarrow> 'n world \<Rightarrow>
    (HandlerConnectInfo \<times> 'n world) option" where
  "own_connect_info N gid_to_string cfg ctxs i w =
     do { nic \<leftarrow> checked_rem i (num_nics_used cfg);
          ctx \<leftarrow> vec_get ctxs nic;
          qd \<leftarrow> calculate_qd_hint i;
          g \<leftarrow> query_gid N ctx (default_nic_port cfg);
          sid \<leftarrow> checked_add SERVICE_ID_BASE nic;
          Some (\<lparr>hci_gid = gid_to_string g, hci_service_id = sid, hci_qd_hint = qd, hci_local_port = default_nic_port cfg\<rparr>, w) }"

text \<open>\<open>spawn\<close> starts a kernel thread on its context; the first failure ends the creation with the result None.\<close>

fun spawn_all :: "(ThreadCTX \<Rightarrow> 'n world \<Rightarrow> 'j option \<times> 'n world) \<Rightarrow> u64 \<Rightarrow> u64 list \<Rightarrow> 'n world \<Rightarrow> ('j list option \<times> 'n world) option" where
  "spawn_all spawn nics [] w = Some (Some [], w)"
| "spawn_all spawn nics (i # is) w =
     do { nic \<leftarrow> checked_rem i nics;
          (case spawn \<lparr>tc_id = i, nic_to_use = nic\<rparr> w of
             (None, w) \<Rightarrow> Some (None, w)
           | (Some j, w) \<Rightarrow> do { (r, w) \<leftarrow> spawn_all spawn nics is w; Some (map_option (\<lambda>js. j # js) r, w) }) }"

definition new_with_worker ::
  "('n, 'c, 'b, 'raw, 'qp, 'cp, 'dev, 'sv, 'cm, 'tgt) node_ctl \<Rightarrow> (ib_gid \<Rightarrow> string) \<Rightarrow> (ThreadCTX \<Rightarrow> 'n world \<Rightarrow> 'j option \<times> 'n world) \<Rightarrow>
    Config \<Rightarrow> 'c list \<Rightarrow> 'n world \<Rightarrow> ('j RpcService option \<times> 'n world) option" where
  "new_with_worker N gid_to_string spawn cfg ctxs w =
     do { (infos, w) \<leftarrow> collect (own_connect_info N gid_to_string cfg ctxs) (usize_range (rpc_threads_num cfg)) w;
          (r, w) \<leftarrow> spawn_all spawn (num_nics_used cfg) (usize_range (rpc_threads_num cfg)) w;
          Some (map_option (\<lambda>js. \<lparr>threads = js, connect_infos = infos\<rparr>) r, w) }"

definition get_connect_info :: "'j RpcService \<Rightarrow> u64 \<Rightarrow> HandlerConnectInfo option" where
  "get_connect_info s idx = vec_get (connect_infos s) idx"

text \<open>The callbacks of a server thread.\<close>

definition register_callbacks :: "'n world callback \<Rightarrow> 'n world Service \<Rightarrow> 'n world Service" where
  "register_callbacks on_query s =
     fst (service_register (rpc_id_num RpcQuery) on_query
       (fst (service_register (rpc_id_num RpcEcho) handle_echo
         (fst (service_register (rpc_id_num RpcNil) handle_nil s)))))"

text \<open>A receive buffer that cannot be posted is only logged.\<close>

definition post_fresh_buf ::
  "('n, 'c, 'qp, 'mr, 'ep, 'e) ud_kit \<Rightarrow> 'c \<Rightarrow> nat \<Rightarrow> ('n, 'c, 'qp, 'mr, 'ep) RPCHook \<times> 'n world \<Rightarrow>
    (('n, 'c, 'qp, 'mr, 'ep) RPCHook \<times> 'n world) option" where
  "post_fresh_buf K ctx i = (\<lambda>(h, w).
     do { (buf, w) \<leftarrow> udmsg_new K 4096 0 ctx w; Some (snd (post_msg_buf K buf (h, w))) })"

definition worker_init ::
  "('n, 'c, 'b, 'raw, 'qp, 'cp, 'dev, 'sv, 'cm, 'tgt) node_ctl \<Rightarrow> ('n, 'c, 'qp, 'mr, 'ep, 'e) ud_kit \<Rightarrow> 'n world callback \<Rightarrow>
    ('c, 'sv, 'cm, 'tgt) rdma_globals \<Rightarrow> ThreadCTX \<Rightarrow> 'n world \<Rightarrow> (('n, 'c, 'qp, 'mr, 'ep) RPCHook \<times> 'n world) option" where
  "worker_init N K on_query rg arg w =
     do { ctx \<leftarrow> vec_get (rdma_contexts rg) (nic_to_use arg);
          _ \<leftarrow> query_gid N ctx 1;
          (server_ud, w) \<leftarrow> expect_ok (ud_create (qp_ctl.truncate N) ctx 1 w);
          let temp_ud = ud_clone server_ud;
          sv \<leftarrow> vec_get (ud_service rg) (nic_to_use arg);
          hint \<leftarrow> calculate_qd_hint (tc_id arg);
          let w = reg_qp N sv hint (ud server_ud) w;
          let h = hook_new ctx (ud_clone server_ud) (receiver_new temp_ud (unat hint));
          let h = h\<lparr>service := register_callbacks on_query (service h)\<rparr>;
          foldo (post_fresh_buf K (qp_ctx K (ud server_ud))) [0..<2048] (h, w) }"

definition YIELD_THRESHOLD :: nat where
  "YIELD_THRESHOLD = 10000"

definition YIELD_TIME_USEC :: int where
  "YIELD_TIME_USEC = 2000"

text \<open>
  One round of the thread: a poll, whose error is only logged, and after many polls and enough time a yield
  of the processor, during which others may change the world. \<open>worker_rounds n\<close> is the thread stopped after
  \<open>n\<close> rounds.
\<close>

record ('n, 'c, 'qp, 'mr, 'ep, 't) worker_state =
  ws_hook :: "('n, 'c, 'qp, 'mr, 'ep) RPCHook"
  ws_world :: "'n world"
  ws_counter :: nat
  ws_timer :: 't

definition worker_round ::
  "('n, 'c, 'qp, 'mr, 'ep, 'e) ud_kit \<Rightarrow> MsgHeader layout \<Rightarrow> UDHyperMeta layout \<Rightarrow>
    ('c \<Rightarrow> UDHyperMeta \<Rightarrow> 'n world \<Rightarrow> ('me + 'ep) \<times> 'n world) \<Rightarrow> ('t \<Rightarrow> int \<times> 't) \<Rightarrow> ('t \<Rightarrow> 't) \<Rightarrow> ('n world \<Rightarrow> 'n world) \<Rightarrow>
    ('n, 'c, 'qp, 'mr, 'ep, 't) worker_state \<Rightarrow> ('n, 'c, 'qp, 'mr, 'ep, 't) worker_state option" where
  "worker_round K H L MF passed reset yield_now s =
     do { (_, h, w) \<leftarrow> hook_poll K H L MF (ws_hook s, ws_world s);
          let s = s\<lparr>ws_hook := h, ws_world := w, ws_counter := ws_counter s + 1\<rparr>;
          Some (if ws_counter s > YIELD_THRESHOLD then
                  (let (usec, t) = passed (ws_timer s)
                   in if usec > YIELD_TIME_USEC
                      then s\<lparr>ws_world := yield_now (ws_world s), ws_timer := reset t, ws_counter := 0\<rparr>
                      else s\<lparr>ws_timer := t, ws_counter := 0\<rparr>)
                else s) }"

fun worker_rounds ::
  "('n, 'c, 'qp, 'mr, 'ep, 'e) ud_kit \<Rightarrow> MsgHeader layout \<Rightarrow> UDHyperMeta layout \<Rightarrow>
    ('c \<Rightarrow> UDHyperMeta \<Rightarrow> 'n world \<Rightarrow> ('me + 'ep) \<times> 'n world) \<Rightarrow> ('t \<Rightarrow> int \<times> 't) \<Rightarrow> ('t \<Rightarrow> 't) \<Rightarrow> ('n world \<Rightarrow> 'n world) \<Rightarrow>
    nat \<Rightarrow> ('n, 'c, 'qp, 'mr, 'ep, 't) worker_state \<Rightarrow> ('n, 'c, 'qp, 'mr, 'ep, 't) worker_state option" where
  "worker_rounds K H L MF passed reset yield_now 0 s = Some s"
| "worker_rounds K H L MF passed reset yield_now (Suc n) s =
     do { s \<leftarrow> worker_round K H L MF passed reset yield_now s; worker_rounds K H L MF passed reset yield_now n s }"

section \<open>Callers\<close>

record ('c, 'qp, 'mr, 'ep) CallerPool =
  cp_pool :: "('qp, 'mr, 'ep) Caller LockBundler list"
  cp_factories :: "'c list"
  cp_contexts :: "'c list"
  cp_metas :: "(u64 \<times> u64) list"

definition caller_hint :: "Config \<Rightarrow> u64 \<Rightarrow> u64 option" where
  "caller_hint cfg i =
     do { t \<leftarrow> checked_mul (rpc_threads_num cfg) 2;
          b \<leftarrow> checked_add QD_HINT_BASE t;
          checked_add b i }"

definition register_fresh_buf ::
  "('n, 'c, 'qp, 'mr, 'ep, 'e) ud_kit \<Rightarrow> 'c \<Rightarrow> nat \<Rightarrow> ('qp, 'mr, 'ep) Caller \<times> 'n world \<Rightarrow> (('qp, 'mr, 'ep) Caller \<times> 'n world) option" where
  "register_fresh_buf K ctx i = (\<lambda>(c, w).
     do { (buf, w) \<leftarrow> udmsg_new K 4096 0 ctx w;
          (_, c, w) \<leftarrow> expect_ok (register_recv_buf K buf (c, w));
          Some (c, w) })"

definition pooled_caller ::
  "('n, 'c, 'b, 'raw, 'qp, 'cp, 'dev, 'sv, 'cm, 'tgt) node_ctl \<Rightarrow> ('n, 'c, 'qp, 'mr, 'ep, 'e) ud_kit \<Rightarrow> Config \<Rightarrow>
    ('c, 'sv, 'cm, 'tgt) rdma_globals \<Rightarrow> u64 \<Rightarrow> 'n world \<Rightarrow> (((('qp, 'mr, 'ep) Caller LockBundler) \<times> 'c \<times> u64 \<times> u64) \<times> 'n world) option" where
  "pooled_caller N K cfg rg i w =
     do { nic \<leftarrow> checked_rem i (num_nics_used cfg);
          hint \<leftarrow> caller_hint cfg i;
          ctx \<leftarrow> vec_get (rdma_contexts rg) nic;
          sv \<leftarrow> vec_get (ud_service rg) nic;
          cm \<leftarrow> vec_get (rdma_cm_service rg) nic;
          (client_ud, w) \<leftarrow> expect_ok (ud_create (qp_ctl.truncate N) ctx (default_nic_port cfg) w);
          let w = reg_qp N sv hint (ud client_ud) w;
          let c = caller_new (receiver_new (ud_clone client_ud) (unat hint));
          (c, w) \<leftarrow> foldo (register_fresh_buf K (qp_ctx K (ud client_ud))) [0..<64] (c, w);
          Some ((bundler_new c, ctx, hint, listen_id N cm), w) }"

definition caller_pool_new ::
  "('n, 'c, 'b, 'raw, 'qp, 'cp, 'dev, 'sv, 'cm, 'tgt) node_ctl \<Rightarrow> ('n, 'c, 'qp, 'mr, 'ep, 'e) ud_kit \<Rightarrow> Config \<Rightarrow>
    ('c, 'sv, 'cm, 'tgt) rdma_globals \<Rightarrow> 'n world \<Rightarrow> (('c, 'qp, 'mr, 'ep) CallerPool \<times> 'n world) option" where
  "caller_pool_new N K cfg rg w =
     do { (cs, w) \<leftarrow> collect (pooled_caller N K cfg rg) (usize_range (max_core_cnt cfg)) w;
          Some (\<lparr>cp_pool = map fst cs, cp_factories = map (fst \<circ> snd) cs, cp_contexts = map (fst \<circ> snd) cs,
                 cp_metas = map (snd \<circ> snd) cs\<rparr>, w) }"

definition caller_pool_len :: "('c, 'qp, 'mr, 'ep) CallerPool \<Rightarrow> u64" where
  "caller_pool_len p = of_nat (length (cp_pool p))"

definition get_caller :: "('c, 'qp, 'mr, 'ep) CallerPool \<Rightarrow> u64 \<Rightarrow> ('qp, 'mr, 'ep) Caller LockBundler option" where
  "get_caller p idx = vec_get (cp_pool p) idx"

definition get_caller_context :: "('c, 'qp, 'mr, 'ep) CallerPool \<Rightarrow> u64 \<Rightarrow> 'c option" where
  "get_caller_context p idx = vec_get (cp_contexts p) idx"

definition create_meta_at ::
  "('c \<Rightarrow> UDHyperMeta \<Rightarrow> 'n world \<Rightarrow> ('me + 'ep) \<times> 'n world) \<Rightarrow> ('c, 'qp, 'mr, 'ep) CallerPool \<Rightarrow> u64 \<Rightarrow> UDHyperMeta \<Rightarrow>
    'n world \<Rightarrow> ('ep option \<times> 'n world) option" where
  "create_meta_at MF p idx hm w =
     do { factory \<leftarrow> vec_get (cp_factories p) idx;
          Some (case MF factory hm w of (Inr ep, w) \<Rightarrow> (Some ep, w) | (Inl _, w) \<Rightarrow> (None, w)) }"

text \<open>Connecting one caller: inside the lock of the caller.\<close>

definition connect_caller ::
  "('n, 'c, 'b, 'raw, 'qp, 'cp, 'dev, 'sv, 'cm, 'tgt) node_ctl \<Rightarrow> ('n, 'c, 'qp, 'mr, 'ep, 'e) ud_kit \<Rightarrow> MsgHeader layout \<Rightarrow> UDHyperMeta layout \<Rightarrow>
    u64 \<Rightarrow> u64 \<Rightarrow> 'ep \<Rightarrow> ib_gid \<Rightarrow> u64 \<times> u64 \<Rightarrow> 'n world \<Rightarrow> ('qp, 'mr, 'ep) Caller \<Rightarrow>
    ((unit option \<times> 'n world) \<times> ('qp, 'mr, 'ep) Caller) option" where
  "connect_caller N K H L session_id my_session_id ep my_gid hs w c =
     (if session_connected session_id c then Some ((None, w), c)
      else do { let s = session_create (r_inner (inner_receiver c)) ep;
                let port = qp_port_num N (ud (ss_inner s));
                (_, c, w) \<leftarrow> Option.bind (caller_connect K H L session_id my_session_id s
                    \<lparr>hm_gid = my_gid, hm_service_id = snd hs, hm_qd_hint = fst hs, hm_local_port = port\<rparr> (c, w)) expect_ok;
                ((msg, _), c, w) \<leftarrow> Option.bind (block_on_panicky (caller_poll K H) (c, w)) expect_ok;
                (_, c, w) \<leftarrow> expect_ok (register_recv_buf K msg (c, w));
                Some ((Some (), w), c) })"

definition connect_session_at ::
  "('n, 'c, 'b, 'raw, 'qp, 'cp, 'dev, 'sv, 'cm, 'tgt) node_ctl \<Rightarrow> ('n, 'c, 'qp, 'mr, 'ep, 'e) ud_kit \<Rightarrow> MsgHeader layout \<Rightarrow> UDHyperMeta layout \<Rightarrow>
    ('c \<Rightarrow> UDHyperMeta \<Rightarrow> 'n world \<Rightarrow> ('me + 'ep) \<times> 'n world) \<Rightarrow> u64 \<Rightarrow> u64 \<Rightarrow> u64 \<Rightarrow> UDHyperMeta \<Rightarrow>
    ('c, 'qp, 'mr, 'ep) CallerPool \<times> 'n world \<Rightarrow> (unit option \<times> ('c, 'qp, 'mr, 'ep) CallerPool \<times> 'n world) option" where
  "connect_session_at N K H L MF idx session_id my_session_id hm = (\<lambda>(p, w).
     do { (ep, w) \<leftarrow> create_meta_at MF p idx hm w;
          (case ep of
             None \<Rightarrow> Some (None, p, w)
           | Some ep \<Rightarrow>
               do { ctx \<leftarrow> vec_get (cp_contexts p) idx;
                    my_gid \<leftarrow> query_gid N ctx 1;
                    hs \<leftarrow> vec_get (cp_metas p) idx;
                    (case get_caller p idx of
                       None \<Rightarrow> Some (None, p, w)
                     | Some b \<Rightarrow>
                         do { ((r, w), b) \<leftarrow> bundler_lock (connect_caller N K H L session_id my_session_id ep my_gid hs w) b;
                              Some (r, p\<lparr>cp_pool := vec_put (cp_pool p) idx b\<rparr>, w) }) }) })"

text \<open>Connecting all callers to the machine \<open>remote\<close>; the first one that fails ends the loop.\<close>

fun probe_loop ::
  "('n, 'c, 'b, 'raw, 'qp, 'cp, 'dev, 'sv, 'cm, 'tgt) node_ctl \<Rightarrow> ('n, 'c, 'qp, 'mr, 'ep, 'e) ud_kit \<Rightarrow> MsgHeader layout \<Rightarrow> UDHyperMeta layout \<Rightarrow>
    ('c \<Rightarrow> UDHyperMeta \<Rightarrow> 'n world \<Rightarrow> ('me + 'ep) \<times> 'n world) \<Rightarrow> (string \<Rightarrow> ib_gid option) \<Rightarrow> u64 \<Rightarrow> u64 \<Rightarrow> u64 \<Rightarrow> HandlerConnectInfo \<Rightarrow>
    u64 list \<Rightarrow> ('c, 'qp, 'mr, 'ep) CallerPool \<times> 'n world \<Rightarrow> (unit option \<times> ('c, 'qp, 'mr, 'ep) CallerPool \<times> 'n world) option" where
  "probe_loop N K H L MF string_to_gid mac len remote info [] s = Some (Some (), s)"
| "probe_loop N K H L MF string_to_gid mac len remote info (i # is) s =
     do { sid \<leftarrow> calculate_session_id remote i len;
          mine \<leftarrow> calculate_session_id mac i len;
          (case string_to_gid (hci_gid info) of
             None \<Rightarrow> Some (None, s)
           | Some g \<Rightarrow>
               do { (r, s) \<leftarrow> connect_session_at N K H L MF i sid mine
                      \<lparr>hm_gid = g, hm_service_id = hci_service_id info, hm_qd_hint = hci_qd_hint info, hm_local_port = hci_local_port info\<rparr> s;
                    (case r of
                       None \<Rightarrow> Some (None, s)
                     | Some _ \<Rightarrow> probe_loop N K H L MF string_to_gid mac len remote info is s) }) }"

definition probe_remote_rpc_end ::
  "('n, 'c, 'b, 'raw, 'qp, 'cp, 'dev, 'sv, 'cm, 'tgt) node_ctl \<Rightarrow> ('n, 'c, 'qp, 'mr, 'ep, 'e) ud_kit \<Rightarrow> MsgHeader layout \<Rightarrow> UDHyperMeta layout \<Rightarrow>
    ('c \<Rightarrow> UDHyperMeta \<Rightarrow> 'n world \<Rightarrow> ('me + 'ep) \<times> 'n world) \<Rightarrow> (string \<Rightarrow> ib_gid option) \<Rightarrow> u64 \<Rightarrow> u64 \<Rightarrow> HandlerConnectInfo \<Rightarrow>
    ('c, 'qp, 'mr, 'ep) CallerPool \<times> 'n world \<Rightarrow> (unit option \<times> ('c, 'qp, 'mr, 'ep) CallerPool \<times> 'n world) option" where
  "probe_remote_rpc_end N K H L MF string_to_gid mac remote info s =
     (let len = caller_pool_len (fst s) in probe_loop N K H L MF string_to_gid mac len remote info (usize_range len) s)"

section \<open>Starting an instance\<close>

text \<open>
  The globals of the module after \<open>init_mitosis\<close>; factories are their contexts. The Cargo features
  \<open>prefetch\<close> and \<open>use_rc\<close> are arguments.
\<close>

record ('c, 'sv, 'cm, 'tgt, 'qp, 'ep, 'r, 'mr, 'rc) mitosis_globals =
  my_mac_id :: u64
  caller_num :: u64
  max_nics :: u64
  cluster_size :: u64
  rdma_state :: "('c, 'sv, 'cm, 'tgt) rdma_globals"
  ud_factories :: "'c list"
  dc_factories :: "'c list"
  access_info_service :: "'ep AccessInfoPool"
  rc_pools :: "'rc RCPool list"
  dc_pool_service :: "'qp DCPool"
  dc_pool_service_async :: "'qp DCPool LockBundler option"
  fork_state :: "('r, 'c, 'mr, 'tgt) fork_globals"
  global_pt_cache :: RemotePageTableCache

definition init_mitosis ::
  "('n, 'c, 'b, 'raw, 'qp, 'cp, 'dev, 'sv, 'cm, 'tgt) node_ctl \<Rightarrow> ('n, 'c, 'uqp, 'mr, 'uep, 'e) ud_kit \<Rightarrow> nat \<Rightarrow> bool \<Rightarrow> bool \<Rightarrow> Config \<Rightarrow>
    'n world \<Rightarrow> (('c, 'sv, 'cm, 'tgt, 'qp, 'ep, 'r, 'mr, 'rc) mitosis_globals \<times> 'n world) option" where
  "init_mitosis N K max_kmalloc prefetch use_rc cfg w =
     do { (rg, w) \<leftarrow> start_rdma N cfg w;
          rg \<leftarrow> rg;
          (dcs, w) \<leftarrow> dc_pool_new N cfg (rdma_contexts rg) w;
          (adcs, w) \<leftarrow> (if prefetch then do { (p, w) \<leftarrow> dc_pool_new N cfg (rdma_contexts rg) w; Some (Some (bundler_new p), w) }
                       else Some (None, w));
          (ts, w) \<leftarrow> target_pool_new N cfg (rdma_contexts rg) w;
          ctx \<leftarrow> vec_get (rdma_contexts rg) 0;
          (mp, w) \<leftarrow> mem_pool_new K max_kmalloc (mem_pool_size cfg) ctx w;
          Some (\<lparr>my_mac_id = machine_id cfg, caller_num = max_core_cnt cfg, max_nics = num_nics_used cfg,
                 cluster_size = max_cluster_size cfg, rdma_state = rg, ud_factories = rdma_contexts rg, dc_factories = rdma_contexts rg,
                 access_info_service = access_pool_new (max_core_cnt cfg),
                 rc_pools = (if use_rc then map (\<lambda>_. rc_pool_new) (usize_range (max_core_cnt cfg)) else []),
                 dc_pool_service = dcs, dc_pool_service_async = adcs,
                 fork_state = \<lparr>sp_service = sps_new, fg_mem_pool = mp, fg_targets = ts\<rparr>, global_pt_cache = Map.empty\<rparr>, w) }"

text \<open>The threads count themselves in when they are ready; \<open>load\<close> reads the counter.\<close>

partial_function (option) wait_handlers_ready_barrier :: "('n world \<Rightarrow> u64 \<times> 'n world) \<Rightarrow> u64 \<Rightarrow> 'n world \<Rightarrow> 'n world option" where
  "wait_handlers_ready_barrier load wait_num w =
     (let (n, w) = load w in if n \<ge> wait_num then Some w else wait_handlers_ready_barrier load wait_num w)"

definition init_rpc ::
  "('n, 'c, 'b, 'raw, 'qp, 'cp, 'dev, 'sv, 'cm, 'tgt) node_ctl \<Rightarrow> ('n, 'c, 'qp, 'mr, 'ep, 'e) ud_kit \<Rightarrow> (ib_gid \<Rightarrow> string) \<Rightarrow>
    (ThreadCTX \<Rightarrow> 'n world \<Rightarrow> 'j option \<times> 'n world) \<Rightarrow> ('n world \<Rightarrow> u64 \<times> 'n world) \<Rightarrow> Config \<Rightarrow> ('c, 'sv, 'cm, 'tgt) rdma_globals \<Rightarrow>
    'n world \<Rightarrow> ('j RpcService \<times> ('c, 'qp, 'mr, 'ep) CallerPool \<times> 'n world) option" where
  "init_rpc N K gid_to_string spawn load cfg rg w =
     do { (s, w) \<leftarrow> new_with_worker N gid_to_string spawn cfg (rdma_contexts rg) w;
          s \<leftarrow> s;
          (p, w) \<leftarrow> caller_pool_new N K cfg rg w;
          w \<leftarrow> wait_handlers_ready_barrier load (rpc_threads_num cfg) w;
          Some (s, p, w) }"

section \<open>Receive buffers of a server\<close>

text \<open>
  \<open>posted\<close> counts the receive buffers the device holds, those with a message not yet polled included:
  posting adds one, polling a completion takes one, and nothing else changes it.
\<close>

definition counts_bufs :: "('n, 'c, 'qp, 'mr, 'ep, 'e) ud_kit \<Rightarrow> 'qp \<Rightarrow> ('n \<Rightarrow> nat) \<Rightarrow> bool" where
  "counts_bufs K qp posted \<longleftrightarrow>
     (\<forall>mr r pa w x w'. post_recv K qp mr r pa w = (x, w') \<longrightarrow>
        posted (w_net w') = posted (w_net w) + (case x of Inl _ \<Rightarrow> 0 | Inr _ \<Rightarrow> 1))
   \<and> (\<forall>w x w'. poll_recv_cq K qp w = (x, w') \<longrightarrow>
        posted (w_net w) = posted (w_net w') + (case x of Inr (_ # _) \<Rightarrow> 1 | _ \<Rightarrow> 0))"

definition quiet_send :: "('n, 'c, 'qp, 'mr, 'ep, 'e) ud_kit \<Rightarrow> 'qp \<Rightarrow> ('n \<Rightarrow> 'd) \<Rightarrow> bool" where
  "quiet_send K qp obs \<longleftrightarrow>
     (\<forall>ep mr r va sg w x w'. post_datagram K qp ep mr r va sg w = (x, w') \<longrightarrow> obs (w_net w') = obs (w_net w))
   \<and> (\<forall>w x w'. poll_ud_send K qp w = (x, w') \<longrightarrow> obs (w_net w') = obs (w_net w))
   \<and> (\<forall>ctx sz w mr w'. mr_new K ctx sz w = Some (mr, w') \<longrightarrow> obs (w_net w') = obs (w_net w))"

lemma session_post_quiet:
  assumes "quiet_send K qp obs" "ud (ss_inner s) = qp" "session_post K buf n sg (s, w) = Some (r, s', w')"
  shows "obs (w_net w') = obs (w_net w) \<and> ud (ss_inner s') = qp"
proof -
  have "obs (w_net w') = obs (w_net w)" if "post_datagram K qp ep mr r va sg w = (x, w')" for ep mr r va x
    using assms(1) that unfolding quiet_send_def by blast
  then show ?thesis
    using assms(2) by (cases rule: session_post_cases [OF assms(3)]) auto
qed

lemma block_on_quiet_send:
  assumes "quiet_send K qp obs" "ud (ss_inner s) = qp" "block_on (session_poll K) (s, w) = Some (r, s', w')"
  shows "obs (w_net w') = obs (w_net w)"
proof (rule block_on_quiet [OF _ assms(2,3)])
  show "obs (w_net w') = obs (w_net w)" if "poll_ud_send K qp w = (x, w')" for w x w'
    using assms(1) that unfolding quiet_send_def by blast
qed

lemma send_reply_quiet:
  assumes "quiet_send K (hook_qp h) obs" "hook_ok K h" "send_reply K H i reply (h, w) = Some (r, h', w')"
  shows "obs (w_net w') = obs (w_net w)"
proof (cases "connected_sessions h i")
  case (Some x)
  then obtain s buf where x: "connected_sessions h i = Some (s, buf)"
    by (cases x) auto
  then have qp: "ud (ss_inner s) = hook_qp h"
    using hook_ok_session [OF assms(2)] by (fastforce simp: session_ok_def)
  obtain m g where g: "reply_generate H reply (w_mem w) (msg_bytes buf) = (m, g)"
    by fastforce
  obtain n ret s1 w1 where n: "g = Some n" and post: "session_post K buf (rsf_payload reply + n) (get_pending_reqs s = 0) (s, w\<lparr>w_mem := m\<rparr>) = Some (ret, s1, w1)"
    using assms(3) x g by (auto simp: send_reply_def bind_eq_Some_conv)
  have s1: "obs (w_net w1) = obs (w_net w)" "ud (ss_inner s1) = hook_qp h"
    using session_post_quiet [OF assms(1) qp post] by simp_all
  show ?thesis
  proof (cases "get_pending_reqs s1 > 4")
    case True
    then obtain res s2 w2 where b: "block_on (session_poll K) (s1, w1) = Some (res, s2, w2)" "w' = w2"
      using assms(3) x g n post by (auto simp: send_reply_def bind_eq_Some_conv split: sum.splits) (metis obj_sumE)
    then show ?thesis
      using s1 block_on_quiet_send [OF assms(1) s1(2) b(1)] by simp
  next
    case False
    then show ?thesis
      using assms(3) x g n post s1(1) by (auto simp: send_reply_def bind_eq_Some_conv)
  qed
qed (use assms(3) in \<open>simp add: send_reply_def\<close>)

lemma connect_quiet:
  assumes "quiet_send K (hook_qp h) obs" "quiet_meta MF obs" "hook_ok K h"
    and "hook_connect K H L MF i args (h, w) = Some (r, h', w')"
    and "quiet_recv K (hook_qp h) due"
  shows "obs (w_net w') = obs (w_net w)"
proof (cases "connected_sessions h i = None")
  case True
  obtain sm d where sm: "memcpy_deserialize L (w_mem w) args hyper_meta_default = (sm, d)"
    by fastforce
  obtain p w1 where p: "MF (meta_factory h) sm w = (p, w1)"
    by fastforce
  have w1: "obs (w_net w1) = obs (w_net w)"
    using assms(2) p by (metis quiet_meta_def snd_conv)
  consider (bad) "d = None" | (refused) k e where "d = Some k" "p = Inl e" | (made) k ep where "d = Some k" "p = Inr ep"
    by (metis option.exhaust sum.exhaust)
  then show ?thesis
  proof cases
    case made
    obtain buf w2 where buf: "udmsg_new K RECV_MTU 0 (receiver_context K (transport h)) w1 = Some (buf, w2)"
      "msg_bytes buf = from_raw (unat (mr_virt K (msg_inner buf))) RECV_MTU"
      using quiet_udmsg_new [OF assms(5)] by blast
    obtain mr where "mr_new K (receiver_context K (transport h)) RECV_MTU w1 = Some (mr, w2)"
      using buf(1) by (auto simp: udmsg_new_def bind_eq_Some_conv)
    then have w2: "obs (w_net w2) = obs (w_net w1)"
      using assms(1) unfolding quiet_send_def by blast
    let ?s = "session_create (session_factory h) ep"
    have "session_ok K (hook_qp h) 4 (?s, buf)"
      using assms(3) buf(2) by (simp add: hook_ok_def session_ok_def session_create_def ud_clone_def get_pending_reqs_def)
    then have "hook_ok K (put_session i ?s buf h)"
      by (rule hook_ok_put [OF assms(3)])
    moreover have "send_reply K H i (reply_factory_new ReplyOk 0) (put_session i ?s buf h, w2) = Some (r, h', w')"
      using assms(4) True sm p made buf(1) by (simp add: hook_connect_def)
    ultimately have "obs (w_net w') = obs (w_net w2)"
      using assms(1) by (intro send_reply_quiet [of K "put_session i ?s buf h"]) simp_all
    then show ?thesis
      using w1 w2 by simp
  qed (use assms(4) True sm p w1 in \<open>simp_all add: hook_connect_def\<close>)
qed (use assms(4) in \<open>auto simp: hook_connect_def\<close>)

lemma request_quiet:
  assumes "quiet_send K (hook_qp h) obs" "hook_ok K h" "size_of H \<le> RECV_MTU"
    and "tame_callbacks (service h) (RECV_MTU - size_of H) obs"
    and "hook_request K H stub args (h, w) = Some (r, h', w')"
  shows "obs (w_net w') = obs (w_net w)"
proof (cases "connected_sessions h (call_session_id stub)")
  case (Some x)
  obtain s buf where x: "connected_sessions h (call_session_id stub) = Some (s, buf)"
    using Some by (cases x) auto
  have len: "bm_len (msg_bytes buf) = RECV_MTU"
    using hook_ok_session [OF assms(2) x] by (simp add: session_ok_def from_raw_def)
  let ?out = "reply_view H buf"
  have out: "truncate_header (msg_bytes buf) (size_of H) = Some ?out"
    using len assms(3) by (simp add: truncate_header_def reply_view_def)
  obtain rp w1 a where run: "service_execute (call_rpc_id stub) args ?out (service h) w = Some (rp, w1)"
    "analysis_ok (analysis h)" "handle_one (analysis h) \<bind> handle_session_call (call_session_id stub) = Some a"
    "send_reply K H (call_session_id stub) (case rp of Some sz \<Rightarrow> reply_factory_new ReplyOk sz | None \<Rightarrow> reply_factory_new NotExist 0)
       (h\<lparr>analysis := a\<rparr>, w1) = Some (r, h', w')"
    using assms(2,5) x out by (auto simp: hook_request_def bind_eq_Some_conv hook_ok_def)
  have w1: "obs (w_net w1) = obs (w_net w)"
  proof (cases "callbacks (service h) (call_rpc_id stub)")
    case None
    then show ?thesis
      using run(1) by (simp add: service_execute_def)
  next
    case cb: (Some cb)
    have "bm_len ?out = RECV_MTU - size_of H"
      by (simp add: reply_view_def)
    with cb obtain n w2 where "cb args ?out w = Some (n, w2)" "obs (w_net w2) = obs (w_net w)"
      using assms(4) unfolding tame_callbacks_def by blast
    then show ?thesis
      using run(1) cb by (simp add: service_execute_def)
  qed
  obtain a1 where a1: "handle_one (analysis h) = Some a1" "handle_session_call (call_session_id stub) a1 = Some a"
    using run(3) by (auto simp: bind_eq_Some_conv)
  have "analysis_ok a"
    using handle_session_fits [OF run(2) a1(1), of "call_session_id stub"] count_call_ok [OF run(2) a1(1)] a1(2) by blast
  then have "hook_ok K (h\<lparr>analysis := a\<rparr>)" "hook_qp (h\<lparr>analysis := a\<rparr>) = hook_qp h"
    using assms(2) by (simp_all add: hook_ok_def hook_qp_def)
  then have "obs (w_net w') = obs (w_net w1)"
    using assms(1) run(4) by (intro send_reply_quiet [of K "h\<lparr>analysis := a\<rparr>"]) simp_all
  then show ?thesis
    using w1 by simp
qed (use assms(5) in \<open>simp add: hook_request_def\<close>)

lemma dispatch_quiet:
  assumes "quiet_send K (hook_qp h) obs" "quiet_meta MF obs" "hook_ok K h" "size_of H \<le> RECV_MTU"
    and "tame_callbacks (service h) (RECV_MTU - size_of H) obs" "quiet_recv K (hook_qp h) due"
    and "hook_dispatch K H L MF hdr args (h, w) = Some (r, h', w')"
  shows "obs (w_net w') = obs (w_net w)"
  using assms(7) connect_quiet [OF assms(1-3) _ assms(6)] request_quiet [OF assms(1,3-5)]
  by (cases "marker hdr") (simp_all add: hook_dispatch_def split: option.splits)

text \<open>A poll keeps the queue of the server as long as the device's list of buffers.\<close>

lemma poll_posted:
  assumes "counts_bufs K (hook_qp h) posted" "quiet_send K (hook_qp h) posted" "quiet_meta MF posted" "server_ok K due (h, w)"
    and "size_of H \<le> RECV_MTU" "tame_callbacks (service h) (RECV_MTU - size_of H) posted" "quiet_recv K (hook_qp h) due"
    and "posted (w_net w) = length (msg_queues (transport h))"
    and "hook_poll K H L MF (h, w) = Some (r, h', w')" "hook_qp h' = hook_qp h"
  shows "posted (w_net w') = length (msg_queues (transport h'))"
proof -
  have recv: "posted (w_net v') = posted (w_net v) + (case x of Inl _ \<Rightarrow> 0 | Inr _ \<Rightarrow> 1)"
    if "post_recv K (hook_qp h) mr q pa v = (x, v')" for mr q pa v x v'
    using assms(1) that unfolding counts_bufs_def by blast
  have cq: "posted (w_net v) = posted (w_net v') + (case x of Inr (_ # _) \<Rightarrow> 1 | _ \<Rightarrow> 0)"
    if "poll_recv_cq K (hook_qp h) v = (x, v')" for v x v'
    using assms(1) that unfolding counts_bufs_def by blast
  obtain p t w1 where p: "receiver_poll K (transport h, w) = Some (p, t, w1)"
    using assms(9) by (auto simp: hook_poll_def bind_eq_Some_conv)
  have w1: "posted (w_net w1) = length (msg_queues t)"
    using p assms(8) cq [of w] by (auto simp: receiver_poll_def hook_qp_def split: prod.splits sum.splits list.splits)
  have stop: ?thesis if "transport h' = t \<and> w' = w1"
    using that w1 by simp
  consider (err) e where "p = Inl e" | (wait) "p = Inr NotReady" | (bad) msg where "p = Inr (Ready msg)" "hook_received K H (h, w) = None"
    | (msg) msg hdr args where "p = Inr (Ready msg)" "hook_received K H (h, w) = Some (hdr, args)"
    by (metis Async.exhaust not_None_eq sum.exhaust surj_pair)
  then show ?thesis
  proof cases
    case (msg msg hdr args)
    let ?h = "h\<lparr>transport := t\<rparr>"
    have ok: "hook_ok K ?h" "hook_qp ?h = hook_qp h"
      using handled_receive [OF assms(4,7) p] by (simp_all add: server_ok_def)
    obtain r1 h2 w2 where d: "hook_dispatch K H L MF hdr args (?h, w1) = Some (r1, h2, w2)"
      using assms(9) p msg by (auto simp: hook_poll_def hook_received_def bind_eq_Some_conv)
    have "posted (w_net w2) = posted (w_net w1)"
      by (rule dispatch_quiet [OF _ assms(3) ok(1) assms(5) _ _ d]) (use assms(2,6,7) ok(2) in simp_all)
    moreover have "transport h2 = t"
      using dispatch_keeps [OF d] by simp
    moreover have "ud (r_inner t) = hook_qp h"
      using ok(2) by (simp add: hook_qp_def)
    ultimately show ?thesis
      using hook_poll_ready [OF p [unfolded msg(1)] msg(2) d] assms(9) w1 recv [of "msg_inner msg" "(0, of_nat (udmsg_len msg))" "udmsg_get_pa K msg" w2]
      by (auto simp: post_recv_buf_def split: sum.splits prod.splits)
  qed (use assms(9) p stop in \<open>auto simp: hook_poll_def hook_received_def\<close>)
qed

section \<open>The server thread\<close>

text \<open>A datagram network in working order, as seen by one queue pair.\<close>

definition working_network ::
  "('n, 'c, 'qp, 'mr, 'ep, 'e) ud_kit \<Rightarrow> 'qp \<Rightarrow> ('c \<Rightarrow> UDHyperMeta \<Rightarrow> 'n world \<Rightarrow> ('me + 'ep) \<times> 'n world) \<Rightarrow>
    ('n \<Rightarrow> nat) \<Rightarrow> ('n \<Rightarrow> nat) \<Rightarrow> ('n \<Rightarrow> nat) \<Rightarrow> bool" where
  "working_network K qp MF due delay posted \<longleftrightarrow>
     counts_sends K qp due delay \<and> quiet_recv K qp due \<and> quiet_meta MF due
   \<and> counts_bufs K qp posted \<and> quiet_send K qp posted \<and> quiet_meta MF posted"

definition worker_ok ::
  "('n, 'c, 'qp, 'mr, 'ep, 'e) ud_kit \<Rightarrow> ('n \<Rightarrow> nat) \<Rightarrow> ('n \<Rightarrow> nat) \<Rightarrow> 'qp \<Rightarrow> 'n world Service \<Rightarrow> nat \<Rightarrow>
    ('n, 'c, 'qp, 'mr, 'ep) RPCHook \<times> 'n world \<Rightarrow> bool" where
  "worker_ok K due posted qp sv n = (\<lambda>(h, w).
     server_ok K due (h, w) \<and> hook_qp h = qp \<and> service h = sv \<and> ncalls (analysis h) \<le> n
   \<and> posted (w_net w) = length (msg_queues (transport h)))"

lemma poll_worker_ok:
  assumes "working_network K qp MF due delay posted" "size_of H \<le> RECV_MTU"
    and "tame_callbacks sv (RECV_MTU - size_of H) due" "tame_callbacks sv (RECV_MTU - size_of H) posted"
    and "worker_ok K due posted qp sv n (h, w)" "n + 1 < 2 ^ 64"
    and "\<And>hdr args. hook_received K H (h, w) = Some (hdr, args) \<Longrightarrow> marker hdr \<noteq> DisConnect"
  shows "\<exists>r h' w'. hook_poll K H L MF (h, w) = Some (r, h', w') \<and> worker_ok K due posted qp sv (n + 1) (h', w')"
proof -
  have net: "counts_sends K qp due delay" "quiet_recv K qp due" "quiet_meta MF due" "counts_bufs K qp posted" "quiet_send K qp posted"
    "quiet_meta MF posted"
    using assms(1) by (simp_all add: working_network_def)
  have ok: "server_ok K due (h, w)" "hook_qp h = qp" "service h = sv" "ncalls (analysis h) \<le> n"
    "posted (w_net w) = length (msg_queues (transport h))"
    using assms(5) by (simp_all add: worker_ok_def)
  have "msg_queues (transport h) \<noteq> []" if "poll_recv_cq K qp w = (Inr (wc # wcs), w1)" for wc wcs w1
    using net(4) that ok(5) unfolding counts_bufs_def by fastforce
  then have "receiver_poll K (transport h, w) \<noteq> None"
    using ok(2) by (auto simp: receiver_poll_def hook_qp_def split: prod.splits sum.splits list.splits)
  then have "handled K due h (hook_poll K H L MF (h, w))"
    using hook_poll_handled [of K h due delay w H MF L] net ok assms(2,3,6,7) by simp
  then obtain r h' w' where r: "hook_poll K H L MF (h, w) = Some (r, h', w')" "server_ok K due (h', w')" "hook_qp h' = qp" "service h' = sv"
    using ok(2,3) unfolding handled_def by auto
  have "posted (w_net w') = length (msg_queues (transport h'))"
    by (rule poll_posted [OF _ _ net(6) ok(1) assms(2) _ _ ok(5) r(1)]) (use net ok r(3) assms(4) in simp_all)
  then show ?thesis
    using r hook_poll_ncalls [OF r(1)] ok(4) by (auto simp: worker_ok_def)
qed

definition quiet_yield :: "('n world \<Rightarrow> 'n world) \<Rightarrow> ('n \<Rightarrow> 'd) \<Rightarrow> bool" where
  "quiet_yield yield_now obs \<longleftrightarrow> (\<forall>w. obs (w_net (yield_now w)) = obs (w_net w))"

lemma worker_round_ok:
  assumes "working_network K qp MF due delay posted" "size_of H \<le> RECV_MTU"
    and "tame_callbacks sv (RECV_MTU - size_of H) due" "tame_callbacks sv (RECV_MTU - size_of H) posted"
    and "quiet_yield yield_now due" "quiet_yield yield_now posted"
    and "worker_ok K due posted qp sv n (ws_hook s, ws_world s)" "n + 1 < 2 ^ 64"
    and "\<And>hdr args. hook_received K H (ws_hook s, ws_world s) = Some (hdr, args) \<Longrightarrow> marker hdr \<noteq> DisConnect"
  shows "\<exists>s'. worker_round K H L MF passed reset yield_now s = Some s' \<and> worker_ok K due posted qp sv (n + 1) (ws_hook s', ws_world s')"
proof -
  obtain r h' w' where r: "hook_poll K H L MF (ws_hook s, ws_world s) = Some (r, h', w')"
    and ok: "worker_ok K due posted qp sv (n + 1) (h', w')"
    using poll_worker_ok [OF assms(1-4,7,8)] assms(9) by blast
  have "worker_ok K due posted qp sv (n + 1) (h', yield_now w')"
    using ok assms(5,6) by (simp add: worker_ok_def server_ok_def quiet_yield_def)
  with ok r show ?thesis
    by (auto simp: worker_round_def Let_def split: prod.splits)
qed

lemma worker_rounds_ok:
  assumes "working_network K qp MF due delay posted" "size_of H \<le> RECV_MTU"
    and "tame_callbacks sv (RECV_MTU - size_of H) due" "tame_callbacks sv (RECV_MTU - size_of H) posted"
    and "quiet_yield yield_now due" "quiet_yield yield_now posted"
    and "worker_ok K due posted qp sv k (ws_hook s, ws_world s)" "k + n < 2 ^ 64"
    and "worker_rounds K H L MF passed reset yield_now n s = None"
  shows "\<exists>m s' hdr args. m < n \<and> worker_rounds K H L MF passed reset yield_now m s = Some s'
    \<and> hook_received K H (ws_hook s', ws_world s') = Some (hdr, args) \<and> marker hdr = DisConnect"
  using assms(7-9)
proof (induction n arbitrary: k s)
  case (Suc n)
  show ?case
  proof (cases "\<exists>hdr args. hook_received K H (ws_hook s, ws_world s) = Some (hdr, args) \<and> marker hdr = DisConnect")
    case True
    then show ?thesis
      by (intro exI [of _ 0] exI [of _ s]) auto
  next
    case False
    then obtain s' where s': "worker_round K H L MF passed reset yield_now s = Some s'"
      "worker_ok K due posted qp sv (k + 1) (ws_hook s', ws_world s')"
      using worker_round_ok [OF assms(1-6) Suc.prems(1)] Suc.prems(2) by fastforce
    have "k + 1 + n < 2 ^ 64" "worker_rounds K H L MF passed reset yield_now n s' = None"
      using Suc.prems(2,3) s'(1) by simp_all
    from Suc.IH [OF s'(2) this] obtain m t hdr args where "m < n" "worker_rounds K H L MF passed reset yield_now m s' = Some t"
      "hook_received K H (ws_hook t, ws_world t) = Some (hdr, args)" "marker hdr = DisConnect"
      by blast
    then show ?thesis
      using s'(1) by (intro exI [of _ "Suc m"] exI [of _ t]) simp
  qed
qed simp

text \<open>The callbacks of the thread return for every input, with a reply that fits.\<close>

lemma lookup_total:
  assumes "dc_target rg \<noteq> []" "length (dc_target_meta rg) = length (dc_target rg)" "length (dc_target rg) < 2 ^ 64"
  shows "\<exists>n m. handle_descriptor_addr_lookup N K DL cpu rg sps_of input out w = Some (n, w\<lparr>w_mem := m\<rparr>) \<and> n \<le> size_of DL"
proof -
  obtain key x where key: "memcpy_deserialize u64_layout (w_mem w) input 0 = (key, x)"
    by fastforce
  let ?n = "length (dc_target rg)" and ?i = "cpu mod of_nat (length (dc_target rg))"
  have n: "unat (of_nat ?n :: u64) = ?n" "(of_nat ?n :: u64) \<noteq> 0"
    using assms(1,3) by (simp_all add: unat_of_nat unat_eq_0 [symmetric])
  then have "unat ?i < ?n"
    using assms(1) by (simp add: unat_mod)
  then have "vec_get (dc_target rg) ?i = Some (dc_target rg ! unat ?i)" "vec_get (dc_target_meta rg) ?i = Some (dc_target_meta rg ! unat ?i)"
    using assms(2) by (simp_all add: vec_get_def)
  moreover have "w\<lparr>w_mem := w_mem w\<rparr> = w"
    by simp
  ultimately show ?thesis
    using key n(2)
    by (cases "query_descriptor_buf (sps_of (w_net w)) key")
      (auto simp: handle_descriptor_addr_lookup_def checked_rem_def serialization_buf_len_default_def split: prod.splits
        intro: exI [of _ "w_mem w"])
qed

lemma echo_total:
  assumes "64 \<le> bm_len out"
  shows "\<exists>m. handle_echo inp out w = Some (64, w\<lparr>w_mem := m\<rparr>)"
  using assms by (auto simp: handle_echo_def ascii_def write_str_def)

definition lookup_on ::
  "('n, 'c, 'b, 'raw, 'qp, 'cp, 'dev, 'sv, 'cm, 'tgt) node_ctl \<Rightarrow> ('n, 'c, 'qp, 'mr, 'ep, 'e) ud_kit \<Rightarrow> DescriptorLookupReply layout \<Rightarrow>
    ('n world \<Rightarrow> u64) \<Rightarrow> ('c, 'sv, 'cm, 'tgt) rdma_globals \<Rightarrow> ('n \<Rightarrow> ('r, 'mr, 'tgt) ShadowProcessService) \<Rightarrow> 'n world callback" where
  "lookup_on N K DL cpu rg sps_of = (\<lambda>inp out w. handle_descriptor_addr_lookup N K DL (cpu w) rg sps_of inp out w)"

lemma worker_callbacks_tame:
  assumes "dc_target rg \<noteq> []" "length (dc_target_meta rg) = length (dc_target rg)" "length (dc_target rg) < 2 ^ 64"
    and "size_of DL \<le> room" "64 \<le> room"
  shows "tame_callbacks (register_callbacks (lookup_on N K DL cpu rg sps_of) service_new) room obs"
proof -
  have "\<exists>n w'. handle_nil inp out w = Some (n, w') \<and> n \<le> room \<and> obs (w_net w') = obs (w_net w)" for inp out w
    using assms(5) by (simp add: handle_nil_def)
  moreover have "\<exists>n w'. handle_echo inp out w = Some (n, w') \<and> n \<le> room \<and> obs (w_net w') = obs (w_net w)"
    if "bm_len out = room" for inp out w
    using echo_total [of out inp w] that assms(5) by auto
  moreover have "\<exists>n w'. lookup_on N K DL cpu rg sps_of inp out w = Some (n, w') \<and> n \<le> room \<and> obs (w_net w') = obs (w_net w)" for inp out w
    using lookup_total [OF assms(1-3), of N K DL "cpu w" sps_of inp out w] assms(4) by (auto simp: lookup_on_def)
  ultimately show ?thesis
    by (auto simp: tame_callbacks_def register_callbacks_def service_register_def service_new_def split: if_splits)
qed

lemma post_fresh_worker_ok:
  assumes "working_network K qp MF due delay posted" "worker_ok K due posted qp sv n (h, w)"
  shows "\<exists>h' w'. post_fresh_buf K ctx i (h, w) = Some (h', w') \<and> worker_ok K due posted qp sv n (h', w')"
proof -
  have net: "quiet_recv K qp due" "counts_bufs K qp posted" "quiet_send K qp posted"
    using assms(1) by (simp_all add: working_network_def)
  obtain buf w1 where buf: "udmsg_new K 4096 0 ctx w = Some (buf, w1)" "due (w_net w1) = due (w_net w)"
    using quiet_udmsg_new [OF net(1)] by blast
  obtain mr where "mr_new K ctx 4096 w = Some (mr, w1)"
    using buf(1) by (auto simp: udmsg_new_def bind_eq_Some_conv)
  then have w1: "posted (w_net w1) = posted (w_net w)"
    using net(3) unfolding quiet_send_def by blast
  obtain r t w2 where p: "post_recv_buf K buf (transport h, w1) = (r, t, w2)"
    by (metis prod_cases3)
  have qp: "ud (r_inner (transport h)) = qp"
    using assms(2) by (simp add: worker_ok_def hook_qp_def)
  have recv: "posted (w_net v') = posted (w_net v) + (case x of Inl _ \<Rightarrow> 0 | Inr _ \<Rightarrow> 1)"
    if "post_recv K qp mr q pa v = (x, v')" for mr q pa v x v'
    using net(2) that unfolding counts_bufs_def by blast
  have "posted (w_net w2) = length (msg_queues t)"
    using p qp recv [of "msg_inner buf" "(0, of_nat (udmsg_len buf))" "udmsg_get_pa K buf" w1] w1 assms(2)
    by (auto simp: post_recv_buf_def worker_ok_def split: prod.splits sum.splits)
  moreover have "due (w_net w2) = due (w_net w)" "r_inner t = r_inner (transport h)"
    using quiet_post_recv [OF net(1) qp p] buf(2) by simp_all
  ultimately have "worker_ok K due posted qp sv n (h\<lparr>transport := t\<rparr>, w2)"
    using assms(2) by (auto simp: worker_ok_def server_ok_def hook_ok_def hook_qp_def)
  then show ?thesis
    using buf(1) p by (simp add: post_fresh_buf_def post_msg_buf_def)
qed

lemma post_all_worker_ok:
  assumes "working_network K qp MF due delay posted" "worker_ok K due posted qp sv n (h, w)"
  shows "\<exists>h' w'. foldo (post_fresh_buf K ctx) is (h, w) = Some (h', w') \<and> worker_ok K due posted qp sv n (h', w')"
  using assms(2)
proof (induction "is" arbitrary: h w)
  case (Cons i "is")
  then show ?case
    using post_fresh_worker_ok [OF assms(1) Cons.prems, of ctx i] by fastforce
qed simp

lemma worker_init_ok:
  assumes "working_network K (ud d) MF due delay posted"
    and "vec_get (rdma_contexts rg) (nic_to_use arg) = Some ctx" "query_gid N ctx 1 = Some g"
    and "vec_get (ud_service rg) (nic_to_use arg) = Some sv" "calculate_qd_hint (tc_id arg) = Some hint"
    and "ud_create (qp_ctl.truncate N) ctx 1 w = (Inr d, w1)"
    and "due (w_net (reg_qp N sv hint (ud d) w1)) = 0" "posted (w_net (reg_qp N sv hint (ud d) w1)) = 0"
  shows "\<exists>h w'. worker_init N K on_query rg arg w = Some (h, w')
    \<and> worker_ok K due posted (ud d) (register_callbacks on_query service_new) 0 (h, w')"
proof -
  let ?w = "reg_qp N sv hint (ud d) w1"
  let ?h = "(hook_new ctx (ud_clone d) (receiver_new (ud_clone d) (unat hint)))
     \<lparr>service := register_callbacks on_query service_new\<rparr>"
  have d: "pending d = 0"
    using assms(6) by (auto simp: ud_create_def Let_def split: prod.splits sum.splits)
  have calls: "ncalls analysis_new = 0"
    by (simp add: analysis_new_def)
  have "worker_ok K due posted (ud d) (register_callbacks on_query service_new) 0 (?h, ?w)"
    using d assms(7,8)
    by (simp add: worker_ok_def server_ok_def hook_ok_def hook_qp_def hook_new_def receiver_new_def ud_clone_def busy_def calls)
  from post_all_worker_ok [OF assms(1) this, of "qp_ctx K (ud d)" "[0..<2048]"] show ?thesis
    using assms(2-6) by (simp add: worker_init_def expect_ok_def hook_new_def del: upt_Suc)
qed

section \<open>Connecting\<close>

lemma block_on_panicky_keeps:
  assumes "block_on_panicky poll s = Some (r, s')" "\<And>s p s'. poll s = Some (p, s') \<Longrightarrow> f s' = f s"
  shows "f s' = f s"
proof -
  have "(\<forall>s p s'. poll s = Some (p, s') \<longrightarrow> f s' = f s) \<longrightarrow> f (snd (r, s')) = f s"
  proof (rule block_on_panicky.raw_induct
      [where P = "\<lambda>poll s y. (\<forall>s p s'. poll s = Some (p, s') \<longrightarrow> f s' = f s) \<longrightarrow> f (snd y) = f s", OF _ assms(1)], intro impI)
    fix bo poll s y
    assume ih: "\<And>poll s y. bo poll s = Some y \<Longrightarrow> (\<forall>s p s'. poll s = Some (p, s') \<longrightarrow> f s' = f s) \<longrightarrow> f (snd y) = f s"
      and run: "(do { (p, s') \<leftarrow> poll s;
          (case p of Inl e \<Rightarrow> Some (Inl e, s') | Inr (Ready v) \<Rightarrow> Some (Inr v, s') | Inr NotReady \<Rightarrow> bo poll s') }) = Some y"
      and keeps: "\<forall>s p s'. poll s = Some (p, s') \<longrightarrow> f s' = f s"
    obtain p s1 where p: "poll s = Some (p, s1)"
      using run by (auto simp: bind_eq_Some_conv)
    then have "f s1 = f s"
      using keeps by blast
    moreover have "f (snd y) = f s1"
      using run p ih [of poll s1 y] keeps by (auto split: sum.splits Async.splits)
    ultimately show "f (snd y) = f s"
      by simp
  qed
  then show ?thesis
    using assms(2) by auto
qed

lemma caller_poll_keeps:
  assumes "caller_poll K H (c, w) = Some (p, c', w')"
  shows "caller_sessions c' = caller_sessions c"
proof -
  obtain q t w1 where q: "receiver_poll K (inner_receiver c, w) = Some (q, t, w1)"
    using assms by (auto simp: caller_poll_def bind_eq_Some_conv)
  consider (err) e where "q = Inl e" | (wait) "q = Inr NotReady" | (msg) msg where "q = Inr (Ready msg)"
    by (metis Async.exhaust sum.exhaust)
  then show ?thesis
  proof cases
    case (msg msg)
    obtain hb where hb: "truncate_header (bytes_clone (msg_bytes msg)) RECV_HEADER = Some hb"
      using assms q msg by (auto simp: caller_poll_def bind_eq_Some_conv Let_def)
    obtain hdr x where hdr: "memcpy_deserialize H (w_mem w1) hb msg_header_default = (hdr, x)"
      by fastforce
    consider "\<not> is_reply hdr" | "is_reply hdr" "get_reply_stub hdr = None" | "is_reply hdr" "get_reply_stub hdr = Some ReplyOk"
      | "is_reply hdr" "get_reply_stub hdr = Some NotExist"
      by (metis ReplyStatus.exhaust not_None_eq)
    then show ?thesis
      using assms q msg hb hdr by cases (auto simp: caller_poll_def bind_eq_Some_conv Let_def)
  qed (use assms q in \<open>auto simp: caller_poll_def\<close>)
qed

lemma register_recv_keeps:
  "register_recv_buf K msg (c, w) = (r, c', w') \<Longrightarrow> caller_sessions c' = caller_sessions c"
  by (auto simp: register_recv_buf_def split: prod.splits)

lemma caller_connect_connects:
  assumes "caller_connect K H L sid mine s hm (c, w) = Some (Inr u, c', w')"
  shows "session_connected sid c'"
proof -
  obtain msg w1 where msg: "udmsg_new K RECV_MTU 0 (receiver_context K (inner_receiver c)) w = Some (msg, w1)"
    using assms by (auto simp: caller_connect_def bind_eq_Some_conv)
  obtain m g where g: "connect_generate H L mine (w_mem w1) (msg_bytes msg) hm = (m, g)"
    by fastforce
  obtain n r s1 w2 where post: "g = Some n" "session_post K msg n True (s, w1\<lparr>w_mem := m\<rparr>) = Some (r, s1, w2)"
    using assms msg g by (auto simp: caller_connect_def bind_eq_Some_conv)
  then show ?thesis
    using assms msg g
    by (cases r) (auto simp: caller_connect_def bind_eq_Some_conv put_caller_session_def session_connected_def)
qed

lemma connect_caller_connects:
  assumes "connect_caller N K H L sid mine ep g hs w c = Some ((Some u, w'), c')"
  shows "session_connected sid c' \<and> \<not> session_connected sid c"
proof -
  let ?s = "session_create (r_inner (inner_receiver c)) ep"
  let ?hm = "\<lparr>hm_gid = g, hm_service_id = snd hs, hm_qd_hint = fst hs, hm_local_port = qp_port_num N (ud (ss_inner ?s))\<rparr>"
  have fresh: "\<not> session_connected sid c"
    using assms by (auto simp: connect_caller_def)
  obtain v c1 w1 b c2 w2 x c3 where run: "caller_connect K H L sid mine ?s ?hm (c, w) = Some (Inr v, c1, w1)"
    "block_on_panicky (caller_poll K H) (c1, w1) = Some (Inr b, c2, w2)"
    "register_recv_buf K (fst b) (c2, w2) = (Inr x, c3, w')" "c' = c3"
    using assms fresh
    by (auto simp: connect_caller_def bind_eq_Some_conv expect_ok_Some Let_def)
  have "caller_sessions c2 = caller_sessions c1"
    using block_on_panicky_keeps [OF run(2), of "\<lambda>(c, w). caller_sessions c"] caller_poll_keeps by fastforce
  then have "caller_sessions c' = caller_sessions c1"
    using register_recv_keeps [OF run(3)] run(4) by simp
  then show ?thesis
    using caller_connect_connects [OF run(1)] fresh by (simp add: session_connected_def)
qed

definition connected_at :: "('c, 'qp, 'mr, 'ep) CallerPool \<Rightarrow> u64 \<Rightarrow> u64 \<Rightarrow> bool" where
  "connected_at p i sid \<longleftrightarrow> (\<exists>b. vec_get (cp_pool p) i = Some b \<and> session_connected sid (lb_inner b))"

lemma connect_session_connects:
  assumes "connect_session_at N K H L MF idx sid mine hm (p, w) = Some (Some u, p', w')"
  shows "connected_at p' idx sid \<and> \<not> connected_at p idx sid \<and> length (cp_pool p') = length (cp_pool p)
    \<and> (\<forall>j. j \<noteq> idx \<longrightarrow> vec_get (cp_pool p') j = vec_get (cp_pool p) j)"
proof -
  obtain ep w1 where ep: "create_meta_at MF p idx hm w = Some (Some ep, w1)"
    using assms by (auto simp: connect_session_at_def bind_eq_Some_conv split: option.splits)
  obtain ctx g hs b where b: "vec_get (cp_contexts p) idx = Some ctx" "query_gid N ctx 1 = Some g" "vec_get (cp_metas p) idx = Some hs"
    "get_caller p idx = Some b"
    using assms ep by (auto simp: connect_session_at_def bind_eq_Some_conv split: option.splits)
  obtain c where c: "connect_caller N K H L sid mine ep g hs w1 (lb_inner b) = Some ((Some u, w'), c)"
    "p' = p\<lparr>cp_pool := vec_put (cp_pool p) idx (b\<lparr>lb_inner := c\<rparr>)\<rparr>"
    using assms ep b by (auto simp: connect_session_at_def bind_eq_Some_conv bundler_lock_def)
  have "unat idx < length (cp_pool p)"
    using b(4) by (simp add: get_caller_def vec_get_def split: if_splits)
  then show ?thesis
    using connect_caller_connects [OF c(1)] c(2) b(4)
    by (auto simp: connected_at_def vec_get_def vec_put_def get_caller_def nth_list_update word_unat_eq_iff)
qed

lemma probe_loop_connects:
  assumes "probe_loop N K H L MF stg mac len remote info is (p, w) = Some (Some u, p', w')" "distinct is"
  shows "length (cp_pool p') = length (cp_pool p)
    \<and> (\<forall>i \<in> set is. \<exists>sid. calculate_session_id remote i len = Some sid \<and> connected_at p' i sid \<and> \<not> connected_at p i sid)
    \<and> (\<forall>j. j \<notin> set is \<longrightarrow> vec_get (cp_pool p') j = vec_get (cp_pool p) j)"
  using assms
proof (induction "is" arbitrary: p w)
  case (Cons i "is")
  obtain sid mine g where g: "calculate_session_id remote i len = Some sid" "calculate_session_id mac i len = Some mine"
    "stg (hci_gid info) = Some g"
    using Cons.prems(1) by (auto simp: bind_eq_Some_conv split: option.splits)
  obtain v p1 w1 where c: "connect_session_at N K H L MF i sid mine
      \<lparr>hm_gid = g, hm_service_id = hci_service_id info, hm_qd_hint = hci_qd_hint info, hm_local_port = hci_local_port info\<rparr> (p, w)
      = Some (Some v, p1, w1)"
    and rest: "probe_loop N K H L MF stg mac len remote info is (p1, w1) = Some (Some u, p', w')"
    using Cons.prems(1) g by (auto simp: bind_eq_Some_conv split: option.splits)
  have tail: "distinct is" "i \<notin> set is"
    using Cons.prems(2) by simp_all
  note one = connect_session_connects [OF c] and ih = Cons.IH [OF rest tail(1)]
  have "connected_at p' i sid"
    using ih one tail(2) unfolding connected_at_def by metis
  moreover have "connected_at p1 j k \<longleftrightarrow> connected_at p j k" if "j \<in> set is" for j k
    using one tail(2) that unfolding connected_at_def by metis
  ultimately show ?case
    using ih one g(1) by auto
qed simp

lemma connect_session_again:
  assumes "connect_session_at N K H L MF idx sid mine hm (p, w) = Some (r, p', w')" "connected_at p idx sid"
  shows "r = None"
  using assms connect_session_connects [of N K H L MF idx sid mine hm p w] by (cases r) auto

section \<open>Sample server\<close>

text \<open>One NIC; queue pairs are those of the datagram network of \<open>sim_ud\<close>.\<close>

definition net_ctl :: "(sim_net, unit, unit, unit, unit, unit, unit, unit, u64, u64) node_ctl" where
  "net_ctl =
     \<lparr>builder_new = (\<lambda>c. c), allow_remote_rw = (\<lambda>b. b), allow_remote_atomic = (\<lambda>b. b), set_max_send_wr = (\<lambda>_ b. b),
      set_port_num = (\<lambda>_ b. b), build_ud = (\<lambda>b w. (Inr b, w)), bring_up_ud = (\<lambda>b w. (Inr b, w)),
      kdriver_create = (\<lambda>w. (Some [()], w)), open_context = (\<lambda>d w. (Some d, w)), ctx_rkey = (\<lambda>_. 9),
      query_gid = (\<lambda>_ _. Some 5), ud_service_create = (\<lambda>w. ((), w)), reg_qp = (\<lambda>_ _ _ w. w),
      cm_server_new = (\<lambda>i _ _ w. (Some i, w)), listen_id = (\<lambda>i. i), build_dc = (\<lambda>b w. (Inr b, w)),
      bring_up_dc = (\<lambda>b w. (Inr b, w)), qp_port_num = (\<lambda>_. 1), build_dct = (\<lambda>_ key w. (Inr key, w)), tgt_port_num = (\<lambda>_. 1),
      tgt_dc_key = (\<lambda>t. t), tgt_dct_num = (\<lambda>t. ucast t), tgt_ctx = (\<lambda>_. ()),
      get_datagram_meta = (\<lambda>t. Some \<lparr>dm_lid = 1, dm_gid = 2\<rparr>)\<rparr>"

definition sim_rdma :: "(unit, unit, u64, u64) rdma_globals" where
  "sim_rdma = \<lparr>rdma_contexts = [()], ud_service = [()], dc_target = [73], dc_target_meta = [\<lparr>dm_lid = 1, dm_gid = 2\<rparr>], rdma_cm_service = [73]\<rparr>"

definition sim_meta :: "unit \<Rightarrow> UDHyperMeta \<Rightarrow> sim_net world \<Rightarrow> (unit + nat) \<times> sim_net world" where
  "sim_meta c hm w = (Inr (unat (hm_qd_hint hm)), w)"

definition no_descriptors :: "sim_net \<Rightarrow> (unit, u64, u64) ShadowProcessService" where
  "no_descriptors n = Map.empty"

lemma sim_network: "working_network sim_ud () sim_meta sn_due (\<lambda>_. 0) (\<lambda>n. length (sn_bufs n))"
  unfolding working_network_def
proof (intro conjI)
  show "counts_bufs sim_ud () (\<lambda>n. length (sn_bufs n))"
    by (auto simp: counts_bufs_def sim_ud_def split: list.splits)
  show "quiet_send sim_ud () (\<lambda>n. length (sn_bufs n))"
    by (auto simp: quiet_send_def sim_ud_def split: if_splits)
qed (simp_all add: quiet_meta_def sim_meta_def)

text \<open>A pool of one caller that has not connected, and the world in which the reply to its request waits.\<close>

definition fresh_caller :: "(unit, u64, nat) Caller" where
  "fresh_caller = caller_new sim_receiver"

definition fresh_pool :: "(unit, unit, u64, nat) CallerPool" where
  "fresh_pool = \<lparr>cp_pool = [bundler_new fresh_caller], cp_factories = [()], cp_contexts = [()], cp_metas = [(12, 73)]\<rparr>"

definition greeting :: "u8 list" where
  "greeting = wire header_layout (gen_reply_stub ReplyOk 0) []"

lemma sim_caller_connects:
  assumes "pending (ss_inner s) = 0"
  shows "\<exists>w' c. caller_connect sim_ud header_layout hyper_meta_layout sid mine s hm (fresh_caller, sim_world [greeting])
      = Some (Inr (), c, w') \<and> inner_receiver c = sim_receiver \<and> sn_inbox (w_net w') = [greeting] \<and> sn_bufs (w_net w') = [4096]"
proof -
  let ?msg = "\<lparr>msg_inner = 65536 :: u64, msg_bytes = from_raw 65536 RECV_MTU, msg_imm = 0\<rparr>"
  let ?w = "(sim_world [greeting])\<lparr>w_net := (w_net (sim_world [greeting]))\<lparr>sn_next := 65536 + 4096\<rparr>\<rparr>"
  have new: "udmsg_new sim_ud RECV_MTU 0 (receiver_context sim_ud (inner_receiver fresh_caller)) (sim_world [greeting]) = Some (?msg, ?w)"
    by (simp add: udmsg_new_def sim_ud_def sim_world_def RECV_MTU_def)
  obtain m where m: "connect_generate header_layout hyper_meta_layout mine (w_mem ?w) (msg_bytes ?msg) hm = (m, Some 80)"
    by (simp add: connect_generate_def generate_stub_def memcpy_serialize_at_def memcpy_serialize_def truncate_header_def from_raw_def
        hyper_meta_layout_def struct_layout_def pair_layout_def RECV_MTU_def)
  let ?s = "s\<lparr>ss_inner := (ss_inner s)\<lparr>pending := 1\<rparr>\<rparr>"
  obtain w2 where post: "session_post sim_ud ?msg 80 True (s, ?w\<lparr>w_mem := m\<rparr>) = Some (Inr (), ?s, w2)"
    and w2: "sn_due (w_net w2) = 1" "sn_inbox (w_net w2) = [greeting]" "sn_bufs (w_net w2) = [4096]"
    using assms by (simp add: session_post_def ud_post_def ud_payload_new_def sim_ud_def sim_world_def)
  have "\<exists>wc s3 w3. block_on (session_poll sim_ud) (?s, w2) = Some (Inr wc, s3, w3) \<and> sn_inbox (w_net w3) = [greeting] \<and> sn_bufs (w_net w3) = [4096]"
    using w2 by (subst block_on.simps) (simp add: session_poll_def ud_poll_def sim_ud_def)
  then obtain wc s3 w3 where block: "block_on (session_poll sim_ud) (?s, w2) = Some (Inr wc, s3, w3)"
    "sn_inbox (w_net w3) = [greeting]" "sn_bufs (w_net w3) = [4096]"
    by blast
  then show ?thesis
    using new m post by (simp add: caller_connect_def put_caller_session_def fresh_caller_def caller_new_def)
qed

lemma sim_welcome:
  assumes "inner_receiver c = sim_receiver" "sn_inbox (w_net w) = [greeting]" "sn_bufs (w_net w) = [4096]"
  shows "\<exists>b c' w'. block_on_panicky (caller_poll sim_ud header_layout) (c, w) = Some (Inr (sim_buf 4096, b), c', w')"
proof -
  let ?w = "w\<lparr>w_mem := mem_write (w_mem w) 4096 (replicate 40 0 @ greeting), w_net := (w_net w)\<lparr>sn_inbox := [], sn_bufs := []\<rparr>\<rparr>"
  have "receiver_poll sim_ud (inner_receiver c, w) = Some (Inr (Ready (sim_buf 4096)), sim_receiver\<lparr>msg_queues := []\<rparr>, ?w)"
    using assms by (simp add: receiver_poll_def sim_ud_def sim_receiver_def)
  moreover have "arrived header_layout (w_mem ?w) (sim_buf 4096) (gen_reply_stub ReplyOk (of_nat (length ([] :: u8 list)))) []"
    using buffer_arrived [of "gen_reply_stub ReplyOk 0" "[]" "w_mem w"] by (simp add: greeting_def gen_reply_stub_def)
  ultimately have "caller_poll sim_ud header_layout (c, w) =
      Some (Inr (Ready (sim_buf 4096, body_view header_layout (sim_buf 4096) 0)), c\<lparr>inner_receiver := sim_receiver\<lparr>msg_queues := []\<rparr>\<rparr>, ?w)"
    using caller_poll_reply [OF wf_header_layout, of sim_ud c w "sim_buf 4096" "sim_receiver\<lparr>msg_queues := []\<rparr>" ?w ReplyOk "[]"] by simp
  then show ?thesis
    by (subst block_on_panicky.simps) simp
qed

lemma sim_connects:
  "\<exists>w' c. connect_caller net_ctl sim_ud header_layout hyper_meta_layout sid mine ep 5 hs (sim_world [greeting]) fresh_caller = Some ((Some (), w'), c)"
proof -
  let ?s = "session_create (r_inner (inner_receiver fresh_caller)) ep"
  have "pending (ss_inner ?s) = 0" "\<not> session_connected sid fresh_caller"
    by (simp_all add: session_create_def ud_clone_def fresh_caller_def caller_new_def sim_receiver_def session_connected_def)
  moreover obtain c w1 where c: "caller_connect sim_ud header_layout hyper_meta_layout sid mine ?s
      \<lparr>hm_gid = 5, hm_service_id = snd hs, hm_qd_hint = fst hs, hm_local_port = qp_port_num net_ctl (ud (ss_inner ?s))\<rparr> (fresh_caller, sim_world [greeting])
      = Some (Inr (), c, w1)" "inner_receiver c = sim_receiver" "sn_inbox (w_net w1) = [greeting]" "sn_bufs (w_net w1) = [4096]"
    using sim_caller_connects [OF calculation(1)] by blast
  moreover obtain b c' w2 where "block_on_panicky (caller_poll sim_ud header_layout) (c, w1) = Some (Inr (sim_buf 4096, b), c', w2)"
    using sim_welcome [OF c(2-4)] by blast
  moreover obtain c3 w3 where "register_recv_buf sim_ud (sim_buf 4096) (c', w2) = (Inr (), c3, w3)"
    by (simp add: register_recv_buf_def post_recv_buf_def sim_ud_def)
  ultimately show ?thesis
    by (simp add: connect_caller_def expect_ok_def Let_def)
qed

definition peer_info :: HandlerConnectInfo where
  "peer_info = \<lparr>hci_gid = ''fe80'', hci_service_id = 73, hci_qd_hint = 12, hci_local_port = 1\<rparr>"

lemma sim_probe:
  "\<exists>p' w'. probe_remote_rpc_end net_ctl sim_ud header_layout hyper_meta_layout sim_meta (\<lambda>_. Some 5) 1 3 peer_info
      (fresh_pool, sim_world [greeting]) = Some (Some (), p', w')"
proof -
  obtain w' c where "connect_caller net_ctl sim_ud header_layout hyper_meta_layout 3 1 12 5 (12, 73) (sim_world [greeting]) fresh_caller = Some ((Some (), w'), c)"
    using sim_connects by blast
  then show ?thesis
    by (simp add: probe_remote_rpc_end_def fresh_pool_def caller_pool_len_def usize_range_def calculate_session_id_eq connect_session_at_def
        create_meta_at_def vec_get_def sim_meta_def peer_info_def net_ctl_def get_caller_def bundler_lock_def bundler_new_def)
qed

section \<open>Properties\<close>

text \<open>C30: A node starts well-formed: when the control path works and memory can be allocated, \<open>init_mitosis\<close> returns
  without a panic; there is one context, address service, target and connection server per NIC, server
  \<open>i\<close> listens on the identifier that clients compute for NIC \<open>i\<close>, every core has a queue pair, spread
  over the NICs, every pooled target has its own key and the remote key of the NIC it is on, and the
  memory pool holds whole buffers, as many as configured.\<close>

theorem node_starts:
  assumes "control_path_works N cfg" "0 < num_nics_used cfg" "0 < mem_pool_size cfg" "\<forall>ctx n w. mr_new K ctx n w \<noteq> None"
    and "unat (num_nics_used cfg) + 73 \<le> 2 ^ 64" "unat (init_dc_targets cfg) + 73 \<le> 2 ^ 64"
  shows "\<exists>(g :: ('c, 'sv, 'cm, 'tgt, 'qp, 'ep, 'r, 'mr, 'rc) mitosis_globals) w'. init_mitosis N K mk prefetch use_rc cfg w = Some (g, w')
    \<and> (\<forall>n \<in> {length (rdma_contexts (rdma_state g)), length (ud_service (rdma_state g)), length (dc_target (rdma_state g)), length (dc_target_meta (rdma_state g))}.
         n = unat (num_nics_used cfg))
    \<and> map (listen_id N) (rdma_cm_service (rdma_state g)) = map (\<lambda>i. SERVICE_ID_BASE + i) (usize_range (num_nics_used cfg))
    \<and> length (dc_pool (dc_pool_service g)) = unat (max_core_cnt cfg)
    \<and> nic_idxs (dc_pool_service g) = map (\<lambda>i. i mod num_nics_used cfg) (usize_range (max_core_cnt cfg))
    \<and> map (tgt_dc_key N \<circ> dt_target) (fg_targets (fork_state g)) = map (\<lambda>i. i + 73) (usize_range (init_dc_targets cfg))
    \<and> (\<forall>t \<in> set (fg_targets (fork_state g)).
         dt_nic_idx t < num_nics_used cfg \<and> dt_rkey t = ctx_rkey N (rdma_contexts (rdma_state g) ! unat (dt_nic_idx t)))
    \<and> pool_ok K mk (fg_mem_pool (fork_state g)) \<and> mem_pool_len (fg_mem_pool (fork_state g)) = unat (mem_pool_size cfg)"
proof -
  obtain rg w1 where rg: "start_rdma N cfg w = Some (Some rg, w1)" "length (rdma_contexts rg) = unat (num_nics_used cfg)"
    "length (ud_service rg) = unat (num_nics_used cfg)" "length (dc_target rg) = unat (num_nics_used cfg)"
    "length (dc_target_meta rg) = unat (num_nics_used cfg)"
    "map (listen_id N) (rdma_cm_service rg) = map (\<lambda>i. SERVICE_ID_BASE + i) (usize_range (num_nics_used cfg))"
    using start_rdma_works [OF assms(1,5)] by blast
  note dc = dc_pool_works [OF assms(1,2) rg(2)]
  obtain p w2 where p: "dc_pool_new N cfg (rdma_contexts rg) w1 = Some (p, w2)" "length (dc_pool p) = unat (max_core_cnt cfg)"
    "nic_idxs p = map (\<lambda>i. i mod num_nics_used cfg) (usize_range (max_core_cnt cfg))"
    using dc by blast
  obtain q w3 where q: "(if prefetch then do { (p, w) \<leftarrow> dc_pool_new N cfg (rdma_contexts rg) w2; Some (Some (bundler_new p), w) }
      else Some (None, w2)) = Some (q, w3)"
    using dc [of w2] by (cases prefetch) auto
  obtain ts w4 where ts: "target_pool_new N cfg (rdma_contexts rg) w3 = Some (ts, w4)"
    "map (tgt_dc_key N \<circ> dt_target) ts = map (\<lambda>i. i + 73) (usize_range (init_dc_targets cfg))"
    "\<forall>t \<in> set ts. dt_nic_idx t < num_nics_used cfg \<and> dt_rkey t = ctx_rkey N (rdma_contexts rg ! unat (dt_nic_idx t))"
    using target_pool_works [OF assms(1,2) rg(2) assms(6)] by blast
  have ctx: "vec_get (rdma_contexts rg) 0 = Some (rdma_contexts rg ! 0)"
    using rg(2) assms(2) by (simp add: vec_get_def word_less_nat_alt)
  let ?mp = "\<lparr>mp_pool = [], mp_capacity = mem_pool_size cfg, mp_context = rdma_contexts rg ! 0\<rparr>"
  obtain bufs w5 where mp: "mem_pool_new K mk (mem_pool_size cfg) (rdma_contexts rg ! 0) w4 = Some (?mp\<lparr>mp_pool := bufs\<rparr>, w5)"
    "length bufs = unat (mem_pool_size cfg)" "pool_ok K mk (?mp\<lparr>mp_pool := bufs\<rparr>)"
    using fill_up_ok [OF assms(4), of mk ?mp "mem_pool_size cfg" w4] assms(3) by (auto simp: mem_pool_new_def pool_ok_def)
  show ?thesis
    unfolding init_mitosis_def using rg p q ts ctx mp by (simp add: mem_pool_len_def)
qed

theorem node_starts_witness:
  "\<exists>g w'. init_mitosis lone_ctl lone_ud 4096 True False (two_nics\<lparr>num_nics_used := 1\<rparr>) \<lparr>w_mem = (\<lambda>_. 0), w_net = ()\<rparr> =
      Some (g :: (u64, unit, u64, u64, u64, unit, unit, u64, unit) mitosis_globals, w')
    \<and> length (dc_pool (dc_pool_service g)) = 3 \<and> mem_pool_len (fg_mem_pool (fork_state g)) = 20"
proof -
  let ?cfg = "two_nics\<lparr>num_nics_used := 1\<rparr>" and ?w = "\<lparr>w_mem = (\<lambda>_. 0), w_net = ()\<rparr>"
  have cfg: "0 < num_nics_used ?cfg" "0 < mem_pool_size ?cfg" "unat (num_nics_used ?cfg) + 73 \<le> 2 ^ 64"
    "unat (init_dc_targets ?cfg) + 73 \<le> 2 ^ 64" "unat (max_core_cnt ?cfg) = 3" "unat (mem_pool_size ?cfg) = 20"
    by (simp_all add: two_nics_def config_default_def)
  have ctl: "control_path_works (lone_ctl :: (unit, _, _, _, _, _, _, _, _, _) node_ctl) ?cfg"
    by (simp add: control_path_works_def lone_ctl_def two_nics_def)
  have mem: "\<forall>ctx n w. mr_new lone_ud ctx n (w :: unit world) \<noteq> None"
    by (simp add: lone_ud_def)
  from node_starts [where 'ep = unit and 'r = unit and 'rc = unit, OF ctl cfg(1,2) mem cfg(3,4), of 4096 True False ?w] show ?thesis
    unfolding cfg(5,6) by blast
qed

text \<open>C9: A server thread runs until it is stopped: on a network in working order the initialisation of the
  thread returns with its callbacks registered and its receive buffers posted, and no number of rounds
  gets it stuck or makes it panic, whatever the clients send, except for a disconnect message, which is
  not implemented.\<close>

theorem worker_serves:
  assumes "working_network K (ud d) MF due delay posted"
    and "vec_get (rdma_contexts rg) (nic_to_use arg) = Some ctx" "query_gid N ctx 1 = Some g"
    and "vec_get (ud_service rg) (nic_to_use arg) = Some sv" "calculate_qd_hint (tc_id arg) = Some hint"
    and "ud_create (qp_ctl.truncate N) ctx 1 w = (Inr d, w1)"
    and "due (w_net (reg_qp N sv hint (ud d) w1)) = 0" "posted (w_net (reg_qp N sv hint (ud d) w1)) = 0"
    and "dc_target rg \<noteq> []" "length (dc_target_meta rg) = length (dc_target rg)" "length (dc_target rg) < 2 ^ 64"
    and "size_of H + max 64 (size_of DL) \<le> RECV_MTU" "quiet_yield yield_now due" "quiet_yield yield_now posted"
  shows "\<exists>h w'. worker_init N K (lookup_on N K DL cpu rg sps_of) rg arg w = Some (h, w')
    \<and> (\<forall>n < 2 ^ 64. worker_rounds K H L MF passed reset yield_now n \<lparr>ws_hook = h, ws_world = w', ws_counter = 0, ws_timer = t\<rparr> = None \<longrightarrow>
        (\<exists>m s hdr args. m < n
          \<and> worker_rounds K H L MF passed reset yield_now m \<lparr>ws_hook = h, ws_world = w', ws_counter = 0, ws_timer = t\<rparr> = Some s
          \<and> hook_received K H (ws_hook s, ws_world s) = Some (hdr, args) \<and> marker hdr = DisConnect))"
proof -
  let ?sv = "register_callbacks (lookup_on N K DL cpu rg sps_of) service_new"
  have room: "size_of DL \<le> RECV_MTU - size_of H" "64 \<le> RECV_MTU - size_of H" "size_of H \<le> RECV_MTU"
    using assms(12) by simp_all
  note tame = worker_callbacks_tame [OF assms(9-11) room(1,2), of N K cpu sps_of]
  obtain h w' where init: "worker_init N K (lookup_on N K DL cpu rg sps_of) rg arg w = Some (h, w')"
    and ok: "worker_ok K due posted (ud d) ?sv 0 (h, w')"
    using worker_init_ok [OF assms(1-8)] by blast
  then show ?thesis
    using worker_rounds_ok [OF assms(1) room(3) tame tame assms(13,14), of 0
        "\<lparr>ws_hook = h, ws_world = w', ws_counter = 0, ws_timer = t\<rparr>"] by simp
qed

theorem worker_serves_witness:
  "\<exists>h w'. worker_init net_ctl sim_ud (lookup_on net_ctl sim_ud reply_layout (\<lambda>_. 0) sim_rdma no_descriptors) sim_rdma
      \<lparr>tc_id = 0, nic_to_use = 0\<rparr> (sim_world []\<lparr>w_net := (w_net (sim_world []))\<lparr>sn_bufs := []\<rparr>\<rparr>) = Some (h, w')"
proof -
  let ?w = "sim_world []\<lparr>w_net := (w_net (sim_world []))\<lparr>sn_bufs := []\<rparr>\<rparr>"
  let ?arg = "\<lparr>tc_id = 0, nic_to_use = 0\<rparr>" and ?d = "\<lparr>ud = (), pending = 0\<rparr>"
  have net: "working_network sim_ud (ud ?d) sim_meta sn_due (\<lambda>_. 0) (\<lambda>n. length (sn_bufs n))"
    by (simp add: sim_network)
  have ctx: "vec_get (rdma_contexts sim_rdma) (nic_to_use ?arg) = Some ()" "query_gid net_ctl () 1 = Some 5"
    "vec_get (ud_service sim_rdma) (nic_to_use ?arg) = Some ()" "calculate_qd_hint (tc_id ?arg) = Some 12"
    by (simp_all add: sim_rdma_def net_ctl_def vec_get_def calculate_qd_hint_def checked_add_def QD_HINT_BASE_def)
  have qp: "ud_create (qp_ctl.truncate net_ctl) () 1 ?w = (Inr ?d, ?w)"
    "sn_due (w_net (reg_qp net_ctl () 12 (ud ?d) ?w)) = 0" "length (sn_bufs (w_net (reg_qp net_ctl () 12 (ud ?d) ?w))) = 0"
    by (simp_all add: ud_create_def net_ctl_def qp_ctl.truncate_def sim_world_def)
  have tgt: "dc_target sim_rdma \<noteq> []" "length (dc_target_meta sim_rdma) = length (dc_target sim_rdma)"
    "length (dc_target sim_rdma) < 2 ^ 64"
    by (simp_all add: sim_rdma_def)
  have room: "size_of header_layout + max 64 (size_of reply_layout) \<le> RECV_MTU" "quiet_yield (\<lambda>w. w) sn_due"
    "quiet_yield (\<lambda>w :: sim_net world. w) (\<lambda>n. length (sn_bufs n))"
    by (simp_all add: RECV_MTU_def reply_layout_size quiet_yield_def)
  show ?thesis
    using worker_serves [OF net ctx qp tgt room, of "\<lambda>_. 0" no_descriptors hyper_meta_layout "\<lambda>t :: unit. (0, t)" "\<lambda>t. t"] by blast
qed

text \<open>C31: Probing a machine connects every caller to it: when \<open>probe_remote_rpc_end\<close> succeeds, each caller of the
  pool has the session of its number that \<open>calculate_session_id\<close> gives, which it did not have before. Hence,
  as long as one caller has its session to the machine, be it from a probe that ended half-way, probing
  the machine does not succeed.\<close>

theorem probe_connects_all:
  assumes "probe_remote_rpc_end N K H L MF string_to_gid mac remote info (p, w) = Some (Some u, p', w')"
    and "i < caller_pool_len p"
  shows "\<exists>sid. calculate_session_id remote i (caller_pool_len p) = Some sid \<and> connected_at p' i sid
    \<and> (\<forall>q w2 mac' info' r. connected_at q i sid \<and> caller_pool_len q = caller_pool_len p
          \<and> probe_remote_rpc_end N K H L MF string_to_gid mac' remote info' (q, w2) = Some r \<longrightarrow> fst r = None)"
proof -
  let ?n = "caller_pool_len p"
  have dist: "distinct (usize_range ?n)"
    using inj_on_of_nat_range [of ?n] by (simp add: usize_range_def distinct_map)
  have i: "i \<in> set (usize_range ?n)"
    using assms(2) by (simp add: set_usize_range)
  from assms(1) have "probe_loop N K H L MF string_to_gid mac ?n remote info (usize_range ?n) (p, w) = Some (Some u, p', w')"
    by (simp add: probe_remote_rpc_end_def Let_def)
  from probe_loop_connects [OF this dist] i
  obtain sid where sid: "calculate_session_id remote i ?n = Some sid" "connected_at p' i sid"
    by blast
  have "fst r = None" if q: "connected_at q i sid" "caller_pool_len q = ?n"
    and again: "probe_remote_rpc_end N K H L MF string_to_gid mac' remote info' (q, w2) = Some r" for q w2 mac' info' r
  proof (rule ccontr)
    assume "fst r \<noteq> None"
    then obtain v p2 w3 where "r = (Some v, p2, w3)"
      by (cases r) auto
    then have "probe_loop N K H L MF string_to_gid mac' ?n remote info' (usize_range ?n) (q, w2) = Some (Some v, p2, w3)"
      using again q(2) by (simp add: probe_remote_rpc_end_def Let_def)
    from probe_loop_connects [OF this dist] i sid(1) q(1) show False
      by (metis option.inject)
  qed
  with sid show ?thesis
    by blast
qed

theorem probe_connects_all_witness:
  "\<exists>p' w' sid. probe_remote_rpc_end net_ctl sim_ud header_layout hyper_meta_layout sim_meta (\<lambda>_. Some 5) 1 3 peer_info
      (fresh_pool, sim_world [greeting]) = Some (Some (), p', w')
    \<and> calculate_session_id 3 0 (caller_pool_len fresh_pool) = Some sid \<and> connected_at p' 0 sid"
proof -
  obtain p' w' where run: "probe_remote_rpc_end net_ctl sim_ud header_layout hyper_meta_layout sim_meta (\<lambda>_. Some 5) 1 3 peer_info
      (fresh_pool, sim_world [greeting]) = Some (Some (), p', w')"
    using sim_probe by blast
  have "0 < caller_pool_len fresh_pool"
    by (simp add: caller_pool_len_def fresh_pool_def)
  from probe_connects_all [OF run this] run show ?thesis
    by blast
qed

end
