(* ===== verification/Syscalls.thy ===== *)
theory Syscalls
  imports Rpc_Service
begin

text \<open>
  The system calls of the module: mitosis/src/core_syscall_handler.rs, except for its page fault handler,
  which is in \<open>Page_Fault\<close>. A handler belongs to an open file; everything outside it that the calls
  touch is the record \<open>sys_state\<close>. The calling core, the kernel's functions and the Cargo features are
  arguments; eager resuming and the descriptor fetch over reliable connections are left out here.
\<close>

section \<open>State\<close>

record ('q, 'dep, 'r) ResumeDataStruct =
  handler_id :: u64
  remote_mac_id :: u64
  rd_descriptor :: "'r ChildDescriptor"
  rd_prefetcher :: "('q, 'dep) DCAsyncPrefetcher option"
  rd_access_info :: "'dep AccessInfo"

record ('q, 'dep, 'r) CallerData =
  ping_img :: bool
  prepared_key :: "u64 option"
  fault_page_cnt :: u64
  resume_related :: "('q, 'dep, 'r) ResumeDataStruct option"

definition caller_data_default :: "('q, 'dep, 'r) CallerData" where
  "caller_data_default = \<lparr>ping_img = False, prepared_key = None, fault_page_cnt = 0, resume_related = None\<rparr>"

text \<open>\<open>open\<close> dumps the process and forgets the result; the handler starts with its default data.\<close>

definition handler_open :: "('q, 'dep, 'r) CallerData" where
  "handler_open = caller_data_default"

definition handler_mmap :: "u64 \<Rightarrow> vm_area \<Rightarrow> int \<times> vm_area" where
  "handler_mmap my_vm_op v = (0, v\<lparr>vm_ops := my_vm_op\<rparr>)"

definition pg_table_entry_cnt :: "('q, 'dep, 'r) ResumeDataStruct \<Rightarrow> nat" where
  "pg_table_entry_cnt r = rpt_len (cd_page_table (rd_descriptor r))"

definition incr_fault_page_cnt :: "('q, 'dep, 'r) CallerData \<Rightarrow> ('q, 'dep, 'r) CallerData option" where
  "incr_fault_page_cnt cd = do { n \<leftarrow> checked_add (fault_page_cnt cd) 1; Some (cd\<lparr>fault_page_cnt := n\<rparr>) }"

definition fault_page_size :: "('q, 'dep, 'r) CallerData \<Rightarrow> u64 option" where
  "fault_page_size cd = checked_mul (fault_page_cnt cd) 4096"

definition meta_workingset_size :: "('q, 'dep, 'r) CallerData \<Rightarrow> u64 option" where
  "meta_workingset_size cd =
     (case resume_related cd of Some r \<Rightarrow> checked_mul (of_nat (pg_table_entry_cnt r)) 4096 | None \<Rightarrow> Some 0)"

record ('n, 'c, 'qp, 'mr, 'ep, 'q, 'r, 'tgt, 'rc) sys_state =
  ss_world :: "'n world"
  ss_callers :: "('c, 'qp, 'mr, 'ep) CallerPool"
  ss_qps :: "'q LockBundler list"
  ss_async :: "'q LockBundler list"
  ss_rc :: "'rc RCPool list"
  ss_heap :: Heap
  ss_ks :: kstate
  ss_process :: "'r process"
  ss_cache :: RemotePageTableCache
  ss_fork :: "('r, 'c, 'mr, 'tgt) fork_globals"

type_synonym ('n, 'c, 'qp, 'mr, 'ep, 'q, 'dep, 'r, 'tgt, 'rc) syscall =
  "('q, 'dep, 'r) CallerData \<times> ('n, 'c, 'qp, 'mr, 'ep, 'q, 'r, 'tgt, 'rc) sys_state \<Rightarrow>
    (int \<times> ('q, 'dep, 'r) CallerData \<times> ('n, 'c, 'qp, 'mr, 'ep, 'q, 'r, 'tgt, 'rc) sys_state) option"

section \<open>Preparing\<close>

text \<open>\<open>add\<close> is the registration the feature \<open>cow\<close> selects, for the process that calls.\<close>

definition syscall_prepare ::
  "('r process \<Rightarrow> u64 \<Rightarrow> ('r, 'c, 'mr, 'tgt, 'n) fork_state \<Rightarrow> (nat option \<times> ('r, 'c, 'mr, 'tgt, 'n) fork_state) option) \<Rightarrow>
    u64 \<Rightarrow> bool \<Rightarrow> ('n, 'c, 'qp, 'mr, 'ep, 'q, 'dep, 'r, 'tgt, 'rc) syscall" where
  "syscall_prepare add key ping = (\<lambda>(cd, s).
     if prepared_key cd \<noteq> None then Some (-1, cd, s)
     else do { let cd = cd\<lparr>ping_img := ping\<rparr>;
               (res, g, ks, w) \<leftarrow> add (ss_process s) key (ss_fork s, ss_ks s, ss_world s);
               let s = s\<lparr>ss_fork := g, ss_ks := ks, ss_world := w\<rparr>;
               Some (case res of None \<Rightarrow> (-1, cd, s) | Some _ \<Rightarrow> (0, cd\<lparr>prepared_key := Some key\<rparr>, s)) })"

definition registration ::
  "bool \<Rightarrow> ('n, 'c, 'b, 'raw, 'qp, 'cp, 'dev, 'sv, 'cm, 'tgt) node_ctl \<Rightarrow> ('n, 'c, 'qp, 'mr, 'ep, 'e) ud_kit \<Rightarrow> nat \<Rightarrow> 'r descriptor_layouts \<Rightarrow>
    u64 \<Rightarrow> kconsts \<Rightarrow> (u64 \<Rightarrow> u64) \<Rightarrow> (u64 \<Rightarrow> u8 list option) \<Rightarrow> (u64 \<Rightarrow> u64) \<Rightarrow> (vm_area \<Rightarrow> u64 list) \<Rightarrow>
    'r process \<Rightarrow> u64 \<Rightarrow> ('r, 'c, 'mr, 'tgt, 'n) fork_state \<Rightarrow> (nat option \<times> ('r, 'c, 'mr, 'tgt, 'n) fork_state) option" where
  "registration cow N K max_kmalloc L mac kc pte_page user page_to_phy walk_range p key =
     (if cow then add_myself_cow N K max_kmalloc L mac kc pte_page walk_range (proc_regs p) (areas p) key
      else add_myself_copy N K max_kmalloc L mac user page_to_phy walk_range (proc_regs p) (areas p) key)"

section \<open>Resuming\<close>

text \<open>\<open>TimeoutWRef\<close> over a future whose poll may panic.\<close>

definition timeout_poll_panicky ::
  "('s \<Rightarrow> (('a, 'e) Poll \<times> 's) option) \<Rightarrow> ('t \<Rightarrow> int \<times> 't) \<Rightarrow> ('s, 't) Timeout \<Rightarrow>
    (('a, 'e timeout_error) Poll \<times> ('s, 't) Timeout) option" where
  "timeout_poll_panicky poll passed t =
     do { r \<leftarrow> poll (t_value t);
          timeout_poll_raw (\<lambda>_. r) passed t }"

record ('n, 'c, 'qp, 'mr, 'ep, 'e, 'q, 'dmr, 'dep, 'de, 'r, 't) resume_env =
  re_ud :: "('n, 'c, 'qp, 'mr, 'ep, 'e) ud_kit"
  re_dc :: "('q, 'dmr, 'dep, 'de) rdma_kit"
  re_header :: "MsgHeader layout"
  re_reply :: "DescriptorLookupReply layout"
  re_layouts :: "'r descriptor_layouts"
  re_dma :: "'q \<Rightarrow> mem \<Rightarrow> mem"
  re_qp_ctx :: "'q \<Rightarrow> 'c"
  re_endpoint :: "u8 \<Rightarrow> u32 \<Rightarrow> ib_gid \<Rightarrow> u32 \<Rightarrow> u32 \<Rightarrow> u32 \<Rightarrow> u64 \<Rightarrow> 'dep option"
  re_phys_to_virt :: "u64 \<Rightarrow> u64"
  re_passed :: "'t \<Rightarrow> int \<times> 't"
  re_clock :: 't
  re_canonical :: "u64 \<Rightarrow> bool"
  re_indices :: page_indices
  re_consts :: kconsts
  re_munmap :: "vm_area list \<Rightarrow> u64 \<Rightarrow> u64 \<Rightarrow> vm_area list"
  re_mmap :: "vm_area list \<Rightarrow> u64 \<Rightarrow> u64 \<Rightarrow> u64 \<Rightarrow> u64 \<times> vm_area list"
  re_find_vma :: "vm_area list \<Rightarrow> u64 \<Rightarrow> vm_area option"
  re_page_cache :: bool
  re_prefetch :: bool

text \<open>
  With prefetching the deserialiser takes a queue pair from the asynchronous pool; it stays taken when the
  access information cannot be made.
\<close>

definition take_prefetcher ::
  "('n, 'c, 'qp, 'mr, 'ep, 'e, 'q, 'dmr, 'dep, 'de, 'r, 't) resume_env \<Rightarrow> RDMADescriptor \<Rightarrow> 'q LockBundler list \<Rightarrow>
    ('q, 'dep) DCAsyncPrefetcher option option \<times> 'q LockBundler list" where
  "take_prefetcher E info pool =
     (if re_prefetch E then
        (case vec_pop pool of
           (None, pool) \<Rightarrow> (None, pool)
         | (Some b, pool) \<Rightarrow>
             (case access_info_new (re_endpoint E) info of
                None \<Rightarrow> (None, pool)
              | Some ai \<Rightarrow> (Some (Some (prefetcher_new_from_raw (lb_inner b) ai)), pool)))
      else (Some None, pool))"

text \<open>A cached page table replaces the one just made, which is dropped.\<close>

definition use_cached_table ::
  "bool \<Rightarrow> u64 \<Rightarrow> u64 \<Rightarrow> RemotePageTableCache \<Rightarrow> RemotePageTable \<Rightarrow> Heap \<times> kstate \<Rightarrow> (RemotePageTable \<times> Heap \<times> kstate) option" where
  "use_cached_table page_cache machine handler store t = (\<lambda>(h, ks).
     case (if page_cache then cache_lookup machine handler store else None) of
       None \<Rightarrow> Some (t, h, ks)
     | Some t0 \<Rightarrow>
         do { (t', h) \<leftarrow> rpt_copy h t0;
              (ps, h) \<leftarrow> rpt_drop h t;
              Some (t', h, fold pmem_free_page ps ks) })"

definition become_child ::
  "('n, 'c, 'qp, 'mr, 'ep, 'e, 'q, 'dmr, 'dep, 'de, 'r, 't) resume_env \<Rightarrow> u64 \<Rightarrow> u64 \<Rightarrow> BytesMut \<Rightarrow>
    ('n, 'c, 'qp, 'mr, 'ep, 'q, 'dep, 'r, 'tgt, 'rc) syscall" where
  "become_child E machine handler bytes = (\<lambda>(cd, s).
     do { r \<leftarrow> child_deserialize (re_layouts E) (re_canonical E) (re_indices E) (ss_heap s) (w_mem (ss_world s)) bytes;
          (case r of
             None \<Rightarrow> Some (-1, cd, s)
           | Some (des, h) \<Rightarrow>
               (case take_prefetcher E (cd_machine_info des) (ss_async s) of
                  (None, pool) \<Rightarrow> Some (-1, cd, s\<lparr>ss_async := pool\<rparr>)
                | (Some pf, pool) \<Rightarrow>
                    (case access_info_new (re_endpoint E) (cd_machine_info des) of
                       None \<Rightarrow> Some (-1, cd, s\<lparr>ss_async := pool\<rparr>)
                     | Some ai \<Rightarrow>
                         do { p \<leftarrow> apply_to (re_consts E) (re_munmap E) (re_mmap E) (re_find_vma E) (re_endpoint E) des (ss_process s);
                              (t, h, ks) \<leftarrow> use_cached_table (re_page_cache E) machine handler (ss_cache s) (cd_page_table des) (h, ss_ks s);
                              Some (0, cd\<lparr>resume_related := Some \<lparr>handler_id = handler, remote_mac_id = machine,
                                         rd_descriptor = des\<lparr>cd_page_table := t\<rparr>, rd_prefetcher = pf, rd_access_info = ai\<rparr>\<rparr>,
                                    s\<lparr>ss_process := p, ss_heap := h, ss_ks := ks, ss_async := pool\<rparr>) }))) })"

definition fetch_and_become ::
  "('n, 'c, 'qp, 'mr, 'ep, 'e, 'q, 'dmr, 'dep, 'de, 'r, 't) resume_env \<Rightarrow> u64 \<Rightarrow> u64 \<Rightarrow> u64 \<Rightarrow> DescriptorLookupReply \<Rightarrow>
    ('n, 'c, 'qp, 'mr, 'ep, 'q, 'dep, 'r, 'tgt, 'rc) syscall" where
  "fetch_and_become E cpu machine handler d = (\<lambda>(cd, s).
     do { b \<leftarrow> vec_get (ss_qps s) cpu;
          (r, q, w) \<leftarrow> remote_descriptor_fetch (re_ud E) (re_dc E) (re_dma E) (re_endpoint E) (re_phys_to_virt E) (re_passed E) (re_clock E)
                         (re_qp_ctx E (lb_inner b)) d (lb_inner b, ss_world s);
          let s = s\<lparr>ss_qps := vec_put (ss_qps s) cpu (b\<lparr>lb_inner := q\<rparr>), ss_world := w\<rparr>;
          (case r of
             Inl _ \<Rightarrow> Some (-1, cd, s)
           | Inr buf \<Rightarrow> become_child E machine handler (msg_bytes buf) (cd, s)) })"

text \<open>The call over the session of the core: the outcome, after the receive buffer was given back.\<close>

definition call_and_wait ::
  "('n, 'c, 'qp, 'mr, 'ep, 'e, 'q, 'dmr, 'dep, 'de, 'r, 't) resume_env \<Rightarrow> u64 \<Rightarrow> u64 \<Rightarrow> u64 \<Rightarrow> u64 \<Rightarrow>
    ('qp, 'mr, 'ep) Caller \<times> 'n world \<Rightarrow> (BytesMut option \<times> ('qp, 'mr, 'ep) Caller \<times> 'n world) option" where
  "call_and_wait E remote_session_id my_session_id rpc_id arg cw =
     do { (res, c, w) \<leftarrow> sync_call (re_ud E) (re_header E) u64_layout remote_session_id my_session_id rpc_id arg cw;
          (case res of
             Inl _ \<Rightarrow> Some (None, c, w)
           | Inr _ \<Rightarrow>
               do { (res, t) \<leftarrow> block_on_panicky (timeout_poll_panicky (caller_poll (re_ud E) (re_header E)) (re_passed E))
                                 (timeout_new (c, w) (re_clock E) (10 * TIMEOUT_USEC));
                    (case res of
                       Inl _ \<Rightarrow> Some (None, t_value t)
                     | Inr (msg, reply) \<Rightarrow>
                         do { (_, cw) \<leftarrow> expect_ok (register_recv_buf (re_ud E) msg (t_value t));
                              Some (Some reply, cw) }) }) }"

definition locked_call ::
  "('n, 'c, 'qp, 'mr, 'ep, 'e, 'q, 'dmr, 'dep, 'de, 'r, 't) resume_env \<Rightarrow> u64 \<Rightarrow> u64 \<Rightarrow> u64 \<Rightarrow> u64 \<Rightarrow> u64 \<Rightarrow> u64 \<Rightarrow>
    ('n, 'c, 'qp, 'mr, 'ep, 'q, 'r, 'tgt, 'rc) sys_state \<Rightarrow> (BytesMut option \<times> ('n, 'c, 'qp, 'mr, 'ep, 'q, 'r, 'tgt, 'rc) sys_state) option" where
  "locked_call E mac max_callers cpu machine rpc_id arg s =
     do { require (cpu < max_callers);
          remote_session_id \<leftarrow> calculate_session_id machine cpu max_callers;
          my_session_id \<leftarrow> calculate_session_id mac cpu max_callers;
          b \<leftarrow> get_caller (ss_callers s) cpu;
          (r, c, w) \<leftarrow> call_and_wait E remote_session_id my_session_id rpc_id arg (lb_inner b, ss_world s);
          Some (r, s\<lparr>ss_callers := (ss_callers s)\<lparr>cp_pool := vec_put (cp_pool (ss_callers s)) cpu (b\<lparr>lb_inner := c\<rparr>)\<rparr>, ss_world := w\<rparr>) }"

definition syscall_resume_w_rpc ::
  "('n, 'c, 'qp, 'mr, 'ep, 'e, 'q, 'dmr, 'dep, 'de, 'r, 't) resume_env \<Rightarrow> u64 \<Rightarrow> u64 \<Rightarrow> u64 \<Rightarrow> u64 \<Rightarrow> u64 \<Rightarrow>
    ('n, 'c, 'qp, 'mr, 'ep, 'q, 'dep, 'r, 'tgt, 'rc) syscall" where
  "syscall_resume_w_rpc E mac max_callers cpu machine handler = (\<lambda>(cd, s).
     if resume_related cd \<noteq> None then Some (-1, cd, s)
     else do { (r, s) \<leftarrow> locked_call E mac max_callers cpu machine (rpc_id_num RpcQuery) handler s;
               (case r of
                  None \<Rightarrow> Some (-1, cd, s)
                | Some reply \<Rightarrow>
                    (case deserialize_default (re_reply E) (w_mem (ss_world s)) reply of
                       None \<Rightarrow> Some (-1, cd, s)
                     | Some d \<Rightarrow>
                         if \<not> dl_ready d then Some (-1, cd, s)
                         else fetch_and_become E cpu machine handler d (cd, s))) })"

definition syscall_nil_rpc ::
  "('n, 'c, 'qp, 'mr, 'ep, 'e, 'q, 'dmr, 'dep, 'de, 'r, 't) resume_env \<Rightarrow> u64 \<Rightarrow> u64 \<Rightarrow> u64 \<Rightarrow> u64 \<Rightarrow> u64 \<Rightarrow>
    ('n, 'c, 'qp, 'mr, 'ep, 'q, 'dep, 'r, 'tgt, 'rc) syscall" where
  "syscall_nil_rpc E mac max_callers cpu machine handler = (\<lambda>(cd, s).
     do { (r, s) \<leftarrow> locked_call E mac max_callers cpu machine (rpc_id_num RpcNil) handler s;
          Some (case r of None \<Rightarrow> -1 | Some _ \<Rightarrow> 0, cd, s) })"

section \<open>Connecting\<close>

definition syscall_connect_session ::
  "('n, 'c, 'b, 'raw, 'qp, 'cp, 'dev, 'sv, 'cm, 'tgt) node_ctl \<Rightarrow> ('n, 'c, 'qp, 'mr, 'ep, 'e) ud_kit \<Rightarrow> MsgHeader layout \<Rightarrow> UDHyperMeta layout \<Rightarrow>
    ('c \<Rightarrow> UDHyperMeta \<Rightarrow> 'n world \<Rightarrow> ('me + 'ep) \<times> 'n world) \<Rightarrow> (string \<Rightarrow> ib_gid option) \<Rightarrow> u64 \<Rightarrow> u64 \<Rightarrow> u64 \<Rightarrow> string \<Rightarrow> u64 \<Rightarrow>
    ('n, 'c, 'qp, 'mr, 'ep, 'q, 'dep, 'r, 'tgt, 'rc) syscall" where
  "syscall_connect_session N K H L MF string_to_gid mac max_nics_used machine g nic_idx = (\<lambda>(cd, s).
     do { info \<leftarrow> connect_info_create max_nics_used g nic_idx nic_idx;
          (r, p, w) \<leftarrow> probe_remote_rpc_end N K H L MF string_to_gid mac machine info (ss_callers s, ss_world s);
          Some (case r of Some _ \<Rightarrow> 0 | None \<Rightarrow> -1, cd, s\<lparr>ss_callers := p, ss_world := w\<rparr>) })"

text \<open>One connection per core; the first that fails ends the loop.\<close>

fun connect_rc_loop ::
  "('n, 'c, 'b, 'raw, 'rc, 'cp, 'path, 'cme) rc_ctl \<Rightarrow> (string \<Rightarrow> ib_gid option) \<Rightarrow> 'c list \<Rightarrow> u64 \<Rightarrow> u64 \<Rightarrow> u64 \<Rightarrow> RCConnectInfo \<Rightarrow> u64 list \<Rightarrow>
    'rc RCPool list \<times> 'n world \<Rightarrow> (int \<times> 'rc RCPool list \<times> 'n world) option" where
  "connect_rc_loop R string_to_gid factories max_callers max_nics_used machine info [] st = Some (0, st)"
| "connect_rc_loop R string_to_gid factories max_callers max_nics_used machine info (i # is) (pools, w) =
     do { pool \<leftarrow> vec_get pools i;
          (r, pool, w) \<leftarrow> create_rc_connection R string_to_gid factories max_callers max_nics_used i machine info (pool, w);
          let pools = vec_put pools i pool;
          (case r of
             Some _ \<Rightarrow> connect_rc_loop R string_to_gid factories max_callers max_nics_used machine info is (pools, w)
           | None \<Rightarrow> Some (-1, pools, w)) }"

definition syscall_connect_rc ::
  "('n, 'c, 'b, 'raw, 'rc, 'cp, 'path, 'cme) rc_ctl \<Rightarrow> (string \<Rightarrow> ib_gid option) \<Rightarrow> 'c list \<Rightarrow> u64 \<Rightarrow> u64 \<Rightarrow> u64 \<Rightarrow> string \<Rightarrow> u64 \<Rightarrow>
    ('n, 'c, 'qp, 'mr, 'ep, 'q, 'dep, 'r, 'tgt, 'rc) syscall" where
  "syscall_connect_rc R string_to_gid factories max_callers max_nics_used machine g nic_idx = (\<lambda>(cd, s).
     do { info \<leftarrow> rc_info_create max_nics_used g nic_idx;
          (r, pools, w) \<leftarrow> connect_rc_loop R string_to_gid factories max_callers max_nics_used machine info (usize_range max_callers) (ss_rc s, ss_world s);
          Some (r, cd, s\<lparr>ss_rc := pools, ss_world := w\<rparr>) })"

section \<open>Commands\<close>

datatype LibMITOSISCmd = CmdNil | CmdConnect | CmdPrepare | CmdResumeLocal | CmdResumeRemote | CmdPreparePing | CmdNilRPC

definition cmd_of :: "u32 \<Rightarrow> LibMITOSISCmd option" where
  "cmd_of c = (if c = 0 then Some CmdNil else if c = 3 then Some CmdConnect else if c = 4 then Some CmdPrepare
     else if c = 5 then Some CmdResumeLocal else if c = 6 then Some CmdResumeRemote else if c = 7 then Some CmdPreparePing
     else if c = 8 then Some CmdNilRPC else None)"

record connect_req_t =
  cr_machine_id :: u32
  cr_nic_id :: u32
  cr_gid :: u64

record resume_remote_req_t =
  rr_machine_id :: u32
  rr_handler_id :: u32

text \<open>\<open>core::str::from_utf8\<close>: a \<open>String\<close> is its bytes, which must be well-formed UTF-8.\<close>

definition continuation :: "u8 \<Rightarrow> bool" where
  "continuation b \<longleftrightarrow> 0x80 \<le> b \<and> b \<le> 0xBF"

fun utf8_valid :: "u8 list \<Rightarrow> bool" where
  "utf8_valid [] = True"
| "utf8_valid (a # bs) =
     (if a < 0x80 then utf8_valid bs
      else if 0xC2 \<le> a \<and> a \<le> 0xDF then
        (case bs of b # r \<Rightarrow> continuation b \<and> utf8_valid r | _ \<Rightarrow> False)
      else if 0xE0 \<le> a \<and> a \<le> 0xEF then
        (case bs of
           b # c # r \<Rightarrow> continuation b \<and> (a = 0xE0 \<longrightarrow> 0xA0 \<le> b) \<and> (a = 0xED \<longrightarrow> b \<le> 0x9F) \<and> continuation c \<and> utf8_valid r
         | _ \<Rightarrow> False)
      else if 0xF0 \<le> a \<and> a \<le> 0xF4 then
        (case bs of
           b # c # d # r \<Rightarrow> continuation b \<and> (a = 0xF0 \<longrightarrow> 0x90 \<le> b) \<and> (a = 0xF4 \<longrightarrow> b \<le> 0x8F) \<and> continuation c \<and> continuation d
             \<and> utf8_valid r
         | _ \<Rightarrow> False)
      else False)"

definition from_utf8 :: "u8 list \<Rightarrow> string option" where
  "from_utf8 bs = (if utf8_valid bs then Some (map (\<lambda>b. char_of (unat b)) bs) else None)"

text \<open>
  The dispatcher. \<open>copy_from_user a n\<close> is what the kernel copies from the caller's memory; the methods it
  calls, with their environments, come first. With the feature \<open>use_rc\<close> a connect calls both methods and
  returns the bitwise or of their codes.
\<close>

definition ioctrl ::
  "(u64 \<Rightarrow> bool \<Rightarrow> 's \<Rightarrow> (int \<times> 's) option) \<Rightarrow> (u64 \<Rightarrow> u64 \<Rightarrow> 's \<Rightarrow> (int \<times> 's) option) \<Rightarrow> (u64 \<Rightarrow> string \<Rightarrow> u64 \<Rightarrow> 's \<Rightarrow> (int \<times> 's) option) \<Rightarrow>
    (u64 \<Rightarrow> string \<Rightarrow> u64 \<Rightarrow> 's \<Rightarrow> (int \<times> 's) option) \<Rightarrow> (u64 \<Rightarrow> u64 \<Rightarrow> 's \<Rightarrow> (int \<times> 's) option) \<Rightarrow>
    bool \<Rightarrow> (u64 \<Rightarrow> nat \<Rightarrow> u8 list) \<Rightarrow> connect_req_t layout \<Rightarrow> resume_remote_req_t layout \<Rightarrow> u32 \<Rightarrow> u64 \<Rightarrow> 's \<Rightarrow> (int \<times> 's) option" where
  "ioctrl prepare resume connect_session connect_rc nil_rpc use_rc copy_from_user CL RL cmd arg s =
     (case cmd_of cmd of
        Some CmdNil \<Rightarrow> Some (0, s)
      | Some CmdPrepare \<Rightarrow> prepare arg False s
      | Some CmdResumeLocal \<Rightarrow> None
      | Some CmdResumeRemote \<Rightarrow>
          (let req = from_raw_bytes RL (copy_from_user arg (size_of RL))
           in resume (ucast (rr_machine_id req)) (ucast (rr_handler_id req)) s)
      | Some CmdConnect \<Rightarrow>
          do { let req = from_raw_bytes CL (copy_from_user arg (size_of CL));
               g \<leftarrow> from_utf8 (copy_from_user (cr_gid req) 39);
               (if use_rc then
                  do { (a, s) \<leftarrow> connect_rc (ucast (cr_machine_id req)) g (ucast (cr_nic_id req)) s;
                       (b, s) \<leftarrow> connect_session (ucast (cr_machine_id req)) g (ucast (cr_nic_id req)) s;
                       Some (a OR b, s) }
                else connect_session (ucast (cr_machine_id req)) g (ucast (cr_nic_id req)) s) }
      | Some CmdPreparePing \<Rightarrow> prepare arg True s
      | Some CmdNilRPC \<Rightarrow>
          (let req = from_raw_bytes RL (copy_from_user arg (size_of RL))
           in nil_rpc (ucast (rr_machine_id req)) (ucast (rr_handler_id req)) s)
      | None \<Rightarrow> Some (-1, s))"

section \<open>Closing\<close>

text \<open>
  The destructor, and after it that of the page table the handler owns. The table goes to the cache
  before the prefetches in flight are waited for; a process that was pinned stays registered.
\<close>

definition handler_drop ::
  "bool \<Rightarrow> ('q, 'dmr, 'dep, 'de) rdma_kit \<Rightarrow> ('q, 'dep, 'r) CallerData \<Rightarrow>
    ('n, 'c, 'qp, 'mr, 'ep, 'q, 'r, 'tgt, 'rc) sys_state \<Rightarrow> ('n, 'c, 'qp, 'mr, 'ep, 'q, 'r, 'tgt, 'rc) sys_state option" where
  "handler_drop page_cache KD cd s =
     do { s \<leftarrow> (case resume_related cd of
                 Some r \<Rightarrow>
                   (if page_cache then
                      do { (h, store, ks) \<leftarrow> cache_my_pt (remote_mac_id r) (handler_id r) (cd_page_table (rd_descriptor r))
                                              (ss_heap s, ss_cache s, ss_ks s);
                           Some (s\<lparr>ss_heap := h, ss_cache := store, ss_ks := ks\<rparr>) }
                    else Some s)
               | None \<Rightarrow> Some s);
          s \<leftarrow> (case Option.bind (resume_related cd) rd_prefetcher of
                 Some pf \<Rightarrow>
                   do { (res, h, _) \<leftarrow> drain_connections KD (ss_heap s, pf);
                        Some (s\<lparr>ss_heap := h, ss_async := (case res of Inr q \<Rightarrow> ss_async s @ [bundler_new q] | Inl _ \<Rightarrow> ss_async s)\<rparr>) }
               | None \<Rightarrow> Some s);
          let s = (case prepared_key cd of
                     Some k \<Rightarrow>
                       (if \<not> ping_img cd
                        then (case unregister k (ss_fork s, ss_ks s, ss_world s) of (g, ks, w) \<Rightarrow> s\<lparr>ss_fork := g, ss_ks := ks, ss_world := w\<rparr>)
                        else s)
                   | None \<Rightarrow> s);
          (case resume_related cd of
             Some r \<Rightarrow>
               do { (ps, h) \<leftarrow> rpt_drop (ss_heap s) (cd_page_table (rd_descriptor r));
                    Some (s\<lparr>ss_heap := h, ss_ks := fold pmem_free_page ps (ss_ks s)\<rparr>) }
           | None \<Rightarrow> Some s) }"

section \<open>Handlers and registered processes\<close>

text \<open>
  The life of the handlers of a machine. A state has the open handlers by number, the keys of processes
  that were left registered by a handler that is closed, the number of successful prepares, and the rest of
  the machine. A call that panics makes no step.
\<close>

type_synonym ('n, 'c, 'qp, 'mr, 'ep, 'q, 'dep, 'r, 'tgt, 'rc) machine =
  "(nat \<Rightarrow> ('q, 'dep, 'r) CallerData option) \<times> u64 set \<times> nat \<times> ('n, 'c, 'qp, 'mr, 'ep, 'q, 'r, 'tgt, 'rc) sys_state"

inductive machine_step ::
  "('r process \<Rightarrow> u64 \<Rightarrow> ('r, 'c, 'mr, 'tgt, 'n) fork_state \<Rightarrow> (nat option \<times> ('r, 'c, 'mr, 'tgt, 'n) fork_state) option) \<Rightarrow>
    ('n, 'c, 'qp, 'mr, 'ep, 'e, 'q, 'dmr, 'dep, 'de, 'r, 't) resume_env \<Rightarrow> u64 \<Rightarrow> u64 \<Rightarrow>
    ('n, 'c, 'qp, 'mr, 'ep, 'q, 'dep, 'r, 'tgt, 'rc) machine \<Rightarrow> ('n, 'c, 'qp, 'mr, 'ep, 'q, 'dep, 'r, 'tgt, 'rc) machine \<Rightarrow> bool"
  for add E mac max_callers where
  opened: "hs i = None \<Longrightarrow> machine_step add E mac max_callers (hs, P, n, s) (hs(i \<mapsto> handler_open), P, n, s)"
| prepared: "hs i = Some cd \<Longrightarrow> syscall_prepare add key ping (cd, s) = Some (r, cd', s') \<Longrightarrow>
    machine_step add E mac max_callers (hs, P, n, s) (hs(i \<mapsto> cd'), P, n + of_bool (r = 0), s')"
| resumed: "hs i = Some cd \<Longrightarrow> syscall_resume_w_rpc E mac max_callers cpu m key (cd, s) = Some (r, cd', s') \<Longrightarrow>
    machine_step add E mac max_callers (hs, P, n, s) (hs(i \<mapsto> cd'), P, n, s')"
| closed: "hs i = Some cd \<Longrightarrow> handler_drop (re_page_cache E) (re_dc E) cd s = Some s' \<Longrightarrow>
    machine_step add E mac max_callers (hs, P, n, s)
      (hs(i := None), (if ping_img cd then P \<union> set_option (prepared_key cd) else P), n, s')"

text \<open>The key each handler holds. Every registered process is held by one handler or was left behind.\<close>

definition key_of :: "(nat \<Rightarrow> ('q, 'dep, 'r) CallerData option) \<Rightarrow> nat \<Rightarrow> u64 option" where
  "key_of hs i = Option.bind (hs i) prepared_key"

definition accounted :: "(nat \<Rightarrow> u64 option) \<Rightarrow> u64 set \<Rightarrow> u64 set \<Rightarrow> bool" where
  "accounted kf P D \<longleftrightarrow> D = ran kf \<union> P \<and> ran kf \<inter> P = {} \<and> (\<forall>i j k. kf i = Some k \<longrightarrow> kf j = Some k \<longrightarrow> i = j)"

definition registry_ok :: "nat \<Rightarrow> ('n, 'c, 'qp, 'mr, 'ep, 'q, 'dep, 'r, 'tgt, 'rc) machine \<Rightarrow> bool" where
  "registry_ok T = (\<lambda>(hs, P, n, s).
     accounted (key_of hs) P (dom (sp_service (ss_fork s))) \<and> length (fg_targets (ss_fork s)) + n = T)"

lemma key_of_upd [simp]: "key_of (hs(i := x)) = (key_of hs)(i := Option.bind x prepared_key)"
  by (auto simp: key_of_def)

lemma key_of_empty [simp]: "key_of (\<lambda>_. None) = (\<lambda>_. None)"
  by (auto simp: key_of_def)

lemma accounted_fresh:
  assumes "accounted kf P D" "kf i = None" "k \<notin> D"
  shows "accounted (kf(i \<mapsto> k)) P (insert k D)"
proof -
  have "k \<notin> ran kf" "k \<notin> P"
    using assms(1,3) by (auto simp: accounted_def)
  moreover have "ran (kf(i \<mapsto> k)) = insert k (ran kf)"
    using assms(2) by (rule ran_map_upd)
  moreover have "kf j \<noteq> Some k" for j
    using \<open>k \<notin> ran kf\<close> by (auto simp: ran_def)
  ultimately show ?thesis
    using assms(1) by (auto simp: accounted_def)
qed

lemma accounted_gone:
  assumes "accounted kf P D" "kf i = Some k"
  shows "accounted (kf(i := None)) P (D - {k})" "accounted (kf(i := None)) (insert k P) D"
proof -
  have inj: "j = i" if "kf j = Some k" for j
    using assms that by (auto simp: accounted_def)
  have "ran (kf(i := None)) = ran kf - {k}"
    using assms inj by (auto simp: ran_def accounted_def split: if_splits) (metis option.inject)+
  moreover have "k \<in> ran kf"
    using assms(2) by (rule ranI)
  ultimately show "accounted (kf(i := None)) P (D - {k})" "accounted (kf(i := None)) (insert k P) D"
    using assms(1) by (auto simp: accounted_def)
qed

lemma add_myself_effect:
  assumes "add_myself N K mk L mac shadow key (g, ks, w) = Some (res, g', ks', w')"
  shows "(res = None \<and> g' = g)
    \<or> (\<exists>sz b. res = Some sz \<and> sp_service g key = None \<and> sp_service g' = (sp_service g)(key \<mapsto> b)
        \<and> length (fg_targets g) = Suc (length (fg_targets g')))"
  using assms
  by (auto simp: add_myself_def new_from_dc_target_pool_def target_pop_one_def vec_pop_def expect_def Let_def bind_eq_Some_conv
      split: if_splits option.splits prod.splits)

lemma registration_effect:
  assumes "registration cow N K mk L mac kc pte_page user page_to_phy walk_range p key (g, ks, w) = Some (res, g', ks', w')"
  shows "(res = None \<and> g' = g)
    \<or> (\<exists>sz b. res = Some sz \<and> sp_service g key = None \<and> sp_service g' = (sp_service g)(key \<mapsto> b)
        \<and> length (fg_targets g) = Suc (length (fg_targets g')))"
  using assms by (auto simp: registration_def add_myself_cow_def add_myself_copy_def split: if_splits dest: add_myself_effect)

lemma prepare_effect:
  assumes "syscall_prepare (registration cow N K mk L mac kc pte_page user page_to_phy walk_range) key ping (cd, s) = Some (r, cd', s')"
  shows "(r = -1 \<and> prepared_key cd' = prepared_key cd \<and> ss_fork s' = ss_fork s)
    \<or> (\<exists>b. r = 0 \<and> prepared_key cd = None \<and> prepared_key cd' = Some key \<and> sp_service (ss_fork s) key = None
        \<and> sp_service (ss_fork s') = (sp_service (ss_fork s))(key \<mapsto> b)
        \<and> length (fg_targets (ss_fork s)) = Suc (length (fg_targets (ss_fork s'))))"
proof (cases "prepared_key cd")
  case None
  then obtain res g ks w where reg: "registration cow N K mk L mac kc pte_page user page_to_phy walk_range (ss_process s) key
      (ss_fork s, ss_ks s, ss_world s) = Some (res, g, ks, w)"
    using assms by (auto simp: syscall_prepare_def Let_def bind_eq_Some_conv)
  then show ?thesis
    using assms None registration_effect [OF reg] by (auto simp: syscall_prepare_def Let_def intro!: exI)
qed (use assms in \<open>simp add: syscall_prepare_def\<close>)

lemma become_child_keeps:
  assumes "become_child E m key bytes (cd, s) = Some (r, cd', s')"
  shows "prepared_key cd' = prepared_key cd \<and> ping_img cd' = ping_img cd \<and> ss_fork s' = ss_fork s"
proof -
  obtain x where x: "child_deserialize (re_layouts E) (re_canonical E) (re_indices E) (ss_heap s) (w_mem (ss_world s)) bytes = Some x"
    using assms by (auto simp: become_child_def bind_eq_Some_conv)
  show ?thesis
  proof (cases x)
    case (Some y)
    obtain des h where y: "y = (des, h)"
      by (cases y)
    obtain pf pool where pf: "take_prefetcher E (cd_machine_info des) (ss_async s) = (pf, pool)"
      by fastforce
    show ?thesis
    proof (cases "pf = None \<or> access_info_new (re_endpoint E) (cd_machine_info des) = None")
      case True
      then show ?thesis
        using assms x Some y pf by (cases pf) (auto simp: become_child_def)
    next
      case False
      then show ?thesis
        using assms x Some y pf by (auto simp: become_child_def bind_eq_Some_conv)
    qed
  qed (use assms x in \<open>simp add: become_child_def\<close>)
qed

lemma resume_keeps:
  assumes "syscall_resume_w_rpc E mac max_callers cpu m key (cd, s) = Some (r, cd', s')"
  shows "prepared_key cd' = prepared_key cd \<and> ping_img cd' = ping_img cd \<and> ss_fork s' = ss_fork s"
proof (cases "resume_related cd")
  case None
  obtain x s1 where call: "locked_call E mac max_callers cpu m (rpc_id_num RpcQuery) key s = Some (x, s1)"
    using assms None by (auto simp: syscall_resume_w_rpc_def bind_eq_Some_conv)
  have s1: "ss_fork s1 = ss_fork s"
    using call by (auto simp: locked_call_def bind_eq_Some_conv)
  have fetch: "prepared_key cd' = prepared_key cd \<and> ping_img cd' = ping_img cd \<and> ss_fork s' = ss_fork s1"
    if run: "fetch_and_become E cpu m key d (cd, s1) = Some (r, cd', s')" for d
  proof -
    obtain b y q w where b: "vec_get (ss_qps s1) cpu = Some b" "remote_descriptor_fetch (re_ud E) (re_dc E) (re_dma E) (re_endpoint E)
        (re_phys_to_virt E) (re_passed E) (re_clock E) (re_qp_ctx E (lb_inner b)) d (lb_inner b, ss_world s1) = Some (y, q, w)"
      using run by (auto simp: fetch_and_become_def bind_eq_Some_conv)
    then show ?thesis
      using run by (cases y) (auto simp: fetch_and_become_def Let_def dest!: become_child_keeps)
  qed
  show ?thesis
    using assms None call s1 fetch by (auto simp: syscall_resume_w_rpc_def split: option.splits if_splits)
qed (use assms in \<open>simp add: syscall_resume_w_rpc_def\<close>)

lemma drop_effect:
  assumes "handler_drop page_cache KD cd s = Some s'"
  shows "sp_service (ss_fork s') = (case prepared_key cd of
      Some k \<Rightarrow> (if ping_img cd then sp_service (ss_fork s) else (sp_service (ss_fork s))(k := None)) | None \<Rightarrow> sp_service (ss_fork s))
    \<and> fg_targets (ss_fork s') = fg_targets (ss_fork s)"
proof -
  obtain s1 where s1: "(case resume_related cd of
        Some r \<Rightarrow>
          (if page_cache then
             do { (h, store, ks) \<leftarrow> cache_my_pt (remote_mac_id r) (handler_id r) (cd_page_table (rd_descriptor r)) (ss_heap s, ss_cache s, ss_ks s);
                  Some (s\<lparr>ss_heap := h, ss_cache := store, ss_ks := ks\<rparr>) }
           else Some s)
      | None \<Rightarrow> Some s) = Some s1"
    using assms by (auto simp: handler_drop_def bind_eq_Some_conv)
  then have f1: "ss_fork s1 = ss_fork s"
    by (auto simp: bind_eq_Some_conv split: option.splits if_splits)
  obtain s2 where s2: "(case Option.bind (resume_related cd) rd_prefetcher of
        Some pf \<Rightarrow>
          do { (res, h, _) \<leftarrow> drain_connections KD (ss_heap s1, pf);
               Some (s1\<lparr>ss_heap := h, ss_async := (case res of Inr q \<Rightarrow> ss_async s1 @ [bundler_new q] | Inl _ \<Rightarrow> ss_async s1)\<rparr>) }
      | None \<Rightarrow> Some s1) = Some s2"
    using assms s1 by (auto simp: handler_drop_def bind_eq_Some_conv)
  then have f2: "ss_fork s2 = ss_fork s"
    using f1 by (auto simp: bind_eq_Some_conv split: option.splits)
  define s3 where "s3 = (case prepared_key cd of
      Some k \<Rightarrow>
        (if \<not> ping_img cd
         then (case unregister k (ss_fork s2, ss_ks s2, ss_world s2) of (g, ks, w) \<Rightarrow> s2\<lparr>ss_fork := g, ss_ks := ks, ss_world := w\<rparr>)
         else s2)
    | None \<Rightarrow> s2)"
  have "ss_fork s' = ss_fork s3"
    using assms s1 s2 unfolding handler_drop_def s3_def by (auto simp: Let_def bind_eq_Some_conv split: option.splits)
  moreover have "sp_service (ss_fork s3) = (case prepared_key cd of
      Some k \<Rightarrow> (if ping_img cd then sp_service (ss_fork s) else (sp_service (ss_fork s))(k := None)) | None \<Rightarrow> sp_service (ss_fork s))"
    "fg_targets (ss_fork s3) = fg_targets (ss_fork s)"
    using f2 by (auto simp: s3_def unregister_def fun_upd_idem split: option.splits)
  ultimately show ?thesis
    by simp
qed

lemma handler_open_fresh [simp]: "prepared_key handler_open = None"
  by (simp add: handler_open_def caller_data_default_def)

lemma registry_step:
  assumes "machine_step (registration cow N K mk L mac kc pte_page user page_to_phy walk_range) E mac' max_callers x y" "registry_ok T x"
  shows "registry_ok T y"
  using assms
proof (induction rule: machine_step.induct)
  case (opened hs i P n s)
  then have "key_of hs i = None"
    by (simp add: key_of_def)
  with opened show ?case
    by (simp add: registry_ok_def fun_upd_idem)
next
  case (prepared hs i cd key ping s r cd' s' P n)
  then have i: "key_of hs i = prepared_key cd"
    by (simp add: key_of_def)
  from prepare_effect [OF prepared(2)] show ?case
  proof (elim disjE exE conjE)
    assume "r = -1" "prepared_key cd' = prepared_key cd" "ss_fork s' = ss_fork s"
    then show ?thesis
      using prepared(3) i by (simp add: registry_ok_def fun_upd_idem)
  next
    fix b
    assume "r = 0" "prepared_key cd = None" "prepared_key cd' = Some key" "sp_service (ss_fork s) key = None"
      "sp_service (ss_fork s') = (sp_service (ss_fork s))(key \<mapsto> b)"
      "length (fg_targets (ss_fork s)) = Suc (length (fg_targets (ss_fork s')))"
    then show ?thesis
      using prepared(3) i accounted_fresh [of "key_of hs" P "dom (sp_service (ss_fork s))" i key]
      by (simp add: registry_ok_def domIff)
  qed
next
  case (resumed hs i cd cpu m key s r cd' s' P n)
  then have "key_of hs i = prepared_key cd"
    by (simp add: key_of_def)
  with resumed(3) resume_keeps [OF resumed(2)] show ?case
    by (simp add: registry_ok_def fun_upd_idem)
next
  case (closed hs i cd s s' P n)
  then have i: "key_of hs i = prepared_key cd"
    by (simp add: key_of_def)
  note eff = drop_effect [OF closed(2)]
  show ?case
  proof (cases "prepared_key cd")
    case None
    then show ?thesis
      using closed(3) eff i by (simp add: registry_ok_def fun_upd_idem)
  next
    case (Some k)
    then have "accounted (key_of hs) P (dom (sp_service (ss_fork s)))" "key_of hs i = Some k"
      using closed(3) i by (simp_all add: registry_ok_def)
    from accounted_gone [OF this] show ?thesis
      using closed(3) eff Some by (simp add: registry_ok_def)
  qed
qed

section \<open>Waiting for a reply\<close>

text \<open>A message arrives at the poll number \<open>n\<close>, with nothing before.\<close>

fun waits_for ::
  "('n, 'c, 'qp, 'mr, 'ep, 'e) ud_kit \<Rightarrow> nat \<Rightarrow> ('qp, 'mr) UDReceiver \<times> 'n world \<Rightarrow> 'mr UDMsg \<Rightarrow> ('qp, 'mr) UDReceiver \<times> 'n world \<Rightarrow> bool" where
  "waits_for K 0 s msg s' \<longleftrightarrow> receiver_poll K s = Some (Inr (Ready msg), s')"
| "waits_for K (Suc n) s msg s' \<longleftrightarrow> (\<exists>s1. receiver_poll K s = Some (Inr NotReady, s1) \<and> waits_for K n s1 msg s')"

lemma wait_reply:
  assumes "wf_layout H" "waits_for K n (inner_receiver c, w) msg (t, w1)"
    and "arrived H (w_mem w1) msg (gen_reply_stub ReplyOk (of_nat (length body))) body"
    and "\<forall>k < n. fst (passed (timer_after passed k (timer d))) < wait_usec d"
  shows "\<exists>d'. block_on_panicky (timeout_poll_panicky (caller_poll K H) passed) \<lparr>t_value = (c, w), t_delay = d\<rparr> =
    Some (Inr (msg, body_view H msg (length body)), \<lparr>t_value = (c\<lparr>inner_receiver := t\<rparr>, w1), t_delay = d'\<rparr>)"
  using assms(2,4)
proof (induction n arbitrary: c w d)
  case 0
  have "caller_poll K H (c, w) = Some (Inr (Ready (msg, body_view H msg (length body))), c\<lparr>inner_receiver := t\<rparr>, w1)"
    using caller_poll_reply [OF assms(1) _ assms(3), of K c w t] 0 by simp
  then show ?case
    by (subst block_on_panicky.simps) (simp add: timeout_poll_panicky_def timeout_poll_raw_def)
next
  case (Suc n)
  obtain t1 w2 where p: "receiver_poll K (inner_receiver c, w) = Some (Inr NotReady, t1, w2)" "waits_for K n (t1, w2) msg (t, w1)"
    using Suc.prems(1) by auto
  obtain us cl where us: "passed (timer d) = (us, cl)"
    by fastforce
  have now: "us < wait_usec d"
    using Suc.prems(2) [rule_format, of 0] us by simp
  have later: "\<forall>k < n. fst (passed (timer_after passed k (timer (d\<lparr>timer := cl\<rparr>)))) < wait_usec (d\<lparr>timer := cl\<rparr>)"
  proof (intro allI impI)
    fix k
    assume "k < n"
    then show "fst (passed (timer_after passed k (timer (d\<lparr>timer := cl\<rparr>)))) < wait_usec (d\<lparr>timer := cl\<rparr>)"
      using Suc.prems(2) [rule_format, of "Suc k"] us by simp
  qed
  have "caller_poll K H (c, w) = Some (Inr NotReady, c\<lparr>inner_receiver := t1\<rparr>, w2)"
    using p(1) by (simp add: caller_poll_def)
  with us now have "timeout_poll_panicky (caller_poll K H) passed \<lparr>t_value = (c, w), t_delay = d\<rparr> =
      Some (Inr NotReady, \<lparr>t_value = (c\<lparr>inner_receiver := t1\<rparr>, w2), t_delay = d\<lparr>timer := cl\<rparr>\<rparr>)"
    by (simp add: timeout_poll_panicky_def timeout_poll_raw_def delay_poll_def get_cur_delay_usec_def)
  then show ?case
    using Suc.IH [of "c\<lparr>inner_receiver := t1\<rparr>" w2 "d\<lparr>timer := cl\<rparr>"] p(2) later
    by (subst block_on_panicky.simps) simp
qed

section \<open>Becoming a child\<close>

text \<open>What a resume needs of the network, of the other machine and of this one.\<close>

definition can_call ::
  "('n, 'c, 'qp, 'mr, 'ep, 'e, 'q, 'dmr, 'dep, 'de, 'r, 't) resume_env \<Rightarrow> ('n \<Rightarrow> nat) \<Rightarrow> ('n \<Rightarrow> nat) \<Rightarrow> ('n \<Rightarrow> ('ep \<times> u8 list) list) \<Rightarrow>
    ('qp, 'mr, 'ep) Caller \<times> 'n world \<Rightarrow> bool" where
  "can_call E due delay sent = (\<lambda>(c, w).
     counts_sends (re_ud E) (caller_qp c) due delay \<and> sends_bytes (re_ud E) (caller_qp c) sent \<and> client_ok (re_ud E) due (c, w)
   \<and> (\<forall>mr r pa w. w_mem (snd (post_recv (re_ud E) (caller_qp c) mr r pa w)) = w_mem w)
   \<and> wf_layout (re_header E) \<and> size_of (re_header E) + 8 \<le> RECV_MTU)"

text \<open>The peer answers the query \<open>key\<close>, sent on the session \<open>sid\<close> with endpoint \<open>ep\<close>, in time and with \<open>d\<close>.\<close>

definition answers ::
  "('n, 'c, 'qp, 'mr, 'ep, 'e, 'q, 'dmr, 'dep, 'de, 'r, 't) resume_env \<Rightarrow> ('n \<Rightarrow> ('ep \<times> u8 list) list) \<Rightarrow>
    ('qp, 'mr, 'ep) Caller \<times> 'n world \<Rightarrow> u64 \<Rightarrow> 'ep \<Rightarrow> u64 \<Rightarrow> u64 \<Rightarrow> DescriptorLookupReply \<Rightarrow> bool" where
  "answers E sent = (\<lambda>(c, w) sid ep mine key d. wf_layout (re_reply E) \<and> size_of (re_reply E) < 2 ^ 64
   \<and> (\<forall>c' w'. sync_call (re_ud E) (re_header E) u64_layout sid mine (rpc_id_num RpcQuery) key (c, w) = Some (Inr (), c', w') \<and>
        sent (w_net w') = sent (w_net w)
        @ [(ep, wire (re_header E) (gen_call_stub mine (rpc_id_num RpcQuery) (of_nat (size_of u64_layout))) (to_raw u64_layout key))] \<longrightarrow>
      (\<exists>n msg t w1. waits_for (re_ud E) n (inner_receiver c, w') msg (t, w1) \<and> r_inner t = r_inner (inner_receiver c)
         \<and> (\<forall>k < n. fst (re_passed E (timer_after (re_passed E) k (re_clock E))) < 10 * TIMEOUT_USEC)
         \<and> arrived (re_header E) (w_mem w1) msg (gen_reply_stub ReplyOk (of_nat (size_of (re_reply E)))) (to_raw (re_reply E) d))))"

text \<open>The read of the buffer that \<open>d\<close> names, out of the memory \<open>rm\<close> of the peer, on the idle queue pair \<open>q\<close>.\<close>

definition can_fetch ::
  "('n, 'c, 'qp, 'mr, 'ep, 'e, 'q, 'dmr, 'dep, 'de, 'r, 't) resume_env \<Rightarrow> ('q \<Rightarrow> ('dmr \<times> u64) list) \<Rightarrow> mem \<Rightarrow> 'q \<Rightarrow> DescriptorLookupReply \<Rightarrow> bool" where
  "can_fetch E waiting rm q d \<longleftrightarrow>
     fifo_reads (re_dc E) waiting (\<lambda>_ _. ()) (\<lambda>_. ()) \<and> dma_reads (re_dc E) waiting (re_dma E) rm \<and> waiting q = []
   \<and> reads_in_time (re_dc E) waiting (re_passed E) (re_clock E) (10 * TIMEOUT_USEC)
   \<and> (\<exists>ep. re_endpoint E 1 (dl_lid d) (dl_gid d) 0 0 (dl_dct_num d) (dl_dc_key d) = Some ep
       \<and> (\<forall>w. \<exists>mr w1 dmr. mr_new (re_ud E) (re_qp_ctx E q) (unat (dl_sz d)) w = Some (mr, w1)
            \<and> re_phys_to_virt E (mr_rdma_addr (re_ud E) mr) = mr_virt (re_ud E) mr
            \<and> mr_new_from_raw (re_dc E) (mr_virt (re_ud E) mr) (unat (dl_sz d)) = Some dmr
            \<and> fst (post_send_dc_read (re_dc E) q ep dmr (0, dl_sz d) True (dl_pa d) (dl_rkey d)) = Inr ()))"

definition can_become ::
  "('n, 'c, 'qp, 'mr, 'ep, 'e, 'q, 'dmr, 'dep, 'de, 'r, 't) resume_env \<Rightarrow> 'r ParentDescriptor \<Rightarrow> u64 \<Rightarrow>
    ('n, 'c, 'qp, 'mr, 'ep, 'q, 'r, 'tgt, 'rc) sys_state \<Rightarrow> bool" where
  "can_become E d key s \<longleftrightarrow>
     parent_valid (re_layouts E) d \<and> addressable (re_canonical E) d \<and> indices_in_range (re_indices E)
   \<and> heap_ok (ss_heap s) \<and> 3 * length (parent_mappings d) + 1 \<le> length (avail (ss_heap s))
   \<and> maps_honestly (re_munmap E) (re_mmap E) (re_find_vma E) \<and> ordered_areas (pd_vma d)
   \<and> (\<forall>v \<in> set (areas (ss_process s)). vm_start v \<le> vm_end v) \<and> access_info_new (re_endpoint E) (pd_machine_info d) \<noteq> None
   \<and> (re_prefetch E \<longrightarrow> ss_async s \<noteq> []) \<and> (re_page_cache E \<longrightarrow> ss_cache s key = None)"

text \<open>What the process and its handler are afterwards.\<close>

definition is_child_of ::
  "('n, 'c, 'qp, 'mr, 'ep, 'e, 'q, 'dmr, 'dep, 'de, 'r, 't) resume_env \<Rightarrow> 'r ParentDescriptor \<Rightarrow> u64 \<Rightarrow> u64 \<Rightarrow> ('q, 'dep, 'r) CallerData \<Rightarrow>
    ('n, 'c, 'qp, 'mr, 'ep, 'q, 'r, 'tgt, 'rc) sys_state \<Rightarrow> bool" where
  "is_child_of E d machine key cd s \<longleftrightarrow>
     proc_regs (ss_process s) = pd_regs d \<and> list_all2 covers (pd_vma d) (areas (ss_process s))
   \<and> (\<exists>rd. resume_related cd = Some rd \<and> handler_id rd = key \<and> remote_mac_id rd = machine
       \<and> access_info_new (re_endpoint E) (pd_machine_info d) = Some (rd_access_info rd)
       \<and> table_ok (ss_heap s) (cd_page_table (rd_descriptor rd))
       \<and> (\<forall>a. re_canonical E a \<longrightarrow> lookup_pg_table (re_canonical E) (re_indices E) (ss_heap s) (rd_descriptor rd) a =
            Some (let e = first_value (same_page (re_indices E)) a (parent_mappings d) in if e = 0 then None else Some e)))"

lemma become_child_works:
  assumes "can_become E d key s" "parent_buf_len (re_layouts E) d \<le> bm_len b"
    and "mem_has (w_mem (ss_world s)) (bm_ptr b) (parent_wire (re_layouts E) d)"
  shows "\<exists>cd' s'. become_child E machine key b (cd, s) = Some (0, cd', s') \<and> is_child_of E d machine key cd' s'"
proof -
  have ok: "parent_valid (re_layouts E) d" "addressable (re_canonical E) d" "indices_in_range (re_indices E)"
    "heap_ok (ss_heap s)" "3 * length (parent_mappings d) + 1 \<le> length (avail (ss_heap s))"
    "maps_honestly (re_munmap E) (re_mmap E) (re_find_vma E)" "ordered_areas (pd_vma d)"
    "\<forall>v \<in> set (areas (ss_process s)). vm_start v \<le> vm_end v"
    using assms(1) by (simp_all add: can_become_def)
  obtain ai where ai: "access_info_new (re_endpoint E) (pd_machine_info d) = Some ai"
    using assms(1) by (auto simp: can_become_def)
  obtain c h' where c: "child_deserialize (re_layouts E) (re_canonical E) (re_indices E) (ss_heap s) (w_mem (ss_world s)) b = Some (Some (c, h'))"
    "table_ok h' (cd_page_table c)" "cd_regs c = pd_regs d" "cd_vma c = pd_vma d" "cd_machine_info c = pd_machine_info d"
    "\<forall>a. re_canonical E a \<longrightarrow> lookup_pg_table (re_canonical E) (re_indices E) h' c a =
       Some (let e = first_value (same_page (re_indices E)) a (parent_mappings d) in if e = 0 then None else Some e)"
    using child_view_has [OF ok(1) assms(2,3) ok(2-5)] by blast
  have ord: "ordered_areas (cd_vma c)" and ai': "access_info_new (re_endpoint E) (cd_machine_info c) = Some ai"
    using c ok(7) ai by simp_all
  obtain p' where p': "apply_to (re_consts E) (re_munmap E) (re_mmap E) (re_find_vma E) (re_endpoint E) c (ss_process s) = Some p'"
    "proc_regs p' = cd_regs c" "list_all2 covers (cd_vma c) (areas p')"
    using apply_to_maps [OF ok(6) ord ok(8) ai', of "re_consts E"] by blast
  have "re_prefetch E \<longrightarrow> ss_async s \<noteq> []"
    using assms(1) by (simp add: can_become_def)
  then obtain pf pool where pf: "take_prefetcher E (cd_machine_info c) (ss_async s) = (Some pf, pool)"
    using ai' that by (cases "re_prefetch E") (auto simp: take_prefetcher_def vec_pop_def)
  have cache: "use_cached_table (re_page_cache E) machine key (ss_cache s) (cd_page_table c) (h', ss_ks s) = Some (cd_page_table c, h', ss_ks s)"
    using assms(1) by (simp add: use_cached_table_def cache_lookup_def gen_cache_key_def can_become_def)
  have "c\<lparr>cd_page_table := cd_page_table c\<rparr> = c"
    by simp
  then show ?thesis
    using c p' pf cache ai ai' by (simp add: become_child_def is_child_of_def)
qed

lemma fetch_and_become_works:
  assumes "vec_get (ss_qps s) cpu = Some qb" "can_fetch E waiting rm (lb_inner qb) r" "can_become E d key s"
    and "parent_buf_len (re_layouts E) d \<le> unat (dl_sz r)" "mem_has rm (unat (dl_pa r)) (parent_wire (re_layouts E) d)"
  shows "\<exists>cd' s'. fetch_and_become E cpu machine key r (cd, s) = Some (0, cd', s') \<and> is_child_of E d machine key cd' s'"
proof -
  let ?q = "lb_inner qb" and ?n = "unat (dl_sz r)" and ?wire = "parent_wire (re_layouts E) d"
  obtain ep mr w1 dmr where m: "re_endpoint E 1 (dl_lid r) (dl_gid r) 0 0 (dl_dct_num r) (dl_dc_key r) = Some ep"
    "mr_new (re_ud E) (re_qp_ctx E ?q) ?n (ss_world s) = Some (mr, w1)" "re_phys_to_virt E (mr_rdma_addr (re_ud E) mr) = mr_virt (re_ud E) mr"
    "mr_new_from_raw (re_dc E) (mr_virt (re_ud E) mr) ?n = Some dmr"
    "fst (post_send_dc_read (re_dc E) ?q ep dmr (0, dl_sz r) True (dl_pa r) (dl_rkey r)) = Inr ()"
    using assms(2) unfolding can_fetch_def by metis
  have dc: "fifo_reads (re_dc E) waiting (\<lambda>_ _. ()) (\<lambda>_. ())" "dma_reads (re_dc E) waiting (re_dma E) rm" "waiting ?q = []"
    "reads_in_time (re_dc E) waiting (re_passed E) (re_clock E) (10 * TIMEOUT_USEC)"
    using assms(2) by (simp_all add: can_fetch_def)
  obtain buf q' where f: "remote_descriptor_fetch (re_ud E) (re_dc E) (re_dma E) (re_endpoint E) (re_phys_to_virt E) (re_passed E) (re_clock E)
        (re_qp_ctx E ?q) r (?q, ss_world s) = Some (Inr buf, q', w1\<lparr>w_mem := re_dma E q' (w_mem w1)\<rparr>)"
    "msg_bytes buf = from_raw (unat (mr_virt (re_ud E) mr)) ?n"
    "mem_read (re_dma E q' (w_mem w1)) (bm_ptr (msg_bytes buf)) ?n = mem_read rm (unat (dl_pa r)) ?n"
    using fetch_delivers [where K = "re_ud E" and q = "lb_inner qb" and phys_to_virt = "re_phys_to_virt E" and endpoint = "re_endpoint E",
        OF dc m(2,3,1,4,5)] by blast
  have len: "length ?wire \<le> ?n"
    using assms(4) length_parent_wire(1) [of "re_layouts E" d] assms(3) by (simp add: can_become_def)
  have "mem_has (re_dma E q' (w_mem w1)) (bm_ptr (msg_bytes buf)) ?wire"
    using mem_has_transfer [OF f(3) len assms(5)] .
  moreover let ?s = "s\<lparr>ss_qps := vec_put (ss_qps s) cpu (qb\<lparr>lb_inner := q'\<rparr>), ss_world := w1\<lparr>w_mem := re_dma E q' (w_mem w1)\<rparr>\<rparr>"
  have "can_become E d key ?s"
    using assms(3) by (simp add: can_become_def)
  ultimately obtain cd' s' where "become_child E machine key (msg_bytes buf) (cd, ?s) = Some (0, cd', s')" "is_child_of E d machine key cd' s'"
    using become_child_works [of E d key ?s "msg_bytes buf" machine cd] assms(4) f(2) by (auto simp: from_raw_def)
  then show ?thesis
    using assms(1) f(1) by (simp add: fetch_and_become_def Let_def)
qed

lemma call_and_wait_works:
  assumes "can_call E due delay sent (c, w)" "caller_sessions c sid = Some (cs, msg)"
    and "answers E sent (c, w) sid (ss_meta cs) mine key d"
  shows "\<exists>reply c' w'. call_and_wait E sid mine (rpc_id_num RpcQuery) key (c, w) = Some (Some reply, c', w')
    \<and> deserialize_default (re_reply E) (w_mem w') reply = Some d"
proof -
  have call: "counts_sends (re_ud E) (caller_qp c) due delay" "sends_bytes (re_ud E) (caller_qp c) sent" "client_ok (re_ud E) due (c, w)"
    "wf_layout (re_header E)" "size_of (re_header E) + size_of u64_layout \<le> RECV_MTU"
    and keeps: "\<forall>mr r pa w. w_mem (snd (post_recv (re_ud E) (caller_qp c) mr r pa w)) = w_mem w"
    using assms(1) by (simp_all add: can_call_def)
  obtain c1 w1 where c1: "sync_call (re_ud E) (re_header E) u64_layout sid mine (rpc_id_num RpcQuery) key (c, w) = Some (Inr (), c1, w1)"
    "inner_receiver c1 = inner_receiver c"
    "sent (w_net w1) = sent (w_net w) @ [(ss_meta cs, wire (re_header E)
       (gen_call_stub mine (rpc_id_num RpcQuery) (of_nat (size_of u64_layout))) (to_raw u64_layout key))]"
    using sync_call_sends [OF call(1-4) wf_u64_layout call(5) assms(2)] by blast
  obtain n m t w2 where a: "waits_for (re_ud E) n (inner_receiver c1, w1) m (t, w2)" "r_inner t = r_inner (inner_receiver c)"
    "\<forall>k < n. fst (re_passed E (timer_after (re_passed E) k (re_clock E))) < 10 * TIMEOUT_USEC"
    "arrived (re_header E) (w_mem w2) m (gen_reply_stub ReplyOk (of_nat (size_of (re_reply E)))) (to_raw (re_reply E) d)"
    using assms(3) c1(1,3) unfolding answers_def c1(2) prod.case by blast
  have L: "wf_layout (re_reply E)" "length (to_raw (re_reply E) d) = size_of (re_reply E)"
    using assms(3) by (auto simp: answers_def wf_layout_def)
  let ?v = "body_view (re_header E) m (size_of (re_reply E))"
  let ?c = "c1\<lparr>inner_receiver := t\<rparr>"
  obtain d' where wait: "block_on_panicky (timeout_poll_panicky (caller_poll (re_ud E) (re_header E)) (re_passed E))
      (timeout_new (c1, w1) (re_clock E) (10 * TIMEOUT_USEC)) = Some (Inr (m, ?v), \<lparr>t_value = (?c, w2), t_delay = d'\<rparr>)"
    using wait_reply [OF call(4) a(1), of "to_raw (re_reply E) d" "re_passed E" "\<lparr>timer = re_clock E, wait_usec = 10 * TIMEOUT_USEC\<rparr>"] a(3,4) L(2)
    by (auto simp: timeout_new_def delay_new_def)
  have qp: "ud (r_inner t) = caller_qp c"
    using a(2) by (simp add: caller_qp_def)
  obtain w3 where w3: "post_recv (re_ud E) (caller_qp c) (msg_inner m) (0, of_nat (udmsg_len m)) (udmsg_get_pa (re_ud E) m) w2 = (Inr (), w3)"
    using call(2) unfolding sends_bytes_def by metis
  have mem: "w_mem w3 = w_mem w2"
    using keeps [rule_format, of "msg_inner m" "(0, of_nat (udmsg_len m))" "udmsg_get_pa (re_ud E) m" w2] w3 by simp
  have "register_recv_buf (re_ud E) m (?c, w2) = (Inr (), ?c\<lparr>inner_receiver := t\<lparr>msg_queues := msg_queues t @ [m]\<rparr>\<rparr>, w3)"
    using w3 qp by (simp add: register_recv_buf_def post_recv_buf_def)
  then have "call_and_wait E sid mine (rpc_id_num RpcQuery) key (c, w) =
      Some (Some ?v, ?c\<lparr>inner_receiver := t\<lparr>msg_queues := msg_queues t @ [m]\<rparr>\<rparr>, w3)"
    using c1(1) wait by (simp add: call_and_wait_def expect_ok_def)
  moreover have "mem_read (w_mem w2) (bm_ptr ?v) (size_of (re_reply E)) = to_raw (re_reply E) d"
    using arrived_parse(2) [OF call(4) a(4)] L(2) by simp
  then have "deserialize_default (re_reply E) (w_mem w3) ?v = Some d"
    using L(1) mem by (simp add: deserialize_default_def memcpy_deserialize_def body_view_def wf_layout_def)
  ultimately show ?thesis
    by blast
qed

section \<open>Sample resume\<close>

text \<open>
  A queue pair whose reads complete at the next poll, in order, out of the memory \<open>peer_memory\<close>, which has
  a descriptor at 0x9000; the last read to complete is in the buffer then.
\<close>

type_synonym dma_qp = "((u64 \<times> nat) \<times> u64) list \<times> ((u64 \<times> nat) \<times> u64) option"

definition dma_kit :: "(dma_qp, u64 \<times> nat, unit, unit) rdma_kit" where
  "dma_kit =
     \<lparr>mr_new_from_raw = (\<lambda>a n. Some (a, n)), mr_virt_addr = fst,
      post_send_dc_read = (\<lambda>q _ mr _ _ ra _. (Inr (), fst q @ [(mr, ra)], snd q)),
      post_send_dc_write = (\<lambda>q _ _ _ _ _ _. (Inr (), q)), post_send_read = (\<lambda>q _ _ _ _ _ _. (Inr (), q)),
      post_send_write = (\<lambda>q _ _ _ _ _ _. (Inr (), q)),
      poll_send_cq = (\<lambda>q. case fst q of [] \<Rightarrow> (Inr [], q) | x # xs \<Rightarrow> (Inr [\<lparr>wc_status = 0\<rparr>], xs, Some x)),
      timeout_err = ()\<rparr>"

definition peer_memory :: mem where
  "peer_memory = mem_write (\<lambda>_. 0) 0x9000 (parent_wire packed_layouts sample_parent)"

definition dma_copy :: "dma_qp \<Rightarrow> mem \<Rightarrow> mem" where
  "dma_copy q m = (case snd q of None \<Rightarrow> m | Some ((a, n), ra) \<Rightarrow> mem_write m (unat a) (mem_read peer_memory (unat ra) n))"

definition sample_reply :: DescriptorLookupReply where
  "sample_reply = \<lparr>dl_pa = 0x9000, dl_sz = 172, dl_ready = True, dl_rkey = 3, dl_lid = 2, dl_gid = 5, dl_dct_num = 6, dl_dc_key = 4\<rparr>"

definition sample_env :: "(sim_net, unit, unit, u64, nat, unit, dma_qp, u64 \<times> nat, unit, unit, u64, unit) resume_env" where
  "sample_env =
     \<lparr>re_ud = sim_ud, re_dc = dma_kit, re_header = header_layout, re_reply = reply_layout, re_layouts = packed_layouts,
      re_dma = dma_copy, re_qp_ctx = (\<lambda>_. ()), re_endpoint = (\<lambda>_ _ _ _ _ _ _. Some ()), re_phys_to_virt = (\<lambda>a. a),
      re_passed = (\<lambda>t. (0, t)), re_clock = (), re_canonical = (\<lambda>_. True), re_indices = four_level_indices, re_consts = plain_consts,
      re_munmap = (\<lambda>vs _ _. tl vs), re_mmap = append_mmap, re_find_vma = (\<lambda>vs _. Some (last vs)), re_page_cache = True, re_prefetch = True\<rparr>"

definition reply_datagram :: "u8 list" where
  "reply_datagram = wire header_layout (gen_reply_stub ReplyOk 53) (to_raw reply_layout sample_reply)"

definition sample_sys :: "(sim_net, unit, unit, u64, nat, dma_qp, u64, u64, unit) sys_state" where
  "sample_sys =
     \<lparr>ss_world = sim_world [reply_datagram],
      ss_callers = \<lparr>cp_pool = [bundler_new fresh_caller, bundler_new sim_caller], cp_factories = [(), ()], cp_contexts = [(), ()], cp_metas = [(12, 73), (13, 73)]\<rparr>,
      ss_qps = [bundler_new ([], None), bundler_new ([], None)], ss_async = [bundler_new ([], None)], ss_rc = [],
      ss_heap = empty_heap 16, ss_ks = sample_kstate,
      ss_process = \<lparr>areas = [text_area, heap_area], proc_regs = pd_regs sample_parent\<rparr>,
      ss_cache = Map.empty,
      ss_fork = \<lparr>sp_service = Map.empty, fg_mem_pool = \<lparr>mp_pool = [], mp_capacity = 1, mp_context = ()\<rparr>,
        fg_targets = [\<lparr>dt_target = 73, dt_nic_idx = 0, dt_rkey = 3, dt_meta = \<lparr>dm_lid = 1, dm_gid = 2\<rparr>\<rparr>]\<rparr>\<rparr>"

lemma sample_can_call: "can_call sample_env sn_due (\<lambda>_. 0) sn_sent (sim_caller, sim_world ds)"
proof -
  have qp: "caller_qp sim_caller = ()"
    by simp
  have "client_ok sim_ud sn_due (sim_caller, sim_world ds)"
    by (auto simp: client_ok_def session_ok_def busy_def get_pending_reqs_def sim_session_def sim_buf_def caller_qp_def
        sim_world_def RECV_MTU_def sim_ud_def sim_caller_def split: if_splits)
  moreover have "w_mem (snd (post_recv sim_ud q mr r pa w)) = w_mem w" for q mr r pa w
    by (simp add: sim_ud_def)
  ultimately show ?thesis
    by (simp add: can_call_def sample_env_def RECV_MTU_def)
qed

lemma sync_call_quiet:
  assumes "quiet_send K (caller_qp c) obs" "client_ok K due (c, w)" "sync_call K H L sid mine f arg (c, w) = Some (r, c', w')"
  shows "obs (w_net w') = obs (w_net w)"
proof -
  obtain s msg where s: "caller_sessions c sid = Some (s, msg)"
    using assms(3) by (auto simp: sync_call_def bind_eq_Some_conv)
  then have qp: "ud (ss_inner s) = caller_qp c"
    using assms(2) by (fastforce simp: client_ok_def session_ok_def)
  obtain m g where g: "call_generate H L (call_factory_new mine f) (w_mem w) (msg_bytes msg) arg = (m, g)"
    by fastforce
  obtain n ret s1 w1 where post: "g = Some n" "session_post K msg n (get_pending_reqs s = 0) (s, w\<lparr>w_mem := m\<rparr>) = Some (ret, s1, w1)"
    using assms(3) s g by (auto simp: sync_call_def bind_eq_Some_conv)
  have s1: "obs (w_net w1) = obs (w_net w)" "ud (ss_inner s1) = caller_qp c"
    using session_post_quiet [OF assms(1) qp post(2)] by simp_all
  show ?thesis
  proof (cases "isl ret \<or> \<not> 8 < get_pending_reqs s1")
    case True
    then show ?thesis
      using assms(3) s g post s1(1) by (cases ret) (auto simp: sync_call_def bind_eq_Some_conv)
  next
    case False
    then obtain res s2 where b: "block_on (session_poll K) (s1, w1) = Some (res, s2, w')"
      using assms(3) s g post by (cases ret) (auto simp: sync_call_def bind_eq_Some_conv)
    then show ?thesis
      using s1 block_on_quiet_send [OF assms(1) s1(2) b] by simp
  qed
qed

lemma sample_answers: "answers sample_env sn_sent (sim_caller, sim_world [reply_datagram]) 7 3 3 5 sample_reply"
proof -
  let ?obs = "\<lambda>n. (sn_inbox n, sn_bufs n)"
  let ?body = "to_raw reply_layout sample_reply"
  have quiet: "quiet_send sim_ud (caller_qp sim_caller) ?obs"
    by (auto simp: quiet_send_def sim_ud_def split: if_splits)
  have ok: "client_ok sim_ud sn_due (sim_caller, sim_world [reply_datagram])"
    using sample_can_call by (simp add: can_call_def sample_env_def)
  have len: "length ?body = 53"
    using wf_reply_layout by (simp add: wf_layout_def reply_layout_size)
  have "\<exists>n msg t w1. waits_for sim_ud n (sim_receiver, w') msg (t, w1) \<and> r_inner t = r_inner sim_receiver
      \<and> arrived header_layout (w_mem w1) msg (gen_reply_stub ReplyOk 53) ?body"
    if "sync_call sim_ud header_layout u64_layout 7 3 (rpc_id_num RpcQuery) 5 (sim_caller, sim_world [reply_datagram]) = Some (Inr (), c', w')" for c' w'
  proof -
    have "?obs (w_net w') = ?obs (w_net (sim_world [reply_datagram]))"
      by (rule sync_call_quiet [OF quiet ok that])
    then have net: "sn_inbox (w_net w') = [reply_datagram]" "sn_bufs (w_net w') = [4096]"
      by (simp_all add: sim_world_def)
    let ?w = "w'\<lparr>w_mem := mem_write (w_mem w') 4096 (replicate 40 0 @ reply_datagram), w_net := (w_net w')\<lparr>sn_inbox := [], sn_bufs := []\<rparr>\<rparr>"
    have "receiver_poll sim_ud (sim_receiver, w') = Some (Inr (Ready (sim_buf 4096)), sim_receiver\<lparr>msg_queues := []\<rparr>, ?w)"
      using net by (simp add: receiver_poll_def sim_ud_def sim_receiver_def)
    moreover have "arrived header_layout (w_mem ?w) (sim_buf 4096) (gen_reply_stub ReplyOk 53) ?body"
      using buffer_arrived [of "gen_reply_stub ReplyOk 53" ?body "w_mem w'"] len by (simp add: reply_datagram_def gen_reply_stub_def)
    ultimately show ?thesis
      by (intro exI [of _ 0] exI [of _ "sim_buf 4096"] exI [of _ "sim_receiver\<lparr>msg_queues := []\<rparr>"] exI [of _ ?w]) simp
  qed
  then show ?thesis
    by (auto simp: answers_def sample_env_def reply_layout_size sim_caller_def TIMEOUT_USEC_def)
qed

lemma dma_kit_works: "can_fetch sample_env fst peer_memory ([], None) sample_reply"
proof -
  have "fifo_reads dma_kit fst (\<lambda>_ _. ()) (\<lambda>_. ())"
    by (auto simp: fifo_reads_def dma_kit_def split: list.splits)
  moreover have "dma_reads dma_kit fst dma_copy peer_memory"
    by (auto simp: dma_reads_def dma_kit_def dma_copy_def mem_read_write_same split: list.splits)
  moreover have "reads_in_time dma_kit fst (\<lambda>t. (0, t)) () (10 * TIMEOUT_USEC)"
    unfolding reads_in_time_def
  proof (intro allI impI)
    fix q :: dma_qp
    assume "fst q \<noteq> []"
    then obtain x xs where "fst q = x # xs"
      by (cases "fst q") auto
    then show "\<exists>wc t. block_on (timeout_poll (dc_device_poll dma_kit) (\<lambda>t. (0, t))) (timeout_new q () (10 * TIMEOUT_USEC)) = Some (Inr wc, t)"
      by (subst block_on.simps) (simp add: timeout_poll_cases timeout_new_def dc_device_poll_def dc_poll_def checked_completion_def dma_kit_def)
  qed
  ultimately show ?thesis
    by (simp add: can_fetch_def sample_env_def sim_ud_def) (simp add: dma_kit_def)
qed

lemma sample_can_become: "can_become sample_env sample_parent 5 sample_sys"
proof -
  have "parent_mappings sample_parent = [(0x400000, 0x7000), (0x402000, 0x9004), (0x401000, 0x8000)]"
    by (simp add: parent_mappings_def parent_areas_def sample_parent_def sample_vma_def area_mappings_def get_start_def)
  moreover have "addressable (\<lambda>_. True) sample_parent"
    by (simp add: addressable_def parent_areas_def sample_parent_def sample_vma_def entry_ok_def get_start_def)
  moreover have "heap_ok (empty_heap 16)" "length (avail (empty_heap 16)) = 16"
    by (simp_all add: empty_heap_ok) (simp add: empty_heap_def)
  moreover have "maps_honestly (\<lambda>vs _ _. tl vs) append_mmap (\<lambda>vs _. Some (last vs))"
    by (simp add: maps_honestly_def append_mmap_def)
  moreover have "ordered_areas (pd_vma sample_parent)"
    by (simp add: ordered_areas_def sample_parent_def sample_vma_def get_start_def get_end_def)
  ultimately show ?thesis
    by (simp add: can_become_def sample_env_def sample_sys_def sample_parent_valid four_level_in_range access_info_new_def
        access_info_new_with_port_def text_area_def heap_area_def)
qed

lemma sample_registers:
  "\<exists>g' ks' w'. registration True net_ctl sim_ud 400 packed_layouts 1 x86_consts (\<lambda>p. p) (\<lambda>_. None) (\<lambda>p. p) pages_between
      (ss_process sample_sys) 5 (ss_fork sample_sys, ss_ks sample_sys, ss_world sample_sys) = Some (Some 400, g', ks', w')"
proof -
  let ?vs = "[text_area, heap_area]"
  let ?D = "\<lambda>rdma. cow_descriptor x86_consts pages_between (pd_regs sample_parent) rdma ?vs sample_kstate"
  have "\<exists>process ks'. new_cow x86_consts (\<lambda>p. p) pages_between (pd_regs sample_parent) rdma ?vs sample_kstate = Some (process, ks')
      \<and> descriptor process = ?D rdma \<and> parent_valid packed_layouts (?D rdma) \<and> parent_buf_len packed_layouts (?D rdma) \<le> 400" for rdma
    by (simp add: new_cow_spec [OF x86_rw_low sample_walks] cow_descriptor_def)
      (use sample_cow_valid sample_cow_len in \<open>simp add: cow_descriptor_def\<close>)
  moreover have "\<forall>ctx n w. mr_new sim_ud ctx n w \<noteq> None" "pool_ok sim_ud 400 (fg_mem_pool (ss_fork sample_sys))"
    "sp_service (ss_fork sample_sys) 5 = None" "fg_targets (ss_fork sample_sys) \<noteq> []"
    by (simp_all add: sim_ud_def sample_sys_def pool_ok_def)
  ultimately obtain g' ks' w' b rdma where
    "add_myself net_ctl sim_ud 400 packed_layouts 1 (\<lambda>rdma. new_cow x86_consts (\<lambda>p. p) pages_between (pd_regs sample_parent) rdma ?vs) 5
       (ss_fork sample_sys, ss_ks sample_sys, ss_world sample_sys) = Some (Some 400, g', ks', w')"
    using add_myself_registers [where N = net_ctl and K = sim_ud and mk = 400 and L = packed_layouts and mac = 1 and D = ?D and key = 5
        and shadow = "\<lambda>rdma. new_cow x86_consts (\<lambda>p. p) pages_between (pd_regs sample_parent) rdma ?vs"
        and g = "ss_fork sample_sys" and ks = "ss_ks sample_sys" and w = "ss_world sample_sys"]
    by (auto simp: sample_sys_def)
  then show ?thesis
    by (simp add: registration_def add_myself_cow_def sample_sys_def)
qed

section \<open>Properties\<close>



text \<open>C12: The registry tracks the handlers: whatever sequence of opening, preparing, resuming and closing the
  handlers of a machine go through, the registered processes are exactly those of the open handlers and
  those that were prepared to stay by handlers closed since, no two handlers hold the same key, and the
  targets left are the initial ones less one for each successful prepare, as none comes back.\<close>

theorem registry_tracks_handlers:
  assumes "rtranclp (machine_step (registration cow N K mk L mac kc pte_page user page_to_phy walk_range) E mac max_callers)
      (Map.empty, {}, 0, s0) (hs, P, n, s)"
    and "sp_service (ss_fork s0) = Map.empty"
  shows "dom (sp_service (ss_fork s)) = ran (key_of hs) \<union> P \<and> ran (key_of hs) \<inter> P = {}
    \<and> (\<forall>i j k. key_of hs i = Some k \<longrightarrow> key_of hs j = Some k \<longrightarrow> i = j)
    \<and> length (fg_targets (ss_fork s)) + n = length (fg_targets (ss_fork s0))"
proof -
  let ?T = "length (fg_targets (ss_fork s0))"
  have "registry_ok ?T (hs, P, n, s)"
    using assms(1)
  proof (induction rule: rtranclp_induct)
    case base
    show ?case
      using assms(2) by (simp add: registry_ok_def accounted_def)
  next
    case (step y z)
    then show ?case
      by (blast intro: registry_step)
  qed
  then show ?thesis
    by (simp add: registry_ok_def accounted_def)
qed

theorem registry_tracks_handlers_witness:
  "\<exists>hs s. rtranclp (machine_step (registration True net_ctl sim_ud 400 packed_layouts 1 x86_consts (\<lambda>p. p) (\<lambda>_. None) (\<lambda>p. p) pages_between)
      sample_env 1 2) (Map.empty, {}, 0, sample_sys) (hs, {}, 1, s)
    \<and> dom (sp_service (ss_fork s)) = {5} \<and> fg_targets (ss_fork s) = []"
proof -
  let ?add = "registration True net_ctl sim_ud 400 packed_layouts 1 x86_consts (\<lambda>p. p) (\<lambda>_. None) (\<lambda>p. p) pages_between"
  let ?step = "machine_step ?add sample_env 1 2"
  have opened: "?step (Map.empty, {}, 0, sample_sys) ([0 \<mapsto> handler_open], {}, 0, sample_sys)"
    by (rule machine_step.opened) simp
  obtain g' ks' w' where "?add (ss_process sample_sys) 5 (ss_fork sample_sys, ss_ks sample_sys, ss_world sample_sys) = Some (Some 400, g', ks', w')"
    using sample_registers by blast
  then obtain cd :: "(dma_qp, unit, u64) CallerData" and s where "syscall_prepare ?add 5 False (handler_open, sample_sys) = Some (0, cd, s)" "prepared_key cd = Some 5"
    by (simp add: syscall_prepare_def Let_def)
  moreover from machine_step.prepared [where add = ?add and E = sample_env and mac = 1 and max_callers = 2 and P = "{}" and n = 0,
      OF _ this(1), of "[0 \<mapsto> handler_open]" 0]
  have "?step ([0 \<mapsto> handler_open], {}, 0, sample_sys) ([0 \<mapsto> cd], {}, 1, s)"
    by simp
  ultimately have run: "rtranclp ?step (Map.empty, {}, 0, sample_sys) ([0 \<mapsto> cd], {}, 1, s)" and key: "prepared_key cd = Some 5"
    using opened by (auto intro: rtranclp.rtrancl_into_rtrancl)
  have "sp_service (ss_fork sample_sys) = Map.empty" "length (fg_targets (ss_fork sample_sys)) = 1"
    by (simp_all add: sample_sys_def)
  moreover have "ran (key_of [0 \<mapsto> cd]) = {5}"
    using key by simp
  ultimately show ?thesis
    using registry_tracks_handlers [OF run] run by auto
qed

end
