(* ===== verification/User_Client.thy ===== *)
theory User_Client
  imports Syscalls
begin

text \<open>
  The client libraries: the C functions of mitosis-user-libs/mitosis-c-client (syscall.h), the Rust client of
  mitosis-rust-client and the command numbers of mitosis-protocol. A client writes its request into its own
  memory and calls \<open>ioctl\<close> on the device; the other side is the dispatcher \<open>ioctrl\<close>.
\<close>

section \<open>The device\<close>

text \<open>
  \<open>device m cmd arg s\<close> is the call of the driver's handler by a process whose memory is \<open>m\<close>. The C library
  turns the codes from -4095 to -1 into -1 (and \<open>errno\<close>) and returns any other code as an \<open>int\<close>.
\<close>

type_synonym 's device = "mem \<Rightarrow> u32 \<Rightarrow> u64 \<Rightarrow> 's \<Rightarrow> (int \<times> 's) option"

definition user_copy :: "mem \<Rightarrow> u64 \<Rightarrow> nat \<Rightarrow> u8 list" where
  "user_copy m a n = mem_read m (unat a) n"

definition libc_ioctl :: "'s device \<Rightarrow> 's device" where
  "libc_ioctl device m cmd arg s =
     do { (r, s) \<leftarrow> device m cmd arg s;
          Some (if -4095 \<le> r \<and> r \<le> -1 then -1 else sint (word_of_int r :: 32 word), s) }"

fun cmd_num :: "LibMITOSISCmd \<Rightarrow> u32" where
  "cmd_num CmdNil = 0"
| "cmd_num CmdConnect = 3"
| "cmd_num CmdPrepare = 4"
| "cmd_num CmdResumeLocal = 5"
| "cmd_num CmdResumeRemote = 6"
| "cmd_num CmdPreparePing = 7"
| "cmd_num CmdNilRPC = 8"

lemma cmd_of_num [simp]: "cmd_of (cmd_num c) = Some c"
  by (cases c) (simp_all add: cmd_of_def)

section \<open>The C client\<close>

text \<open>
  Each function returns -1 when \<open>ioctl\<close> did and 0 otherwise. \<open>p\<close> is the address of the request, a local
  variable of the function; the identifiers are cut to 32 bits when they are stored in it.
\<close>

definition simple_call :: "LibMITOSISCmd \<Rightarrow> 's device \<Rightarrow> u64 \<Rightarrow> mem \<times> 's \<Rightarrow> (int \<times> mem \<times> 's) option" where
  "simple_call c sd arg = (\<lambda>(m, s). do { (r, s) \<leftarrow> sd m (cmd_num c) arg s; Some (if r = -1 then -1 else 0, m, s) })"

definition call_nil :: "'s device \<Rightarrow> mem \<times> 's \<Rightarrow> (int \<times> mem \<times> 's) option" where
  "call_nil sd = simple_call CmdNil sd 0"

definition call_connect ::
  "connect_req_t layout \<Rightarrow> 's device \<Rightarrow> u64 \<Rightarrow> u64 \<Rightarrow> u32 \<Rightarrow> u32 \<Rightarrow> mem \<times> 's \<Rightarrow> (int \<times> mem \<times> 's) option" where
  "call_connect CL sd p addr mac nic_id = (\<lambda>(m, s).
     let req = \<lparr>cr_machine_id = mac, cr_nic_id = nic_id, cr_gid = addr\<rparr>;
         m = mem_write m (unat p) (to_raw CL req)
     in simple_call CmdConnect sd p (m, s))"

definition fork_prepare :: "'s device \<Rightarrow> u64 \<Rightarrow> mem \<times> 's \<Rightarrow> (int \<times> mem \<times> 's) option" where
  "fork_prepare sd key = simple_call CmdPrepare sd key"

definition fork_prepare_ping :: "'s device \<Rightarrow> u64 \<Rightarrow> mem \<times> 's \<Rightarrow> (int \<times> mem \<times> 's) option" where
  "fork_prepare_ping sd key = simple_call CmdPreparePing sd key"

definition fork_resume_local :: "'s device \<Rightarrow> u64 \<Rightarrow> mem \<times> 's \<Rightarrow> (int \<times> mem \<times> 's) option" where
  "fork_resume_local sd key = simple_call CmdResumeLocal sd key"

definition fork_resume_remote ::
  "resume_remote_req_t layout \<Rightarrow> 's device \<Rightarrow> u64 \<Rightarrow> u64 \<Rightarrow> u64 \<Rightarrow> mem \<times> 's \<Rightarrow> (int \<times> mem \<times> 's) option" where
  "fork_resume_remote RL sd p mac handler = (\<lambda>(m, s).
     let req = \<lparr>rr_machine_id = ucast mac, rr_handler_id = ucast handler\<rparr>;
         m = mem_write m (unat p) (to_raw RL req)
     in simple_call CmdResumeRemote sd p (m, s))"

definition nil_rpc ::
  "resume_remote_req_t layout \<Rightarrow> 's device \<Rightarrow> u64 \<Rightarrow> u64 \<Rightarrow> u64 \<Rightarrow> mem \<times> 's \<Rightarrow> (int \<times> mem \<times> 's) option" where
  "nil_rpc RL sd p mac handler = (\<lambda>(m, s).
     let req = \<lparr>rr_machine_id = ucast mac, rr_handler_id = ucast handler\<rparr>;
         m = mem_write m (unat p) (to_raw RL req)
     in simple_call CmdNilRPC sd p (m, s))"

section \<open>The Rust client\<close>

definition CALL_NIL :: u32 where
  "CALL_NIL = 0"

definition CALL_CONNECT :: u32 where
  "CALL_CONNECT = 3"

definition CALL_PREPARE :: u32 where
  "CALL_PREPARE = 4"

definition CALL_RESUME_LOCAL :: u32 where
  "CALL_RESUME_LOCAL = 5"

definition CALL_RESUME_LOCAL_W_RPC :: u32 where
  "CALL_RESUME_LOCAL_W_RPC = 6"

definition CALL_RESUME_REMOTE :: u32 where
  "CALL_RESUME_REMOTE = 7"

text \<open>\<open>Errno::result\<close>: -1 is an error. \<open>p\<close> is the address of the local \<open>data\<close>; \<open>prepare\<close> passes the key as the pointer.\<close>

definition errno_result :: "int \<Rightarrow> unit + int" where
  "errno_result r = (if r = -1 then Inl () else Inr r)"

definition mclient_call :: "'s device \<Rightarrow> u32 \<Rightarrow> u64 \<Rightarrow> mem \<times> 's \<Rightarrow> ((unit + int) \<times> mem \<times> 's) option" where
  "mclient_call sd cmd arg = (\<lambda>(m, s). do { (r, s) \<leftarrow> sd m cmd arg s; Some (errno_result r, m, s) })"

definition mclient_nil :: "'s device \<Rightarrow> u64 \<Rightarrow> mem \<times> 's \<Rightarrow> ((unit + int) \<times> mem \<times> 's) option" where
  "mclient_nil sd p = (\<lambda>(m, s). mclient_call sd CALL_NIL p (mem_write m (unat p) (to_raw u64_layout 0), s))"

definition mclient_prepare :: "'s device \<Rightarrow> u64 \<Rightarrow> mem \<times> 's \<Rightarrow> ((unit + int) \<times> mem \<times> 's) option" where
  "mclient_prepare sd key = mclient_call sd CALL_PREPARE key"

definition mclient_test :: "'s device \<Rightarrow> u64 \<Rightarrow> u32 \<Rightarrow> mem \<times> 's \<Rightarrow> ((unit + int) \<times> mem \<times> 's) option" where
  "mclient_test sd p cmd = (\<lambda>(m, s). mclient_call sd cmd p (mem_write m (unat p) (to_raw u64_layout 0), s))"

definition mclient_test_w_arg :: "'s device \<Rightarrow> u32 \<Rightarrow> u64 \<Rightarrow> mem \<times> 's \<Rightarrow> ((unit + int) \<times> mem \<times> 's) option" where
  "mclient_test_w_arg sd cmd data = mclient_call sd cmd data"

text \<open>
  The command numbers of mitosis-protocol are not those of the kernel: the number for resuming from a remote
  image pins the calling process, and the one for a local image over RPC resumes a remote one.
\<close>

theorem protocol_numbers_disagree:
  "cmd_of CALL_RESUME_REMOTE = Some CmdPreparePing" "cmd_of CALL_RESUME_LOCAL_W_RPC = Some CmdResumeRemote"
  by (simp_all add: CALL_RESUME_REMOTE_def CALL_RESUME_LOCAL_W_RPC_def cmd_of_def)

section \<open>From the client to the handler\<close>

text \<open>What the client returns for a code of the handler, and the device the handler's methods make.\<close>

definition client_code :: "int \<Rightarrow> int" where
  "client_code r = (if -4095 \<le> r \<and> r \<le> -1 \<or> (word_of_int r :: 32 word) = -1 then -1 else 0)"

definition reported :: "mem \<Rightarrow> (int \<times> 's) option \<Rightarrow> (int \<times> mem \<times> 's) option" where
  "reported m x = map_option (\<lambda>(r, s). (client_code r, m, s)) x"

lemma sint_minus_one: "sint (w :: 32 word) = -1 \<longleftrightarrow> w = -1"
  using signed_word_eqI [of w "-1"] by auto

lemma simple_call_reported:
  "simple_call c (libc_ioctl device) arg (m, s) = reported m (device m (cmd_num c) arg s)"
  by (cases "device m (cmd_num c) arg s")
    (auto simp: simple_call_def libc_ioctl_def reported_def client_code_def sint_minus_one)

lemma request_arrives:
  assumes "wf_layout L"
  shows "from_raw_bytes L (user_copy (mem_write m (unat p) (to_raw L req)) p (size_of L)) = req"
  using assms by (simp add: user_copy_def wf_layout_pod pod_layout.read_back)

lemma ucast_32 [simp]: "(ucast (ucast (x :: u64) :: u32) :: u64) = take_bit 32 x"
  by (rule bit_word_eqI) (auto simp: bit_simps)

text \<open>\<open>SysCallsHandler::ioctrl\<close> passes the call on to the handler, which copies from the memory of the caller.\<close>

definition mitosis_device ::
  "(u64 \<Rightarrow> bool \<Rightarrow> 's \<Rightarrow> (int \<times> 's) option) \<Rightarrow> (u64 \<Rightarrow> u64 \<Rightarrow> 's \<Rightarrow> (int \<times> 's) option) \<Rightarrow> (u64 \<Rightarrow> string \<Rightarrow> u64 \<Rightarrow> 's \<Rightarrow> (int \<times> 's) option) \<Rightarrow>
    (u64 \<Rightarrow> string \<Rightarrow> u64 \<Rightarrow> 's \<Rightarrow> (int \<times> 's) option) \<Rightarrow> (u64 \<Rightarrow> u64 \<Rightarrow> 's \<Rightarrow> (int \<times> 's) option) \<Rightarrow> bool \<Rightarrow>
    connect_req_t layout \<Rightarrow> resume_remote_req_t layout \<Rightarrow> 's device" where
  "mitosis_device prepare resume connect_session connect_rc empty_call use_rc CL RL =
     libc_ioctl (\<lambda>m. ioctrl prepare resume connect_session connect_rc empty_call use_rc (user_copy m) CL RL)"

text \<open>C25: What a process asks for through the C client is what the handler of its file does: the key of a
  prepare, the identifiers of a resume and of an empty call (their low 32 bits), the 39 bytes of the address
  and the numbers of a connect arrive unchanged through the request in the caller's memory, the memory of the
  caller changes only where the request is, and the client returns -1 for the error codes and 0 otherwise. A
  local resume panics.\<close>

theorem client_reaches_handler:
  assumes "wf_layout CL" "wf_layout RL" "unat p + size_of CL \<le> unat addr \<or> unat addr + 39 \<le> unat p"
  shows "let sd = mitosis_device prepare resume connect_session connect_rc empty_call use_rc CL RL;
             cm = mem_write m (unat p) (to_raw CL \<lparr>cr_machine_id = remote, cr_nic_id = nic, cr_gid = addr\<rparr>);
             rm = mem_write m (unat p) (to_raw RL \<lparr>rr_machine_id = ucast mac, rr_handler_id = ucast handler\<rparr>)
         in call_nil sd (m, s) = Some (0, m, s)
          \<and> fork_prepare sd key (m, s) = reported m (prepare key False s)
          \<and> fork_prepare_ping sd key (m, s) = reported m (prepare key True s)
          \<and> fork_resume_local sd key (m, s) = None
          \<and> fork_resume_remote RL sd p mac handler (m, s) = reported rm (resume (take_bit 32 mac) (take_bit 32 handler) s)
          \<and> nil_rpc RL sd p mac handler (m, s) = reported rm (empty_call (take_bit 32 mac) (take_bit 32 handler) s)
          \<and> call_connect CL sd p addr remote nic (m, s) =
              reported cm (do { g \<leftarrow> from_utf8 (mem_read m (unat addr) 39);
                                (if use_rc then do { (a, s) \<leftarrow> connect_rc (ucast remote) g (ucast nic) s;
                                                     (b, s) \<leftarrow> connect_session (ucast remote) g (ucast nic) s;
                                                     Some (a OR b, s) }
                                 else connect_session (ucast remote) g (ucast nic) s) })"
proof -
  let ?cm = "mem_write m (unat p) (to_raw CL \<lparr>cr_machine_id = remote, cr_nic_id = nic, cr_gid = addr\<rparr>)"
  have "user_copy ?cm addr 39 = mem_read m (unat addr) 39"
    using assms(1,3) by (auto simp: user_copy_def layout_simps intro!: mem_read_write_disjoint)
  then show ?thesis
    using request_arrives [OF assms(1)] request_arrives [OF assms(2)]
    by (cases use_rc; simp add: Let_def call_nil_def fork_prepare_def fork_prepare_ping_def fork_resume_local_def fork_resume_remote_def
        nil_rpc_def call_connect_def mitosis_device_def simple_call_reported ioctrl_def del: cmd_num.simps;
        simp add: reported_def client_code_def)
qed

definition connect_req_layout :: "connect_req_t layout" where
  "connect_req_layout =
     struct_layout (\<lambda>r. (cr_machine_id r, cr_nic_id r, cr_gid r)) (\<lambda>(a, b, c). \<lparr>cr_machine_id = a, cr_nic_id = b, cr_gid = c\<rparr>)
       (pair_layout u32_layout (pair_layout u32_layout u64_layout))"

definition resume_req_layout :: "resume_remote_req_t layout" where
  "resume_req_layout =
     struct_layout (\<lambda>r. (rr_machine_id r, rr_handler_id r)) (\<lambda>(a, b). \<lparr>rr_machine_id = a, rr_handler_id = b\<rparr>)
       (pair_layout u32_layout u32_layout)"

lemma wf_req_layouts [simp]: "wf_layout connect_req_layout" "wf_layout resume_req_layout"
  by (simp_all add: connect_req_layout_def resume_req_layout_def wf_struct_layout wf_pair_layout)

lemma size_req_layouts [simp]: "size_of connect_req_layout = 16"
  by (simp add: connect_req_layout_def struct_layout_def pair_layout_def)

lemma id_cut: "(0x100000003 :: u32) = 3"
  unfolding word_unat_eq_iff by simp

text \<open>A handler that records what it was asked: machine 2^32 + 3 arrives as machine 3.\<close>

theorem client_reaches_handler_witness:
  "fork_resume_remote resume_req_layout
     (mitosis_device (\<lambda>key ping s. Some (-1, s)) (\<lambda>mac key s. Some (0, (mac, key) # s)) (\<lambda>mac g nic s. Some (0, s)) (\<lambda>mac g nic s. Some (0, s))
        (\<lambda>mac key s. Some (0, s)) False connect_req_layout resume_req_layout) 100 0x100000003 7 (\<lambda>_. 0, []) =
   Some (0, mem_write (\<lambda>_. 0) 100 (to_raw resume_req_layout \<lparr>rr_machine_id = 3, rr_handler_id = 7\<rparr>), [(3, 7)])"
  using client_reaches_handler [OF wf_req_layouts, where p = 100 and addr = 200 and prepare = "\<lambda>key ping s. Some (-1, s)"
      and resume = "\<lambda>mac key s. Some (0, (mac, key) # s)" and connect_session = "\<lambda>mac g nic s. Some (0, s)"
      and connect_rc = "\<lambda>mac g nic s. Some (0, s)" and empty_call = "\<lambda>mac key s. Some (0, s)" and use_rc = False
      and mac = "0x100000003" and handler = 7 and m = "\<lambda>_. 0" and s = "[]"]
  by (simp add: Let_def reported_def client_code_def id_cut)

end
