(* ===== verification/Node_Lifecycle.thy ===== *)
theory Node_Lifecycle
  imports Syscalls
begin

text \<open>
  The life of an instance: the global variables of the crate (\<open>declare_global!\<close> of mitosis-macros), starting
  and stopping an instance (mitosis/src/startup.rs, rdma_context.rs) and the kernel module that does so
  (mitosis-kms/fork). The result is about what stopping gives back. Without the feature \<open>use_rc\<close>.
\<close>

section \<open>Global variables\<close>

text \<open>A cell is empty until \<open>init\<close> and after \<open>drop\<close>; reading an empty cell panics.\<close>

type_synonym 'a cell = "'a option"

definition cell_init :: "'a \<Rightarrow> 'a cell" where
  "cell_init v = Some v"

definition cell_get :: "'a cell \<Rightarrow> 'a option" where
  "cell_get c = c"

definition cell_drop :: "('a \<Rightarrow> 's \<Rightarrow> 's) \<Rightarrow> 'a cell \<Rightarrow> 's \<Rightarrow> 'a cell \<times> 's" where
  "cell_drop destroy c s = (None, case c of None \<Rightarrow> s | Some v \<Rightarrow> destroy v s)"

record ('c, 'sv, 'cm, 'tgt, 'qp, 'ep, 'r, 'mr, 'uqp, 'uep, 'j) node_cells =
  c_mac_id :: "u64 cell"
  c_max_caller_num :: "u64 cell"
  c_max_nics_used :: "u64 cell"
  c_max_cluster_size :: "u64 cell"
  c_rdma_driver :: "unit cell"
  c_rdma_contexts :: "'c list cell"
  c_ud_service :: "'sv list cell"
  c_dc_target :: "'tgt list cell"
  c_dc_target_meta :: "DatagramMeta list cell"
  c_rdma_cm_service :: "'cm list cell"
  c_ud_factories :: "'c list cell"
  c_dc_factories :: "'c list cell"
  c_access_info_service :: "'ep AccessInfoPool cell"
  c_global_locks :: "unit LockBundler list cell"
  c_dc_pool_service :: "'qp DCPool cell"
  c_dc_pool_service_async :: "'qp DCPool LockBundler cell"
  c_dc_target_service :: "'tgt DCTargetPool cell"
  c_sp_service :: "('r, 'mr, 'tgt) ShadowProcessService cell"
  c_mem_pool :: "('c, 'mr) MemPool cell"
  c_global_pt_cache :: "RemotePageTableCache cell"
  c_service_rpc :: "'j RpcService cell"
  c_service_caller_pool :: "('c, 'uqp, 'mr, 'uep) CallerPool cell"

section \<open>Starting\<close>

definition start_instance ::
  "('n, 'c, 'b, 'raw, 'qp, 'cp, 'dev, 'sv, 'cm, 'tgt) node_ctl \<Rightarrow> ('n, 'c, 'qp, 'mr, 'uep, 'e) ud_kit \<Rightarrow> nat \<Rightarrow> bool \<Rightarrow> (ib_gid \<Rightarrow> string) \<Rightarrow>
    (ThreadCTX \<Rightarrow> 'n world \<Rightarrow> 'j option \<times> 'n world) \<Rightarrow> ('n world \<Rightarrow> u64 \<times> 'n world) \<Rightarrow> Config \<Rightarrow> 'n world \<Rightarrow>
    (('c, 'sv, 'cm, 'tgt, 'qp, 'ep, 'r, 'mr, 'qp, 'uep, 'j) node_cells \<times> 'n world) option" where
  "start_instance N K max_kmalloc prefetch gid_to_string spawn load cfg w =
     do { (g :: ('c, 'sv, 'cm, 'tgt, 'qp, 'ep, 'r, 'mr, unit) mitosis_globals, w) \<leftarrow> init_mitosis N K max_kmalloc prefetch False cfg w;
          (s, p, w) \<leftarrow> init_rpc N K gid_to_string spawn load cfg (rdma_state g) w;
          Some (\<lparr>c_mac_id = cell_init (my_mac_id g), c_max_caller_num = cell_init (caller_num g), c_max_nics_used = cell_init (max_nics g),
                 c_max_cluster_size = cell_init (cluster_size g), c_rdma_driver = cell_init (), c_rdma_contexts = cell_init (rdma_contexts (rdma_state g)),
                 c_ud_service = cell_init (ud_service (rdma_state g)), c_dc_target = cell_init (dc_target (rdma_state g)),
                 c_dc_target_meta = cell_init (dc_target_meta (rdma_state g)), c_rdma_cm_service = cell_init (rdma_cm_service (rdma_state g)),
                 c_ud_factories = cell_init (ud_factories g), c_dc_factories = cell_init (dc_factories g),
                 c_access_info_service = cell_init (access_info_service g),
                 c_global_locks = cell_init (map (\<lambda>_. bundler_new ()) (usize_range (max_core_cnt cfg))),
                 c_dc_pool_service = cell_init (dc_pool_service g), c_dc_pool_service_async = dc_pool_service_async g,
                 c_dc_target_service = cell_init (fg_targets (fork_state g)), c_sp_service = cell_init (sp_service (fork_state g)),
                 c_mem_pool = cell_init (fg_mem_pool (fork_state g)), c_global_pt_cache = cell_init (global_pt_cache g),
                 c_service_rpc = cell_init s, c_service_caller_pool = cell_init p\<rparr>, w) }"

lemma cell_drop_simps [simp]: "fst (cell_drop destroy c s) = None" "snd (cell_drop destroy (Some v) s) = destroy v s"
  by (simp_all add: cell_drop_def)

section \<open>Stopping\<close>

text \<open>
  \<open>join_thread\<close> waits for a server thread; the destructors of the objects of the RDMA library and of the pools built
  from them only act on the network: \<open>release\<close> is their effect, on the content of a cell.
\<close>

datatype ('c, 'sv, 'cm, 'tgt, 'qp, 'ep, 'mr, 'uqp, 'uep) resource =
    UdFactories "'c list"
  | DcFactories "'c list"
  | AccessInfos "'ep AccessInfoPool"
  | TargetPool "'tgt DCTargetPool"
  | QueuePairs "'qp DCPool"
  | AsyncQueuePairs "'qp DCPool LockBundler"
  | Callers "('c, 'uqp, 'mr, 'uep) CallerPool"
  | Bundle "'mr UDMsg" "'tgt list"
  | Buffers "('c, 'mr) MemPool"
  | CmServers "'cm list"
  | UdServices "'sv list"
  | GlobalTargets "'tgt list"
  | Contexts "'c list"
  | Driver

record ('n, 'c, 'sv, 'cm, 'tgt, 'qp, 'ep, 'mr, 'uqp, 'uep, 'j) stop_ctl =
  join_thread :: "'j \<Rightarrow> 'n world \<Rightarrow> 'n world"
  release :: "('c, 'sv, 'cm, 'tgt, 'qp, 'ep, 'mr, 'uqp, 'uep) resource \<Rightarrow> 'n world \<Rightarrow> 'n world"

text \<open>The destructor of the RPC service joins its threads, the last one first.\<close>

definition service_drop :: "('j \<Rightarrow> 'n world \<Rightarrow> 'n world) \<Rightarrow> 'j RpcService \<Rightarrow> 'n world \<Rightarrow> 'n world" where
  "service_drop join s w = fold join (rev (threads s)) w"

text \<open>
  The hash maps are emptied in the order of their buckets: \<open>order\<close> lists the registered keys, \<open>corder\<close> the
  keys of the cached page tables. The fields of a bundler are dropped in the order of their declaration.
\<close>

definition bundler_drop ::
  "('n, 'c, 'sv, 'cm, 'tgt, 'qp, 'ep, 'mr, 'uqp, 'uep, 'j) stop_ctl \<Rightarrow> ('r, 'mr, 'tgt) ShadowProcessService \<Rightarrow> u64 \<Rightarrow>
    kstate \<times> 'n world \<Rightarrow> kstate \<times> 'n world" where
  "bundler_drop D sps key = (\<lambda>(ks, w).
     case sps key of
       None \<Rightarrow> (ks, w)
     | Some b \<Rightarrow> (shadow_drop (pb_process b) ks, release D (Bundle (serialized_buf b) (bound_dc_targets b)) w))"

definition cached_table_drop :: "RemotePageTableCache \<Rightarrow> u64 \<Rightarrow> Heap \<times> kstate \<Rightarrow> (Heap \<times> kstate) option" where
  "cached_table_drop store key = (\<lambda>(h, ks).
     case store key of
       None \<Rightarrow> Some (h, ks)
     | Some t \<Rightarrow> do { (ps, h) \<leftarrow> rpt_drop h t; Some (h, fold pmem_free_page ps ks) })"

definition end_rdma ::
  "('n, 'c, 'sv, 'cm, 'tgt, 'qp, 'ep, 'mr, 'uqp, 'uep, 'j) stop_ctl \<Rightarrow>
    ('c, 'sv, 'cm, 'tgt, 'qp, 'ep, 'r, 'mr, 'uqp, 'uep, 'j) node_cells \<times> 'n world \<Rightarrow>
    ('c, 'sv, 'cm, 'tgt, 'qp, 'ep, 'r, 'mr, 'uqp, 'uep, 'j) node_cells \<times> 'n world" where
  "end_rdma D = (\<lambda>(n, w).
     let (c1, w) = cell_drop (release D \<circ> CmServers) (c_rdma_cm_service n) w;
         (c2, w) = cell_drop (release D \<circ> UdServices) (c_ud_service n) w;
         (c3, w) = cell_drop (\<lambda>_ w. w) (c_dc_target_meta n) w;
         (c4, w) = cell_drop (release D \<circ> GlobalTargets) (c_dc_target n) w;
         (c5, w) = cell_drop (release D \<circ> Contexts) (c_rdma_contexts n) w;
         (c6, w) = cell_drop (\<lambda>_. release D Driver) (c_rdma_driver n) w
     in (n\<lparr>c_rdma_cm_service := c1, c_ud_service := c2, c_dc_target_meta := c3, c_dc_target := c4, c_rdma_contexts := c5,
          c_rdma_driver := c6\<rparr>, w))"

definition end_instance ::
  "('n, 'c, 'sv, 'cm, 'tgt, 'qp, 'ep, 'mr, 'uqp, 'uep, 'j) stop_ctl \<Rightarrow> u64 list \<Rightarrow> u64 list \<Rightarrow>
    ('c, 'sv, 'cm, 'tgt, 'qp, 'ep, 'r, 'mr, 'uqp, 'uep, 'j) node_cells \<times> Heap \<times> kstate \<times> 'n world \<Rightarrow>
    (('c, 'sv, 'cm, 'tgt, 'qp, 'ep, 'r, 'mr, 'uqp, 'uep, 'j) node_cells \<times> Heap \<times> kstate \<times> 'n world) option" where
  "end_instance D order corder = (\<lambda>(n, h, ks, w).
     do { let (c1, w) = cell_drop (release D \<circ> UdFactories) (c_ud_factories n) w;
          let (c2, w) = cell_drop (release D \<circ> DcFactories) (c_dc_factories n) w;
          let (c3, w) = cell_drop (service_drop (join_thread D)) (c_service_rpc n) w;
          let (c4, w) = cell_drop (release D \<circ> AccessInfos) (c_access_info_service n) w;
          let (c5, w) = cell_drop (release D \<circ> TargetPool) (c_dc_target_service n) w;
          let (c6, w) = cell_drop (release D \<circ> QueuePairs) (c_dc_pool_service n) w;
          let (c7, w) = cell_drop (release D \<circ> AsyncQueuePairs) (c_dc_pool_service_async n) w;
          let (c8, w) = cell_drop (release D \<circ> Callers) (c_service_caller_pool n) w;
          let (c9, ks, w) = cell_drop (\<lambda>sps. fold (bundler_drop D sps) order) (c_sp_service n) (ks, w);
          let (c10, w) = cell_drop (release D \<circ> Buffers) (c_mem_pool n) w;
          (h, ks) \<leftarrow> (case c_global_pt_cache n of None \<Rightarrow> Some (h, ks) | Some store \<Rightarrow> foldo (cached_table_drop store) corder (h, ks));
          let n = n\<lparr>c_ud_factories := c1, c_dc_factories := c2, c_service_rpc := c3, c_access_info_service := c4, c_dc_target_service := c5,
                    c_dc_pool_service := c6, c_dc_pool_service_async := c7, c_service_caller_pool := c8, c_sp_service := c9,
                    c_mem_pool := c10, c_global_pt_cache := None, c_global_locks := None\<rparr>;
          let (n, w) = end_rdma D (n, w);
          Some (n, h, ks, w) })"

section \<open>The kernel module\<close>

text \<open>
  Loading the module with the parameter \<open>mac_id\<close> (\<open>ident\<close>). \<open>register\<close> registers the character device; when
  that fails the module is not loaded, and the instance that was started is not stopped.
\<close>

definition module_config :: "u64 \<Rightarrow> Config option" where
  "module_config ident =
     do { c \<leftarrow> set_rpc_threads 2 (set_num_nics_used 1 config_default); Some (set_machine_id ident (set_init_dc_targets 12 c)) }"

definition module_init ::
  "(Config \<Rightarrow> 'n world \<Rightarrow> ('cells \<times> 'n world) option) \<Rightarrow> ('n world \<Rightarrow> ('e + 'dev) \<times> 'n world) \<Rightarrow> u64 \<Rightarrow> 'n world \<Rightarrow>
    (('e + 'dev) \<times> 'cells \<times> 'n world) option" where
  "module_init start register ident w =
     do { cfg \<leftarrow> module_config ident;
          (n, w) \<leftarrow> start cfg w;
          (case register w of (r, w) \<Rightarrow> Some (r, n, w)) }"

text \<open>Unloading ends the instance; the field \<open>service\<close>, with the device, is dropped after the body of the destructor.\<close>

definition module_drop ::
  "('s \<Rightarrow> ('s \<times> Heap \<times> kstate \<times> 'n world) option) \<Rightarrow> ('dev \<Rightarrow> 'n world \<Rightarrow> 'n world) \<Rightarrow> 'dev \<Rightarrow> 's \<Rightarrow> ('s \<times> Heap \<times> kstate \<times> 'n world) option" where
  "module_drop stop unregister_device dev st =
     do { (n, h, ks, w) \<leftarrow> stop st; Some (n, h, ks, unregister_device dev w) }"

section \<open>References\<close>

text \<open>
  A registered process holds references: on the pages it protected and on the files of its areas. \<open>owed\<close> is
  what all registered processes hold on one page or file.
\<close>

definition held_pages :: "('r, 'mr, 'tgt) ProcessBundler \<Rightarrow> u64 list" where
  "held_pages b = (case cow_shadow_pagetable (pb_process b) of None \<Rightarrow> [] | Some t \<Rightarrow> t)"

definition held_files :: "('r, 'mr, 'tgt) ProcessBundler \<Rightarrow> u64 list" where
  "held_files b = map shadow_file (filter (\<lambda>v. shadow_file v \<noteq> 0 \<and> is_cow v) (shadow_vmas (pb_process b)))"

definition owed :: "(('r, 'mr, 'tgt) ProcessBundler \<Rightarrow> u64 list) \<Rightarrow> ('r, 'mr, 'tgt) ShadowProcessService \<Rightarrow> u64 \<Rightarrow> int" where
  "owed held sps p = (\<Sum>k \<in> dom sps. int (count_list (held (the (sps k))) p))"

definition balanced :: "kstate \<Rightarrow> ('r, 'mr, 'tgt) ShadowProcessService \<Rightarrow> kstate \<Rightarrow> bool" where
  "balanced ks0 sps ks \<longleftrightarrow> finite (dom sps)
     \<and> (\<forall>p. page_refs ks p = page_refs ks0 p + owed held_pages sps p)
     \<and> (\<forall>p. map_counts ks p = map_counts ks0 p + owed held_pages sps p)
     \<and> (\<forall>f. file_refs ks f = file_refs ks0 f + owed held_files sps f)"

lemma owed_empty [simp]: "owed held Map.empty p = 0"
  by (simp add: owed_def)

lemma owed_insert:
  assumes "finite (dom sps)" "sps k = None"
  shows "owed held (sps(k \<mapsto> b)) p = owed held sps p + int (count_list (held b) p)"
proof -
  have "(\<Sum>j \<in> dom sps. int (count_list (held (the ((sps(k \<mapsto> b)) j))) p)) = owed held sps p"
    unfolding owed_def using assms(2) by (intro sum.cong) auto
  moreover have "dom (sps(k \<mapsto> b)) = insert k (dom sps)" "k \<notin> dom sps"
    using assms(2) by auto
  ultimately show ?thesis
    using assms(1) by (simp add: owed_def)
qed

lemma owed_remove:
  assumes "finite (dom sps)" "sps k = Some b"
  shows "owed held (sps(k := None)) p = owed held sps p - int (count_list (held b) p)"
  using owed_insert [of "sps(k := None)" k held b p] assms by (simp add: map_upd_triv)

lemma vmas_drop_held:
  "fold shadow_vma_drop svs ks =
    ks\<lparr>file_refs := count_down (file_refs ks) (map shadow_file (filter (\<lambda>v. shadow_file v \<noteq> 0 \<and> is_cow v) svs))\<rparr>"
proof (induction svs rule: rev_induct)
  case Nil
  then show ?case
    by (simp add: count_down_def)
next
  case (snoc v svs)
  then show ?case
    by (simp add: shadow_vma_drop_def pmem_put_file_def count_down_snoc)
qed

lemma copy_pages_drop_counts:
  "page_refs (fold copy_page_drop t ks) = page_refs ks" "map_counts (fold copy_page_drop t ks) = map_counts ks"
  "file_refs (fold copy_page_drop t ks) = file_refs ks"
  by (induction t arbitrary: ks) (simp_all add: copy_page_drop_def pmem_free_page_def)

lemma shadow_drop_counts:
  "page_refs (shadow_drop (pb_process b) ks) = count_down (page_refs ks) (held_pages b)"
  "map_counts (shadow_drop (pb_process b) ks) = count_down (map_counts ks) (held_pages b)"
  "file_refs (shadow_drop (pb_process b) ks) = count_down (file_refs ks) (held_files b)"
  by (simp_all add: shadow_drop_def Let_def vmas_drop_held cow_pages_drop copy_pages_drop_counts held_pages_def held_files_def
      count_down_def split: option.splits)

text \<open>Generating the tables takes one reference per recorded page when pages are protected, none when they are copied.\<close>

definition gen_counts :: "bool \<Rightarrow> kstate \<Rightarrow> kstate \<Rightarrow> u64 list \<Rightarrow> bool" where
  "gen_counts cow s0 s pages \<longleftrightarrow> page_refs s = count_up (page_refs s0) (if cow then pages else [])
     \<and> map_counts s = count_up (map_counts s0) (if cow then pages else []) \<and> file_refs s = file_refs s0"

lemma count_up_Nil [simp]: "count_up c [] = c"
  by (simp add: count_up_def)

lemma cow_pte_counts:
  assumes "cow_pte_entry K pte_page sv a (s, inner, flat) = Some (s', inner', flat')" "gen_counts True s0 s inner"
  shows "gen_counts True s0 s' inner'"
  using assms by (auto simp: cow_pte_entry_def gen_counts_def Let_def cow_page_new_def pmem_get_page_def pmem_page_dup_rmap_def
      pmem_clear_pte_write_def add_page_def count_up_snoc split: if_splits bind_splits)

lemma copy_pte_counts:
  assumes "copy_pte_entry user page_to_phy sv a (s, inner, flat) = Some (s', inner', flat')" "gen_counts False s0 s inner"
  shows "gen_counts False s0 s' inner'"
  using assms by (auto simp: copy_pte_entry_def copy_page_new_def gen_counts_def Let_def pmem_alloc_page_def
      split: if_splits bind_splits list.splits)

lemma tables_counts:
  assumes "foldo (generate_table (\<lambda>sv. foldo (entry sv) (walk_range (vma_inner sv)))) svs (s, [], []) = Some (s', pages, ts)"
    and "\<And>sv a s inner flat s' inner' flat'. entry sv a (s, inner, flat) = Some (s', inner', flat') \<Longrightarrow>
      gen_counts cow s0 s inner \<Longrightarrow> gen_counts cow s0 s' inner'"
    and "gen_counts cow s0 s []"
  shows "gen_counts cow s0 s' pages"
proof -
  let ?I = "\<lambda>st. gen_counts cow s0 (fst st) (fst (snd st))"
  have area: "?I st'" if "foldo (entry sv) as st = Some st'" "?I st" for sv as st st'
    using that by (rule foldo_invariant [where I = ?I]) (auto dest: assms(2))
  have "?I (s', pages, ts)"
    by (rule foldo_invariant [OF assms(1), where I = ?I])
      (use assms(3) area in \<open>auto simp: generate_table_def split: bind_splits\<close>)
  then show ?thesis
    by simp
qed

lemma new_cow_counts:
  assumes "new_cow K pte_page walk_range regs rdma vs s = Some (sh, s')" "pb_process b = sh"
  shows "page_refs s' = count_up (page_refs s) (held_pages b)" "map_counts s' = count_up (map_counts s) (held_pages b)"
    "file_refs s' = count_up (file_refs s) (held_files b)"
proof -
  let ?s = "s\<lparr>file_refs := count_up (file_refs s) (area_files vs)\<rparr>"
  obtain pages ts where t: "foldo (generate_table (cow_generate K pte_page walk_range)) (map (shadow_of True) vs) (?s, [], []) = Some (s', pages, ts)"
    and sh: "shadow_vmas sh = map (shadow_of True) vs" "cow_shadow_pagetable sh = Some pages"
    using assms(1) by (auto simp: new_cow_def shadow_areas split: bind_splits)
  have "gen_counts True ?s s' pages"
    using t unfolding cow_generate_def [abs_def]
    by (rule tables_counts) (erule (1) cow_pte_counts, simp add: gen_counts_def)
  moreover have "held_files b = area_files vs"
    using assms(2) sh(1) by (simp add: held_files_def area_files_def shadow_of_def filter_map comp_def)
  ultimately show "page_refs s' = count_up (page_refs s) (held_pages b)" "map_counts s' = count_up (map_counts s) (held_pages b)"
    "file_refs s' = count_up (file_refs s) (held_files b)"
    using assms(2) sh(2) by (simp_all add: gen_counts_def held_pages_def)
qed

lemma new_copy_counts:
  assumes "new_copy user page_to_phy walk_range regs rdma vs s = Some (sh, s')" "pb_process b = sh"
  shows "page_refs s' = count_up (page_refs s) (held_pages b)" "map_counts s' = count_up (map_counts s) (held_pages b)"
    "file_refs s' = count_up (file_refs s) (held_files b)"
proof -
  obtain pages ts where t: "foldo (generate_table (copy_generate user page_to_phy walk_range)) (map (shadow_of False) vs) (s, [], []) = Some (s', pages, ts)"
    and sh: "shadow_vmas sh = map (shadow_of False) vs" "cow_shadow_pagetable sh = None"
    using assms(1) by (auto simp: new_copy_def shadow_areas split: bind_splits)
  have "gen_counts False s s' pages"
    using t unfolding copy_generate_def [abs_def]
    by (rule tables_counts) (erule (1) copy_pte_counts, simp add: gen_counts_def)
  moreover have "held_files b = []" "held_pages b = []"
    using assms(2) sh by (simp_all add: held_files_def held_pages_def shadow_of_def filter_map comp_def)
  ultimately show "page_refs s' = count_up (page_refs s) (held_pages b)" "map_counts s' = count_up (map_counts s) (held_pages b)"
    "file_refs s' = count_up (file_refs s) (held_files b)"
    by (simp_all add: gen_counts_def)
qed

text \<open>The steps of the service: a registration (which may be refused), a removal, and what others do meanwhile.\<close>

inductive service_step ::
  "('r process \<Rightarrow> u64 \<Rightarrow> ('r, 'c, 'mr, 'tgt, 'n) fork_state \<Rightarrow> (nat option \<times> ('r, 'c, 'mr, 'tgt, 'n) fork_state) option) \<Rightarrow>
    ('r, 'c, 'mr, 'tgt, 'n) fork_state \<Rightarrow> ('r, 'c, 'mr, 'tgt, 'n) fork_state \<Rightarrow> bool"
  for add where
  registered: "add p key st = Some (r, st') \<Longrightarrow> service_step add st st'"
| removed: "service_step add st (unregister key st)"
| others: "page_refs ks' = page_refs ks \<Longrightarrow> map_counts ks' = map_counts ks \<Longrightarrow> file_refs ks' = file_refs ks \<Longrightarrow>
    service_step add (g, ks, w) (g, ks', w')"

lemma balanced_insert:
  assumes "balanced ks0 sps ks" "sps key = None"
    and "page_refs ks' = count_up (page_refs ks) (held_pages b)" "map_counts ks' = count_up (map_counts ks) (held_pages b)"
    and "file_refs ks' = count_up (file_refs ks) (held_files b)"
  shows "balanced ks0 (sps(key \<mapsto> b)) ks'"
  using assms by (simp add: balanced_def owed_insert count_up_def)

lemma balanced_remove:
  assumes "balanced ks0 sps ks" "sps key = Some b"
  shows "balanced ks0 (sps(key := None)) (shadow_drop (pb_process b) ks)"
  using assms by (simp add: balanced_def owed_remove shadow_drop_counts count_down_def)

lemma add_myself_balanced:
  fixes g :: "('r, 'c, 'mr, 'tgt) fork_globals"
  assumes "add_myself N K mk L mac shadow key (g, ks, w) = Some (r, g', ks', w')" "balanced ks0 (sp_service g) ks"
    and "\<And>rdma sh s' b. shadow rdma ks = Some (sh, s') \<Longrightarrow> pb_process b = sh \<Longrightarrow>
      page_refs s' = count_up (page_refs ks) (held_pages b) \<and> map_counts s' = count_up (map_counts ks) (held_pages b)
      \<and> file_refs s' = count_up (file_refs ks) (held_files (b :: ('r, 'mr, 'tgt) ProcessBundler))"
  shows "balanced ks0 (sp_service g') (ks' :: kstate)"
proof (cases "sp_service g key")
  case None
  with assms(1) obtain rdma sh buf len ts where sh: "shadow rdma ks = Some (sh, ks')"
    "sp_service g' = (sp_service g)(key \<mapsto> \<lparr>pb_process = sh, serialized_buf = buf, serialized_buf_len = len, bound_dc_targets = ts\<rparr>)"
    by (auto simp: add_myself_def process_bundler_new_def Let_def split: bind_splits prod.splits)
  then show ?thesis
    using assms(3) [OF sh(1)] unfolding sh(2) by (intro balanced_insert [OF assms(2) None]) simp_all
next
  case (Some b)
  then show ?thesis
    using assms(1,2) by (simp add: add_myself_def)
qed

lemma registration_balanced:
  assumes "registration cow N K mk L mac kc pte_page user page_to_phy walk_range p key (g, ks, w) = Some (r, g', ks', w')"
    and "balanced ks0 (sp_service g) ks"
  shows "balanced ks0 (sp_service g') ks'"
proof (cases cow)
  case True
  then show ?thesis
    using assms(1) unfolding registration_def add_myself_cow_def
    by (simp only: if_True) (erule add_myself_balanced [OF _ assms(2)], blast dest: new_cow_counts)
next
  case False
  then show ?thesis
    using assms(1) unfolding registration_def add_myself_copy_def
    by (simp only: if_False) (erule add_myself_balanced [OF _ assms(2)], blast dest: new_copy_counts)
qed

lemma service_step_balanced:
  assumes "service_step (registration cow N K mk L mac kc pte_page user page_to_phy walk_range) st st'"
    and "balanced ks0 (sp_service (fst st)) (fst (snd st))"
  shows "balanced ks0 (sp_service (fst st')) (fst (snd st'))"
  using assms
proof (induction rule: service_step.induct)
  case (registered p key st r st')
  then show ?case
    by (metis registration_balanced prod.collapse)
next
  case (removed st key)
  then show ?case
    by (auto simp: unregister_def intro: balanced_remove split: prod.splits option.splits)
next
  case (others ks' ks g w w')
  then show ?case
    by (simp add: balanced_def)
qed

text \<open>Emptying the registry, in any order.\<close>

lemma bundlers_drop_balanced:
  assumes "balanced ks0 sps ks" "distinct order" "set order = dom sps"
  shows "\<exists>ks' w'. fold (bundler_drop D sps) order (ks, w) = (ks', w')
    \<and> page_refs ks' = page_refs ks0 \<and> map_counts ks' = map_counts ks0 \<and> file_refs ks' = file_refs ks0"
  using assms
proof (induction order arbitrary: sps ks w)
  case Nil
  then have "sps = Map.empty"
    by (metis dom_eq_empty_conv empty_set)
  with Nil show ?case
    by (auto simp: balanced_def)
next
  case (Cons key order)
  then obtain b where b: "sps key = Some b"
    by (metis domD list.set_intros(1))
  let ?sps = "sps(key := None)"
  have "bundler_drop D ?sps k = bundler_drop D sps k" if "k \<in> set order" for k
    using that Cons.prems(2) by (auto simp: bundler_drop_def fun_eq_iff)
  then have same: "fold (bundler_drop D ?sps) order st = fold (bundler_drop D sps) order st" for st
    by (intro fold_cong) auto
  have head: "bundler_drop D sps key (ks, w) =
      (shadow_drop (pb_process b) ks, release D (Bundle (serialized_buf b) (bound_dc_targets b)) w)"
    by (simp add: bundler_drop_def b)
  have "distinct order" "set order = dom ?sps"
    using Cons.prems(2,3) by auto
  from Cons.IH [OF balanced_remove [OF Cons.prems(1) b] this, unfolded same] show ?case
    by (simp add: head)
qed

text \<open>The cached tables can be dropped: walking and freeing them, in this order, meets no dangling pointer.\<close>

definition tables_droppable :: "RemotePageTableCache \<Rightarrow> u64 list \<Rightarrow> Heap \<Rightarrow> bool" where
  "tables_droppable store corder h \<longleftrightarrow>
     foldo (\<lambda>key h. case store key of None \<Rightarrow> Some h | Some t \<Rightarrow> map_option snd (rpt_drop h t)) corder h \<noteq> None"

lemma freed_counts:
  "page_refs (fold pmem_free_page ps ks) = page_refs ks" "map_counts (fold pmem_free_page ps ks) = map_counts ks"
  "file_refs (fold pmem_free_page ps ks) = file_refs ks"
  by (induction ps arbitrary: ks) (simp_all add: pmem_free_page_def)

lemma cached_tables_drop:
  assumes "tables_droppable store corder h"
  shows "\<exists>h' ks'. foldo (cached_table_drop store) corder (h, ks) = Some (h', ks')
    \<and> page_refs ks' = page_refs ks \<and> map_counts ks' = map_counts ks \<and> file_refs ks' = file_refs ks"
  using assms
proof (induction corder arbitrary: h ks)
  case Nil
  then show ?case
    by simp
next
  case (Cons key corder)
  show ?case
  proof (cases "store key")
    case None
    then show ?thesis
      using Cons.IH [of h ks] Cons.prems by (simp add: cached_table_drop_def tables_droppable_def)
  next
    case (Some t)
    then obtain ps h1 where "rpt_drop h t = Some (ps, h1)" "tables_droppable store corder h1"
      using Cons.prems by (cases "rpt_drop h t") (auto simp: tables_droppable_def)
    then show ?thesis
      using Some Cons.IH [of h1 "fold pmem_free_page ps ks"] by (simp add: cached_table_drop_def freed_counts)
  qed
qed

text \<open>After the stop only the four numbers of the configuration are left.\<close>

definition stopped :: "('c, 'sv, 'cm, 'tgt, 'qp, 'ep, 'r, 'mr, 'uqp, 'uep, 'j) node_cells \<Rightarrow> bool" where
  "stopped n \<longleftrightarrow> c_rdma_driver n = None \<and> c_rdma_contexts n = None \<and> c_ud_service n = None \<and> c_dc_target n = None \<and> c_dc_target_meta n = None
     \<and> c_rdma_cm_service n = None \<and> c_ud_factories n = None \<and> c_dc_factories n = None \<and> c_access_info_service n = None
     \<and> c_global_locks n = None \<and> c_dc_pool_service n = None \<and> c_dc_pool_service_async n = None \<and> c_dc_target_service n = None
     \<and> c_sp_service n = None \<and> c_mem_pool n = None \<and> c_global_pt_cache n = None \<and> c_service_rpc n = None \<and> c_service_caller_pool n = None"


text \<open>A witness: one process is registered on the sample machine and the instance is stopped.\<close>

definition idle_stop :: "(sim_net, unit, unit, unit, u64, u64, unit, u64, unit, nat, unit) stop_ctl" where
  "idle_stop = \<lparr>join_thread = (\<lambda>_ w. w), release = (\<lambda>_ w. w)\<rparr>"

definition cells_with :: "('r, 'mr, 'tgt) ShadowProcessService \<Rightarrow> ('c, 'sv, 'cm, 'tgt, 'qp, 'ep, 'r, 'mr, 'uqp, 'uep, 'j) node_cells" where
  "cells_with sps = \<lparr>c_mac_id = Some 1, c_max_caller_num = Some 2, c_max_nics_used = Some 1, c_max_cluster_size = Some 4, c_rdma_driver = Some (),
     c_rdma_contexts = Some [], c_ud_service = Some [], c_dc_target = Some [], c_dc_target_meta = Some [], c_rdma_cm_service = Some [],
     c_ud_factories = Some [], c_dc_factories = Some [], c_access_info_service = Some [], c_global_locks = Some [], c_dc_pool_service = None,
     c_dc_pool_service_async = None, c_dc_target_service = Some [], c_sp_service = Some sps, c_mem_pool = None,
     c_global_pt_cache = Some Map.empty, c_service_rpc = Some \<lparr>threads = [], connect_infos = []\<rparr>, c_service_caller_pool = None\<rparr>"


end
