(* ===== verification/Spec2Isabelle.thy ===== *)
theory Spec2Isabelle
  imports Bytes_Mut Async_Future Page_Table_Iter Remote_Fork Prefetch_Progress User_Client Node_Lifecycle
begin

text \<open>
  MITOSIS is a Linux kernel module that forks processes across machines. A parent calls \<open>prepare\<close>: the module
  makes a \<^emph>\<open>shadow\<close> of the process (its pages write-protected or copied) and registers it, together with a
  serialised descriptor (registers, memory areas, the physical address of every page). A process on another
  machine calls \<open>resume\<close>: the module asks the parent's RPC server where the descriptor is, reads it by a one-sided
  RDMA read, replaces the memory areas and the registers of the caller, and keeps the page table of the
  descriptor. Page faults of this child are served by reading the parent's pages over RDMA, with optional
  prefetching and caching.

  \<^bold>\<open>Conventions.\<close> Machine integers are words of their width; the crate is compiled with overflow checks, so
  arithmetic that overflows is an error. A panic, a failed assertion, a dangling pointer and a loop that does not
  return are the value None of an outer option; the \<open>Option\<close> and \<open>Result\<close> of the Rust code are an inner option or
  sum. Memory is a function from addresses to bytes, page tables are nodes in a heap of tables, the state of the
  kernel (page-table entries, reference counts, allocation) is the record \<open>kstate\<close>. Code outside the repository is
  an argument: the verbs of the RDMA library are the records \<open>rdma_kit\<close>, \<open>ud_kit\<close>, \<open>qp_ctl\<close>, \<open>ep_ctl\<close>, \<open>node_ctl\<close> and
  \<open>rc_ctl\<close>, the constants of the kernel headers \<open>kconsts\<close>, the clock, the canonical-address test and the index
  function of the x86-64 library, \<open>mmap\<close>, \<open>munmap\<close> and the kernel's page walk are functions. What is assumed of them
  is a named predicate (for instance \<open>fifo_reads\<close>, \<open>dma_reads\<close>, \<open>working_network\<close>, \<open>control_path_works\<close>,
  \<open>walks_areas\<close>), and each result with such an assumption has a witness on a concrete instance. The features of the
  crate (\<open>cow\<close>, \<open>prefetch\<close>, \<open>page-cache\<close>, \<open>use_rc\<close>, \<open>eager-resume\<close>) are arguments or separate definitions.

  \<^bold>\<open>The theories and the code\<close> (paths below src/).

    \<^item> \<open>Mitosis_Prelude\<close>: words, checked arithmetic, flat memory, little-endian integers, layouts of plain structs
      (locale \<open>pod_layout\<close>), loops that may fault.
    \<^item> \<open>Bytes_Mut\<close> (os-network/src/bytes.rs, serialize.rs): buffers and memcpy serialisation; round trip, refusal of short
      buffers, what is compared, what a formatted write and a copy really do.
    \<^item> \<open>Async_Future\<close> (future.rs, lib.rs, timeout.rs): polling, blocking, timeouts; \<open>block_on\<close> with a timeout always returns.
    \<^item> \<open>Rdma_Conn\<close> (rdma.rs, rdma/, remote_memory/, mitosis/src/remote_paging.rs): posting and polling on DC and RC queue
      pairs and the one-sided read of a page; a read that reports success has delivered the bytes.
    \<^item> \<open>Datagram\<close> (datagram/): message buffers, sending, the receiver's queue of posted buffers.
    \<^item> \<open>Rpc_Header\<close>, \<open>Rpc\<close>, \<open>Rpc_Calls\<close> (rpc.rs, rpc/): headers, the service table, the server hook, the caller; a call
      is sent, executed once, answered on its session and returned; a poll of the server always returns; which
      polls lose a receive buffer.
    \<^item> \<open>Phys_Addr\<close>, \<open>Page_Table\<close>, \<open>Page_Table_Map\<close>, \<open>Page_Table_Iter\<close> (mitosis/src/remote_mapping/): flags packed into
      addresses, the four-level table as linked nodes, mapping as the update of a map from pages to entries, the
      counter, the iterator as the enumeration of that map.
    \<^item> \<open>Descriptors\<close>, \<open>Child_Descriptor\<close> (descriptors/): the wire format of the parent descriptor and the child's own
      deserialiser, shown equal to deserialising and then converting.
    \<^item> \<open>Kern_Wrappers\<close>, \<open>Shadow_Process\<close> (kern_wrappers/, native/, shadow_process.rs, shadow_process/): areas, page-table
      entries and reference counts; write protection isolates the snapshot from later writes, the descriptor lists
      the present pages, dropping gives back what was taken.
    \<^item> \<open>Remote_Fork\<close>: parent, wire and child composed; the child translates an address to the parent's page.
    \<^item> \<open>Prefetcher\<close>, \<open>Prefetch_Progress\<close> (prefetcher/, descriptors/child.rs): asynchronous reads, their marks in the page
      table, the invariant between marks and the queue, waiting and draining.
    \<^item> \<open>Page_Fault\<close> (core_syscall_handler.rs, descriptors/child.rs, remote_pt_cache.rs, kern_wrappers/task.rs): replacing the
      areas and registers of a process, serving faults, the page-table cache, batched and eager fetching.
    \<^item> \<open>Node_Startup\<close> (lib.rs, rdma_context.rs, dc_pool.rs, mem_pools.rs, rc_conn_pool.rs, lock_bundler.rs): configuration, opening
      the NICs, the pools, session numbers.
    \<^item> \<open>Fork_Service\<close> (shadow_process_service.rs, rpc_handlers.rs): registered processes and the callbacks of the server.
    \<^item> \<open>Rpc_Service\<close> (rpc_service.rs, rpc_caller_pool.rs, startup.rs): server threads, the pool of callers, initialisation.
    \<^item> \<open>Syscalls\<close> (core_syscall_handler.rs, mitosis-c-client/include/common.h): the state of an open file, every system call, the
      dispatcher, closing; the step relation \<open>machine_step\<close> interleaves the handlers of a machine.
    \<^item> \<open>User_Client\<close> (mitosis-user-libs/): the C and Rust clients in front of the dispatcher.
    \<^item> \<open>Node_Lifecycle\<close> (mitosis-macros, startup.rs, rdma_context.rs, mitosis-kms/fork): global variables, starting and stopping
      an instance, the kernel module; the step relation \<open>service_step\<close> covers registrations and removals.

  \<^bold>\<open>What is shown end to end.\<close> The path of a fork is \<open>fork_resume_remote\<close> of the client, \<open>ioctrl\<close>,
  \<open>syscall_resume_w_rpc\<close>, the RPC to \<open>handle_descriptor_addr_lookup\<close>, \<open>remote_descriptor_fetch\<close>, \<open>child_deserialize\<close>, \<open>apply_to\<close>, and
  then \<open>handle_page_fault\<close>. The request of the client arrives unchanged (C25); a registered process is found by its key
  (C8); a resume makes the caller a child with the registers, areas and translations of the descriptor (C3, with
  C10, C11); the child's translation is the parent's page (C1), which later writes of the parent do not change
  (C2); a fault delivers the bytes of that page (C4, C7). Server threads keep running (C5, C9), the registry
  follows the open files (C12), and stopping the instance gives back every reference (C13).

  \<^bold>\<open>Loops and bounds.\<close> Blocking loops (\<open>block_on\<close>, the wait for a prefetched page, draining, the barrier at start-up)
  are partial functions without a bound; that they return is proved from progress of the device (\<open>due\<close> and
  \<open>delay\<close> measures of a network, a clock that reaches the limit). All other loops recurse over lists or natural
  numbers. \<open>worker_rounds n\<close> is a server thread stopped after \<open>n\<close> rounds, for every \<open>n\<close> below \<open>2 ^ 64\<close>, where its call
  counter would overflow.

  \<^bold>\<open>Not modelled.\<close> Interleaving inside one operation: the globals are unlocked in the code, the handlers are
  interleaved call by call. The RC servers that \<open>use_rc\<close> adds to starting and stopping a node. The C wrappers that
  only call one kernel function, which are arguments. Logging, profiling and \<open>Debug\<close> output (except that of
  buffers). The file syscalls/basic.rs is not compiled; lean containers, benchmark utilities, unit tests, build
  scripts, experiments and samples either drive the modelled code or are sequences of system calls of the kernel.
\<close>

end
